(* ===== verification/Slick_Prelude.thy ===== *)
theory Slick_Prelude
  imports Main "HOL-Library.AList" "HOL-Library.Multiset"
begin

text \<open>
  The vocabulary the components share: Python's exceptions as values, the result type of
  fallible code with its sequencing operators, Python dictionaries as association lists (with
  the dictionary interface as a locale), the list idioms of the source (removal while
  iterating, positions), and the collections the component proofs use.

  A dictionary is the list of its items in iteration order.  CPython 2 leaves the iteration
  order of a plain dictionary unspecified; an insertion here appends, as an
  \<^verbatim>\<open>OrderedDict\<close> does, and the results that depend on an iteration are stated so that they
  hold for every order (uniqueness of the match, or membership of the answer).
\<close>

named_theorems res_simps \<open>unfolding of the result type\<close>
named_theorems model_defs \<open>definitions of operations that proofs unfold together\<close>

section \<open>Exceptions and results\<close>

text \<open>The exception classes of \<^verbatim>\<open>slick_exceptions.py\<close>.\<close>

datatype slick_exception =
    ConnectionNotFound
  | ElementNotFound
  | ApplicationNotFound
  | InstanceNotFound
  | ElementDownloadFailed
  | ElementSpecificationError
  | InvalidChain

datatype py_error =
    KeyError
  | IndexError
  | TypeError
  | ValueError
  | AttributeError
  | NameError
  | AssertionError
  | RuntimeError
  | OverflowError
  | StructError
  | ZeroDivisionError
  | NotImplementedError
  | GenericException
  | SlickException slick_exception

type_synonym 'a res = "py_error + 'a"

definition rbind :: "'a res \<Rightarrow> ('a \<Rightarrow> 'b res) \<Rightarrow> 'b res" where
  "rbind r f = (case r of Inl e \<Rightarrow> Inl e | Inr x \<Rightarrow> f x)"

lemma rbind_Inl [simp, res_simps]: "rbind (Inl e) f = Inl e"
  by (simp add: rbind_def)

lemma rbind_Inr [simp, res_simps]: "rbind (Inr x) f = f x"
  by (simp add: rbind_def)

lemma rbind_eq_Inr [res_simps]: "rbind r f = Inr y \<longleftrightarrow> (\<exists>x. r = Inr x \<and> f x = Inr y)"
  by (cases r) auto

lemma rbind_eq_Inl [res_simps]:
  "rbind r f = Inl e \<longleftrightarrow> r = Inl e \<or> (\<exists>x. r = Inr x \<and> f x = Inl e)"
  by (cases r) auto

lemma rbind_cong [fundef_cong]:
  "r = r' \<Longrightarrow> (\<And>x. r' = Inr x \<Longrightarrow> f x = g x) \<Longrightarrow> rbind r f = rbind r' g"
  by (cases r') auto

text \<open>\<open>rmapM\<close>: a list comprehension whose body may raise; \<open>rfoldM\<close>: a \<^verbatim>\<open>for\<close> loop over a list
  whose body updates the state and may raise.\<close>

fun rmapM :: "('a \<Rightarrow> 'b res) \<Rightarrow> 'a list \<Rightarrow> 'b list res" where
  "rmapM f [] = Inr []"
| "rmapM f (x # xs) = rbind (f x) (\<lambda>y. rbind (rmapM f xs) (\<lambda>ys. Inr (y # ys)))"

fun rfoldM :: "('s \<Rightarrow> 'a \<Rightarrow> 's res) \<Rightarrow> 's \<Rightarrow> 'a list \<Rightarrow> 's res" where
  "rfoldM f s [] = Inr s"
| "rfoldM f s (x # xs) = rbind (f s x) (\<lambda>s'. rfoldM f s' xs)"

lemma rmapM_Inr_iff: "rmapM f xs = Inr ys \<longleftrightarrow> list_all2 (\<lambda>x y. f x = Inr y) xs ys"
  by (induction xs arbitrary: ys) (auto simp: rbind_eq_Inr list_all2_Cons1)

lemma rmapM_length: "rmapM f xs = Inr ys \<Longrightarrow> length ys = length xs"
  by (auto simp: rmapM_Inr_iff dest: list_all2_lengthD)

lemma rmapM_all_ok: "(\<And>x. x \<in> set xs \<Longrightarrow> f x = Inr (g x)) \<Longrightarrow> rmapM f xs = Inr (map g xs)"
  by (induction xs) auto

lemma rmapM_map: "rmapM f (map g xs) = rmapM (\<lambda>x. f (g x)) xs"
  by (induction xs) auto

text \<open>A comprehension that keeps every item beside what was computed for it.\<close>

lemma rmapM_tagged:
  "rmapM (\<lambda>x. rbind (f x) (\<lambda>y. Inr (x, y))) xs = Inr ps \<Longrightarrow> map fst ps = xs \<and> (\<forall>(x, y) \<in> set ps. f x = Inr y)"
  by (induction xs arbitrary: ps) (fastforce simp: rbind_eq_Inr)+

lemma rfoldM_append: "rfoldM f s (xs @ ys) = rbind (rfoldM f s xs) (\<lambda>s'. rfoldM f s' ys)"
  by (induction xs arbitrary: s) (auto simp: rbind_def split: sum.splits)

text \<open>The loop rule: an invariant kept by every iteration that does not raise holds at the end.\<close>

lemma rfoldM_invariant:
  assumes "rfoldM f s xs = Inr t" and "I s"
    and "\<And>s x s'. I s \<Longrightarrow> x \<in> set xs \<Longrightarrow> f s x = Inr s' \<Longrightarrow> I s'"
  shows "I t"
  using assms
proof (induction xs arbitrary: s)
  case Nil
  then show ?case by simp
next
  case (Cons x xs)
  from Cons.prems(1) obtain s' where s': "f s x = Inr s'" and t: "rfoldM f s' xs = Inr t"
    by (auto simp: rbind_eq_Inr)
  have "I s'" using Cons.prems(2,3) s' by auto
  with t show ?case
    by (rule Cons.IH) (use Cons.prems(3) in auto)
qed

text \<open>And its total form: if no iteration raises under the invariant, the loop returns.\<close>

lemma rfoldM_total:
  assumes "I s" and "\<And>s x. I s \<Longrightarrow> x \<in> set xs \<Longrightarrow> \<exists>s'. f s x = Inr s' \<and> I s'"
  shows "\<exists>t. rfoldM f s xs = Inr t \<and> I t"
  using assms
proof (induction xs arbitrary: s)
  case Nil
  then show ?case by simp
next
  case (Cons x xs)
  obtain s' where s': "f s x = Inr s'" and "I s'"
    using Cons.prems by (meson list.set_intros(1))
  have "\<exists>t. rfoldM f s' xs = Inr t \<and> I t"
    using \<open>I s'\<close> Cons.prems(2) by (intro Cons.IH) auto
  with s' show ?case by auto
qed

lemma foldl_invariant: "P s \<Longrightarrow> (\<And>s x. P s \<Longrightarrow> x \<in> set xs \<Longrightarrow> P (f s x)) \<Longrightarrow> P (foldl f s xs)"
  by (induction xs arbitrary: s) auto

section \<open>Dictionaries\<close>

type_synonym ('k, 'v) dict = "('k \<times> 'v) list"

abbreviation has_key :: "('k, 'v) dict \<Rightarrow> 'k \<Rightarrow> bool" where
  "has_key d k \<equiv> map_of d k \<noteq> None"

abbreviation dict_keys :: "('k, 'v) dict \<Rightarrow> 'k list" where
  "dict_keys d \<equiv> map fst d"

abbreviation dict_wf :: "('k, 'v) dict \<Rightarrow> bool" where
  "dict_wf d \<equiv> distinct (map fst d)"

text \<open>\<^verbatim>\<open>d[k]\<close> on a plain dictionary raises \<^verbatim>\<open>KeyError\<close>; so does \<^verbatim>\<open>del d[k]\<close>.\<close>

definition dict_getitem :: "('k, 'v) dict \<Rightarrow> 'k \<Rightarrow> 'v res" where
  "dict_getitem d k = (case map_of d k of None \<Rightarrow> Inl KeyError | Some v \<Rightarrow> Inr v)"

definition dict_delitem :: "('k, 'v) dict \<Rightarrow> 'k \<Rightarrow> ('k, 'v) dict res" where
  "dict_delitem d k = (if has_key d k then Inr (AList.delete k d) else Inl KeyError)"

text \<open>The default a \<^verbatim>\<open>defaultdict\<close> supplies: reading a missing key inserts it.\<close>

definition ddict_touch :: "'v \<Rightarrow> 'k \<Rightarrow> ('k, 'v) dict \<Rightarrow> ('k, 'v) dict" where
  "ddict_touch dflt k d = (if has_key d k then d else AList.update k dflt d)"

lemma dict_getitem_Inr [simp]: "dict_getitem d k = Inr v \<longleftrightarrow> map_of d k = Some v"
  by (auto simp: dict_getitem_def split: option.splits)

lemma dict_getitem_Inl [simp]: "dict_getitem d k = Inl e \<longleftrightarrow> map_of d k = None \<and> e = KeyError"
  by (auto simp: dict_getitem_def split: option.splits)

lemma dict_delitem_Inr [simp]:
  "dict_delitem d k = Inr d' \<longleftrightarrow> has_key d k \<and> d' = AList.delete k d"
  by (auto simp: dict_delitem_def)

lemma map_of_update [simp]: "map_of (AList.update k v d) = (map_of d)(k \<mapsto> v)"
  by (simp add: update_conv')

lemma map_of_delete [simp]: "map_of (AList.delete k d) = (map_of d)(k := None)"
  by (simp add: delete_conv')

lemma map_of_ddict_touch:
  "map_of (ddict_touch v k d) = (if has_key d k then map_of d else (map_of d)(k \<mapsto> v))"
  by (simp add: ddict_touch_def)

lemma dict_wf_update [simp, intro]: "dict_wf d \<Longrightarrow> dict_wf (AList.update k v d)"
  by (rule distinct_update)

lemma dict_wf_delete [simp, intro]: "dict_wf d \<Longrightarrow> dict_wf (AList.delete k d)"
  by (rule distinct_delete)

lemma dict_wf_touch [simp, intro]: "dict_wf d \<Longrightarrow> dict_wf (ddict_touch v k d)"
  by (auto simp: ddict_touch_def)

lemma dict_mem_iff: "dict_wf d \<Longrightarrow> (k, v) \<in> set d \<longleftrightarrow> map_of d k = Some v"
  by simp

lemma set_dict_keys: "set (dict_keys d) = dom (map_of d)"
  by (rule dom_map_of_conv_image_fst [symmetric, unfolded set_map [symmetric]])

lemma length_update: "length (AList.update k v d) = (if has_key d k then length d else Suc (length d))"
  by (induction d) auto

lemma update_fresh: "map_of d k = None \<Longrightarrow> AList.update k v d = d @ [(k, v)]"
  by (induction d) (auto split: if_splits)

text \<open>The dictionary interface: what every mapping of the controller relies on.\<close>

locale py_mapping =
  fixes get :: "'d \<Rightarrow> 'k \<Rightarrow> 'v option"
    and put :: "'k \<Rightarrow> 'v \<Rightarrow> 'd \<Rightarrow> 'd"
    and rem :: "'k \<Rightarrow> 'd \<Rightarrow> 'd"
    and keys :: "'d \<Rightarrow> 'k list"
    and ok :: "'d \<Rightarrow> bool"
  assumes get_put: "ok d \<Longrightarrow> get (put k v d) = (get d)(k \<mapsto> v)"
    and get_rem: "ok d \<Longrightarrow> get (rem k d) = (get d)(k := None)"
    and keys_dom: "ok d \<Longrightarrow> set (keys d) = dom (get d)"
    and keys_distinct: "ok d \<Longrightarrow> distinct (keys d)"
    and ok_put: "ok d \<Longrightarrow> ok (put k v d)"
    and ok_rem: "ok d \<Longrightarrow> ok (rem k d)"
begin

lemma rem_put_fresh: "ok d \<Longrightarrow> get d k = None \<Longrightarrow> get (rem k (put k v d)) = get d"
  by (auto simp: get_put get_rem ok_put fun_eq_iff)

lemma number_of_keys: "ok d \<Longrightarrow> length (keys d) = card (dom (get d))"
  using keys_dom keys_distinct distinct_card by fastforce

lemma finite_keys: "ok d \<Longrightarrow> finite (dom (get d))"
  by (simp flip: keys_dom)

lemma number_of_keys_put:
  "ok d \<Longrightarrow> length (keys (put k v d)) = (if get d k = None then Suc (length (keys d)) else length (keys d))"
  using keys_dom [of d, symmetric]
  by (auto simp: number_of_keys ok_put get_put card_insert_if insert_absorb domIff)

lemma number_of_keys_rem:
  "ok d \<Longrightarrow> get d k \<noteq> None \<Longrightarrow> Suc (length (keys (rem k d))) = length (keys d)"
  using card_Suc_Diff1 [OF finite_keys, of d k]
  by (simp add: number_of_keys ok_rem get_rem domIff del: card_Diff_insert)

end

interpretation alist: py_mapping map_of AList.update AList.delete dict_keys dict_wf
  by unfold_locales (auto simp: dom_map_of_conv_image_fst)

section \<open>List idioms\<close>

text \<open>
  \<^verbatim>\<open>for x in L: if P(x): L.remove(x)\<close>: the iterator keeps an index into the list it shares with
  the body, so the element that moves into the removed position is never looked at.
\<close>

function remove_while_iterating :: "('a \<Rightarrow> bool) \<Rightarrow> nat \<Rightarrow> 'a list \<Rightarrow> 'a list" where
  "remove_while_iterating P i xs =
     (if i < length xs then
        (if P (xs ! i) then remove_while_iterating P (Suc i) (remove1 (xs ! i) xs)
         else remove_while_iterating P (Suc i) xs)
      else xs)"
  by pat_completeness auto
termination
  by (relation "measure (\<lambda>(P, i, xs). length xs - i)") (auto simp: length_remove1)

declare remove_while_iterating.simps [simp del]

text \<open>What that loop computes on a list without repetitions, as a structural recursion.\<close>

fun skip_remove :: "('a \<Rightarrow> bool) \<Rightarrow> 'a list \<Rightarrow> 'a list" where
  "skip_remove P [] = []"
| "skip_remove P [x] = (if P x then [] else [x])"
| "skip_remove P (x # y # xs) = (if P x then y # skip_remove P xs else x # skip_remove P (y # xs))"

lemma remove_while_iterating_skip:
  "distinct (ys @ xs) \<Longrightarrow>
   remove_while_iterating P (length ys) (ys @ xs) = ys @ skip_remove P xs"
proof (induction P xs arbitrary: ys rule: skip_remove.induct)
  case (1 P)
  then show ?case by (simp add: remove_while_iterating.simps)
next
  case (2 P x)
  then show ?case
    by (simp add: remove_while_iterating.simps remove1_append)
next
  case (3 P x y xs)
  show ?case
  proof (cases "P x")
    case True
    have "remove_while_iterating P (length ys) (ys @ x # y # xs) =
          remove_while_iterating P (length (ys @ [y])) ((ys @ [y]) @ xs)"
      using "3.prems" True by (subst remove_while_iterating.simps) (simp add: remove1_append)
    also have "\<dots> = (ys @ [y]) @ skip_remove P xs"
      using "3.prems" True by (intro "3.IH"(1)) auto
    finally show ?thesis using True by simp
  next
    case False
    have "remove_while_iterating P (length ys) (ys @ x # y # xs) =
          remove_while_iterating P (length (ys @ [x])) ((ys @ [x]) @ y # xs)"
      using "3.prems" False by (subst remove_while_iterating.simps) simp
    also have "\<dots> = (ys @ [x]) @ skip_remove P (y # xs)"
      using "3.prems" False by (intro "3.IH"(2)) auto
    finally show ?thesis using False by simp
  qed
qed

corollary remove_while_iterating_eq:
  "distinct xs \<Longrightarrow> remove_while_iterating P 0 xs = skip_remove P xs"
  using remove_while_iterating_skip [of "[]" xs P] by simp

lemma set_skip_remove_subset: "set (skip_remove P xs) \<subseteq> set xs"
  by (induction P xs rule: skip_remove.induct) auto

lemma skip_remove_keeps: "x \<in> set xs \<Longrightarrow> \<not> P x \<Longrightarrow> x \<in> set (skip_remove P xs)"
  by (induction P xs rule: skip_remove.induct) auto

lemma distinct_skip_remove: "distinct xs \<Longrightarrow> distinct (skip_remove P xs)"
  using set_skip_remove_subset
  by (induction P xs rule: skip_remove.induct) fastforce+

text \<open>No two neighbours are to be removed: then, and the loop is the filter it was meant to be.\<close>

fun no_adjacent :: "('a \<Rightarrow> bool) \<Rightarrow> 'a list \<Rightarrow> bool" where
  "no_adjacent P (x # y # xs) = (\<not> (P x \<and> P y) \<and> no_adjacent P (y # xs))"
| "no_adjacent P xs = True"

lemma no_adjacent_tl: "no_adjacent P (x # xs) \<Longrightarrow> no_adjacent P xs"
  by (cases xs) auto

lemma skip_remove_filter: "no_adjacent P xs \<Longrightarrow> skip_remove P xs = filter (\<lambda>x. \<not> P x) xs"
  by (induction P xs rule: skip_remove.induct) (auto dest: no_adjacent_tl)

text \<open>First position of an element, and the items paired with their positions.\<close>

definition list_index :: "'a list \<Rightarrow> 'a \<Rightarrow> nat option" where
  "list_index xs x = (if x \<in> set xs then Some (length (takeWhile (\<lambda>y. y \<noteq> x) xs)) else None)"

lemma list_index_nth: "list_index xs x = Some i \<Longrightarrow> i < length xs \<and> xs ! i = x"
  by (induction xs arbitrary: i) (auto simp: list_index_def split: if_splits)

text \<open>Python's \<^verbatim>\<open>xs[i]\<close> for a position that is never negative.\<close>

definition list_getitem :: "'a list \<Rightarrow> nat \<Rightarrow> 'a res" where
  "list_getitem xs i = (if i < length xs then Inr (xs ! i) else Inl IndexError)"

lemma list_getitem_Inr [simp]: "list_getitem xs i = Inr x \<longleftrightarrow> i < length xs \<and> x = xs ! i"
  by (auto simp: list_getitem_def)

text \<open>The first item that satisfies a test which may raise, as a \<^verbatim>\<open>for\<close> loop with a
  \<^verbatim>\<open>return\<close> finds it.\<close>

fun rfind :: "('a \<Rightarrow> bool res) \<Rightarrow> 'a list \<Rightarrow> 'a option res" where
  "rfind t [] = Inr None"
| "rfind t (x # xs) = rbind (t x) (\<lambda>b. if b then Inr (Some x) else rfind t xs)"

lemma rfind_Some: "rfind t xs = Inr (Some x) \<Longrightarrow> x \<in> set xs \<and> t x = Inr True"
  by (induction xs) (auto simp: rbind_eq_Inr split: if_splits)

lemma rfind_None: "rfind t xs = Inr None \<Longrightarrow> x \<in> set xs \<Longrightarrow> t x = Inr False"
  by (induction xs) (auto simp: rbind_eq_Inr split: if_splits)

lemma rfind_pure: "(\<And>x. x \<in> set xs \<Longrightarrow> t x = Inr (p x)) \<Longrightarrow> rfind t xs = Inr (find p xs)"
  by (induction xs) auto

text \<open>Where at most one item passes the test, the order of the items does not matter.\<close>

lemma find_unique:
  assumes "x \<in> set xs" and "p x" and "\<And>y. y \<in> set xs \<Longrightarrow> p y \<Longrightarrow> y = x"
  shows "find p xs = Some x"
proof -
  have "find p xs \<noteq> None" using assms(1,2) by (auto simp: find_None_iff)
  then obtain y where "find p xs = Some y" by auto
  then have "y \<in> set xs" "p y" by (auto simp: find_Some_iff)
  with \<open>find p xs = Some y\<close> show ?thesis using assms(3) by simp
qed

lemma find_in_set: "find p xs = Some x \<Longrightarrow> x \<in> set xs \<and> p x"
  by (auto simp: find_Some_iff)

end
