(* ===== verification/Packet_Utils.thy ===== *)
theory Packet_Utils
  imports Slick_Prelude "HOL-Library.Word"
begin

text \<open>
  Addresses and their textual forms: \<^verbatim>\<open>utils/packet_utils.py\<close>, the copies of its functions in
  \<^verbatim>\<open>shim/shim_table.py\<close>, and \<^verbatim>\<open>dpid_to_str\<close> of \<^verbatim>\<open>overlay_network.py\<close>.  Python integers are
  \<open>int\<close>, byte strings are \<open>string\<close> (a \<open>char\<close> is a byte), \<^verbatim>\<open>array('B', ..)\<close> is a list of \<open>nat\<close>
  below 256.  The lemmas give the round trips between numbers, octets and text, and the
  one's-complement law of \<^verbatim>\<open>checksum\<close>.
\<close>

unbundle bit_operations_syntax

section \<open>Python's number formatting and parsing\<close>

abbreviation byte_of :: "char \<Rightarrow> nat" where
  "byte_of c \<equiv> of_char c"

abbreviation char_of_byte :: "nat \<Rightarrow> char" where
  "char_of_byte b \<equiv> char_of b"

definition digit_char :: "nat \<Rightarrow> char" where
  "digit_char d = (if d < 10 then char_of (48 + d) else char_of (87 + d))"

text \<open>The digits of a number in a base between 2 and 16, most significant first.\<close>

fun digits_of :: "nat \<Rightarrow> nat \<Rightarrow> nat list" where
  "digits_of b n = (if n < b \<or> b < 2 then [n] else digits_of b (n div b) @ [n mod b])"

declare digits_of.simps [simp del]

text \<open>\<^verbatim>\<open>'%d' % n\<close> and \<^verbatim>\<open>'%x' % n\<close>.\<close>

definition fmt_d :: "nat \<Rightarrow> string" where
  "fmt_d n = map digit_char (digits_of 10 n)"

definition fmt_x :: "nat \<Rightarrow> string" where
  "fmt_x n = map digit_char (digits_of 16 n)"

text \<open>\<^verbatim>\<open>'%02x' % n\<close>: at least two digits.\<close>

definition fmt_02x :: "nat \<Rightarrow> string" where
  "fmt_02x n = (if n < 16 then digit_char 0 # fmt_x n else fmt_x n)"

text \<open>\<^verbatim>\<open>int(s, base)\<close>: white space around, a sign, for base 16 the prefix \<^verbatim>\<open>0x\<close>, then digits.\<close>

definition is_space :: "char \<Rightarrow> bool" where
  "is_space c \<longleftrightarrow> byte_of c \<in> {9, 10, 11, 12, 13, 32}"

definition strip :: "string \<Rightarrow> string" where
  "strip s = rev (dropWhile is_space (rev (dropWhile is_space s)))"

definition digit_val :: "char \<Rightarrow> nat option" where
  "digit_val c =
     (let n = byte_of c in
      if 48 \<le> n \<and> n \<le> 57 then Some (n - 48)
      else if 97 \<le> n \<and> n \<le> 122 then Some (n - 87)
      else if 65 \<le> n \<and> n \<le> 90 then Some (n - 55)
      else None)"

definition parse_digits :: "nat \<Rightarrow> string \<Rightarrow> nat res" where
  "parse_digits base s =
     (if s \<noteq> [] \<and> (\<forall>c \<in> set s. \<exists>d \<in> set_option (digit_val c). d < base)
      then Inr (foldl (\<lambda>v c. v * base + the (digit_val c)) 0 s)
      else Inl ValueError)"

definition parse_unsigned :: "nat \<Rightarrow> string \<Rightarrow> nat res" where
  "parse_unsigned base s =
     (case s of
        CHR ''0'' # CHR ''x'' # ds \<Rightarrow> parse_digits base (if base = 16 then ds else s)
      | CHR ''0'' # CHR ''X'' # ds \<Rightarrow> parse_digits base (if base = 16 then ds else s)
      | _ \<Rightarrow> parse_digits base s)"

definition py_int :: "nat \<Rightarrow> string \<Rightarrow> int res" where
  "py_int base s =
     (case strip s of
        CHR ''-'' # ds \<Rightarrow> rbind (parse_unsigned base ds) (\<lambda>n. Inr (- int n))
      | CHR ''+'' # ds \<Rightarrow> rbind (parse_unsigned base ds) (\<lambda>n. Inr (int n))
      | ds \<Rightarrow> rbind (parse_unsigned base ds) (\<lambda>n. Inr (int n)))"

text \<open>\<^verbatim>\<open>s.split(c)\<close> with a one-character separator.\<close>

fun split_on :: "char \<Rightarrow> string \<Rightarrow> string list" where
  "split_on c [] = [[]]"
| "split_on c (x # xs) =
     (if x = c then [] # split_on c xs
      else (case split_on c xs of [] \<Rightarrow> [[x]] | s # ss \<Rightarrow> (x # s) # ss))"

fun join_with :: "string \<Rightarrow> string list \<Rightarrow> string" where
  "join_with sep [] = []"
| "join_with sep [s] = s"
| "join_with sep (s # t # ss) = s @ sep @ join_with sep (t # ss)"

section \<open>The functions of the source\<close>

text \<open>\<^verbatim>\<open>ip_to_str\<close>, \<^verbatim>\<open>ipstr_to_int\<close>: IPv4 addresses as integers and as dotted quads.\<close>

definition ip_octet :: "int \<Rightarrow> nat \<Rightarrow> nat" where
  "ip_octet a k = nat (drop_bit k a AND 0xff)"

definition ip_to_str :: "int \<Rightarrow> string" where
  "ip_to_str a =
     join_with ''.'' [fmt_d (ip_octet a 24), fmt_d (ip_octet a 16), fmt_d (ip_octet a 8),
                      fmt_d (ip_octet a 0)]"

definition ipstr_to_int :: "string \<Rightarrow> int res" where
  "ipstr_to_int a =
     (let octets = split_on CHR ''.'' a in
      rbind (rbind (list_getitem octets 0) (py_int 10)) (\<lambda>a0.
      rbind (rbind (list_getitem octets 1) (py_int 10)) (\<lambda>a1.
      rbind (rbind (list_getitem octets 2) (py_int 10)) (\<lambda>a2.
      rbind (rbind (list_getitem octets 3) (py_int 10)) (\<lambda>a3.
      Inr (push_bit 24 a0 OR push_bit 16 a1 OR push_bit 8 a2 OR a3))))))"

text \<open>\<^verbatim>\<open>array_to_octstr\<close>, \<^verbatim>\<open>octstr_to_array\<close>: bytes as colon-separated hexadecimal.\<close>

definition array_to_octstr :: "nat list \<Rightarrow> string" where
  "array_to_octstr arr =
     foldl (\<lambda>bstr byte. if bstr \<noteq> [] then bstr @ '':'' @ fmt_02x byte else bstr @ fmt_02x byte) [] arr"

definition octstr_to_array :: "string \<Rightarrow> nat list res" where
  "octstr_to_array ocstr =
     rmapM (\<lambda>item. rbind (py_int 16 item)
              (\<lambda>v. if 0 \<le> v \<and> v \<le> 255 then Inr (nat v) else Inl OverflowError))
       (split_on CHR '':'' ocstr)"

text \<open>\<^verbatim>\<open>struct.pack('!Q', n)\<close>: eight bytes, most significant first.\<close>

definition struct_pack_Q :: "int \<Rightarrow> nat list res" where
  "struct_pack_Q n =
     (if 0 \<le> n \<and> n < 2 ^ 64
      then Inr (map (\<lambda>k. nat (drop_bit (8 * k) n AND 0xff)) [7, 6, 5, 4, 3, 2, 1, 0])
      else Inl StructError)"

definition longlong_to_octstr :: "int \<Rightarrow> string res" where
  "longlong_to_octstr ll = rbind (struct_pack_Q ll) (\<lambda>bs. Inr (array_to_octstr bs))"

text \<open>A machine's MAC address is an integer when a shim registers it and a string when the host
  tracker does; both are dictionary keys of the controller.\<close>

datatype mac = MacInt int | MacStr string

text \<open>The bytes \<^verbatim>\<open>mac_to_str\<close> works on.\<close>

definition mac_array :: "mac \<Rightarrow> nat list res" where
  "mac_array a =
     (case a of
        MacInt n \<Rightarrow> rbind (struct_pack_Q n) (\<lambda>bs. Inr (drop 2 bs))
      | MacStr s \<Rightarrow> Inr (map byte_of s))"

definition oui_of :: "nat list \<Rightarrow> int res" where
  "oui_of a =
     rbind (list_getitem a 0) (\<lambda>a0. rbind (list_getitem a 1) (\<lambda>a1. rbind (list_getitem a 2) (\<lambda>a2.
       Inr (push_bit 16 (int a0) OR push_bit 8 (int a1) OR int a2))))"

definition mac_to_str :: "(int, string) dict \<Rightarrow> mac \<Rightarrow> bool \<Rightarrow> string res" where
  "mac_to_str ethoui2name m resolve_name =
     rbind (mac_array m) (\<lambda>a.
     rbind (oui_of a) (\<lambda>oui.
     if resolve_name \<and> (int (a ! 0) AND 2) = 0 \<and> has_key ethoui2name oui
     then rbind (list_getitem a 3) (\<lambda>a3. rbind (list_getitem a 4) (\<lambda>a4. rbind (list_getitem a 5) (\<lambda>a5.
            Inr (''('' @ the (map_of ethoui2name oui) @ ''):'' @ fmt_02x a3 @ '':'' @ fmt_02x a4
                 @ '':'' @ fmt_02x a5))))
     else Inr (array_to_octstr a)))"

definition mac_to_oui :: "(int, string) dict \<Rightarrow> mac \<Rightarrow> string res" where
  "mac_to_oui ethoui2name m =
     rbind (mac_array m) (\<lambda>a. rbind (oui_of a) (\<lambda>oui.
     case map_of ethoui2name oui of Some name \<Rightarrow> Inr name | None \<Rightarrow> Inr []))"

definition mac_to_int :: "string \<Rightarrow> int res" where
  "mac_to_int mac =
     (if length mac = 6
      then Inr (foldl (\<lambda>value byte. push_bit 8 value OR int (byte_of byte)) 0 mac)
      else Inl StructError)"

definition ethtype_table :: "(int, string) dict" where
  "ethtype_table = [(0x0800, ''IP''), (0x0806, ''ARP''), (0x8035, ''RARP''), (0x8100, ''VLAN''),
     (0x88cc, ''LLDP'')]"

definition ipproto_table :: "(int, string) dict" where
  "ipproto_table = [(0, ''IP''), (1, ''ICMP''), (2, ''IGMP''), (4, ''IPIP''), (6, ''TCP''),
     (9, ''IGRP''), (17, ''UDP''), (47, ''GRE''), (89, ''OSPF'')]"

definition ethtype_to_str :: "nat \<Rightarrow> string" where
  "ethtype_to_str t =
     (if t < 0x0600 then ''llc''
      else case map_of ethtype_table (int t) of Some s \<Rightarrow> s | None \<Rightarrow> fmt_x t)"

definition ipproto_to_str :: "nat \<Rightarrow> string" where
  "ipproto_to_str t = (case map_of ipproto_table (int t) of Some s \<Rightarrow> s | None \<Rightarrow> fmt_x t)"

text \<open>\<^verbatim>\<open>dpid_to_str\<close> of \<^verbatim>\<open>overlay_network.py\<close>: the low six bytes with the separator, then the
  high two as a decimal suffix when they are not zero or a long form is asked for.\<close>

definition dpid_to_str :: "int \<Rightarrow> string \<Rightarrow> bool \<Rightarrow> string res" where
  "dpid_to_str dpid separator alwaysLong =
     rbind (struct_pack_Q dpid) (\<lambda>bs.
     let r = join_with separator (map fmt_02x (drop 2 bs)) in
     Inr (if alwaysLong \<or> take 2 bs \<noteq> [0, 0]
          then r @ ''|'' @ fmt_d (256 * bs ! 0 + bs ! 1)
          else r))"

text \<open>\<^verbatim>\<open>checksum\<close>: \<^verbatim>\<open>array('H', ..)\<close> reads two bytes as a little-endian word on the machines the
  controller runs on, and \<^verbatim>\<open>ntohs\<close> swaps the bytes of the result.\<close>

fun words16 :: "nat list \<Rightarrow> int list" where
  "words16 (a # b # xs) = (int a + 256 * int b) # words16 xs"
| "words16 _ = []"

definition ntohs :: "int \<Rightarrow> int" where
  "ntohs n = push_bit 8 (n AND 0xff) OR drop_bit 8 (n AND 0xff00)"

definition checksum_sum :: "nat list \<Rightarrow> int \<Rightarrow> nat \<Rightarrow> int" where
  "checksum_sum data start skip_word =
     (let arr = words16 (if odd (length data) then butlast data else data);
          s = (if skip_word \<noteq> 0
               then foldl (\<lambda>s i. if i = skip_word then s else s + arr ! i) start [0..<length arr]
               else foldl (\<lambda>s i. s + arr ! i) start [0..<length arr])
      in if odd (length data) then s + int (last data) else s)"

definition checksum_fold :: "int \<Rightarrow> int" where
  "checksum_fold start =
     (let s = drop_bit 16 start + (start AND 0xffff) in s + drop_bit 16 s)"

definition checksum :: "nat list \<Rightarrow> int \<Rightarrow> nat \<Rightarrow> int" where
  "checksum data start skip_word =
     ntohs (NOT (checksum_fold (checksum_sum data start skip_word)) AND 0xffff)"

section \<open>Numbers and their digits\<close>

abbreviation horner :: "nat \<Rightarrow> nat list \<Rightarrow> nat" where
  "horner b ds \<equiv> foldl (\<lambda>v d. v * b + d) 0 ds"

lemma horner_digits_of: "2 \<le> b \<Longrightarrow> horner b (digits_of b n) = n"
proof (induction b n rule: digits_of.induct)
  case (1 b n)
  show ?case
  proof (cases "n < b")
    case True
    then show ?thesis by (simp add: digits_of.simps)
  next
    case False
    with 1 have "horner b (digits_of b (n div b)) = n div b" by simp
    with False 1 show ?thesis by (subst digits_of.simps) simp
  qed
qed

lemma digits_of_bound: "2 \<le> b \<Longrightarrow> d \<in> set (digits_of b n) \<Longrightarrow> d < b"
proof (induction b n rule: digits_of.induct)
  case (1 b n)
  show ?case
  proof (cases "n < b")
    case True
    with 1 show ?thesis by (simp add: digits_of.simps)
  next
    case False
    with 1 have "digits_of b n = digits_of b (n div b) @ [n mod b]"
      by (subst digits_of.simps) simp
    with False 1 show ?thesis by auto
  qed
qed

lemma digits_of_nonempty [simp]: "digits_of b n \<noteq> []"
  by (subst digits_of.simps) simp

lemma all_digits_16:
  "(\<forall>d < 16. P d) \<longleftrightarrow> P 0 \<and> P 1 \<and> P 2 \<and> P 3 \<and> P 4 \<and> P 5 \<and> P 6 \<and> P 7 \<and> P 8 \<and> P 9 \<and> P 10 \<and>
     P 11 \<and> P 12 \<and> P 13 \<and> P 14 \<and> P (15::nat)"
  by (simp add: All_less_Suc numeral_eq_Suc) blast

text \<open>A digit character reads back, is no white space, no sign, no separator and no \<^verbatim>\<open>x\<close>.\<close>

lemma digit_char_props:
  assumes "d < 16"
  shows "digit_val (digit_char d) = Some d" "\<not> is_space (digit_char d)"
    "digit_char d \<noteq> CHR ''-''" "digit_char d \<noteq> CHR ''+''" "digit_char d \<noteq> CHR '':''"
    "digit_char d \<noteq> CHR ''.''" "digit_char d \<noteq> CHR ''x''" "digit_char d \<noteq> CHR ''X''"
proof -
  have "\<forall>d < 16. digit_val (digit_char d) = Some d \<and> \<not> is_space (digit_char d) \<and>
      digit_char d \<noteq> CHR ''-'' \<and> digit_char d \<noteq> CHR ''+'' \<and> digit_char d \<noteq> CHR '':'' \<and>
      digit_char d \<noteq> CHR ''.'' \<and> digit_char d \<noteq> CHR ''x'' \<and> digit_char d \<noteq> CHR ''X''"
    unfolding all_digits_16 by code_simp
  with assms show "digit_val (digit_char d) = Some d" "\<not> is_space (digit_char d)"
    "digit_char d \<noteq> CHR ''-''" "digit_char d \<noteq> CHR ''+''" "digit_char d \<noteq> CHR '':''"
    "digit_char d \<noteq> CHR ''.''" "digit_char d \<noteq> CHR ''x''" "digit_char d \<noteq> CHR ''X''"
    by blast+
qed

lemma foldl_digit_chars:
  "\<forall>d \<in> set ds. d < 16 \<Longrightarrow>
   foldl (\<lambda>v c. v * b + the (digit_val c)) v (map digit_char ds) = foldl (\<lambda>v d. v * b + d) v ds"
  by (induction ds arbitrary: v) (auto simp: digit_char_props)

lemma parse_digit_chars:
  assumes "ds \<noteq> []" and "\<forall>d \<in> set ds. d < b" and "b \<le> 16"
  shows "parse_digits b (map digit_char ds) = Inr (horner b ds)"
proof -
  have small: "\<forall>d \<in> set ds. d < 16" using assms by auto
  with assms have "\<forall>c \<in> set (map digit_char ds). \<exists>d \<in> set_option (digit_val c). d < b"
    by (auto simp: digit_char_props)
  with assms(1) small show ?thesis
    by (simp add: parse_digits_def foldl_digit_chars)
qed

lemma strip_digit_chars:
  assumes "\<forall>d \<in> set ds. d < 16"
  shows "strip (map digit_char ds) = map digit_char ds"
proof -
  have ns: "\<forall>c \<in> set (map digit_char ds). \<not> is_space c"
    using assms by (auto simp: digit_char_props)
  have "dropWhile is_space xs = xs" if "\<forall>c \<in> set xs. \<not> is_space c" for xs
    using that by (cases xs) auto
  from this [OF ns] this [of "rev (map digit_char ds)"] ns show ?thesis
    by (simp only: strip_def set_rev rev_rev_ident)
qed

lemma py_int_digit_chars:
  assumes "ds \<noteq> []" and "\<forall>d \<in> set ds. d < b" and "b \<le> 16"
  shows "py_int b (map digit_char ds) = Inr (int (horner b ds))"
proof -
  obtain e es where ds: "ds = e # es" using assms(1) by (cases ds) auto
  have small: "\<forall>d \<in> set ds. d < 16" using assms by auto
  then have notx: "es = [] \<or> (\<exists>f fs. es = f # fs \<and> digit_char f \<notin> {CHR ''x'', CHR ''X''})"
    unfolding ds by (cases es) (auto simp: digit_char_props)
  have "parse_unsigned b (map digit_char ds) = parse_digits b (map digit_char ds)"
    using notx by (auto simp: parse_unsigned_def ds split: list.splits char.splits bool.splits)
  moreover have "digit_char e \<notin> {CHR ''-'', CHR ''+''}"
    using small ds digit_char_props [of e] by simp
  ultimately show ?thesis
    using parse_digit_chars [OF assms] strip_digit_chars [OF small]
    by (auto simp: py_int_def ds split: list.splits char.splits bool.splits)
qed

lemma py_int_fmt_d [simp]: "py_int 10 (fmt_d n) = Inr (int n)"
  unfolding fmt_d_def
  by (subst py_int_digit_chars) (auto simp: digits_of_bound horner_digits_of)

lemma fmt_02x_digits: "fmt_02x n = map digit_char (if n < 16 then 0 # digits_of 16 n else digits_of 16 n)"
  by (simp add: fmt_02x_def fmt_x_def)

lemma py_int_fmt_02x [simp]: "py_int 16 (fmt_02x n) = Inr (int n)"
  unfolding fmt_02x_digits
  by (subst py_int_digit_chars) (auto simp: digits_of_bound horner_digits_of)

lemma fmt_d_no_dot: "CHR ''.'' \<notin> set (fmt_d n)"
proof
  assume "CHR ''.'' \<in> set (fmt_d n)"
  then have "CHR ''.'' \<in> digit_char ` set (digits_of 10 n)" by (simp only: fmt_d_def set_map)
  then obtain d where eq: "CHR ''.'' = digit_char d" and d: "d \<in> set (digits_of 10 n)" by (rule imageE)
  from d digits_of_bound [of 10 d n] have "d < 16" by simp
  from digit_char_props(6) [OF this] eq show False by (rule notE [OF _ sym])
qed

lemma fmt_02x_no_colon: "CHR '':'' \<notin> set (fmt_02x n)"
proof
  let ?ds = "if n < 16 then 0 # digits_of 16 n else digits_of 16 n"
  assume "CHR '':'' \<in> set (fmt_02x n)"
  then have "CHR '':'' \<in> digit_char ` set ?ds" by (simp only: fmt_02x_digits set_map)
  then obtain d where eq: "CHR '':'' = digit_char d" and d: "d \<in> set ?ds" by (rule imageE)
  from d digits_of_bound [of 16 d n] have "d < 16" by (auto split: if_splits)
  from digit_char_props(5) [OF this] eq show False by (rule notE [OF _ sym])
qed

lemma fmt_02x_nonempty [simp]: "fmt_02x n \<noteq> []"
  by (simp add: fmt_02x_digits)

section \<open>Splitting and joining\<close>

lemma split_on_nonempty [simp]: "split_on c s \<noteq> []"
  by (induction s) (auto split: list.splits)

lemma split_on_no_sep: "c \<notin> set s \<Longrightarrow> split_on c s = [s]"
  by (induction s) auto

lemma split_on_append: "c \<notin> set s \<Longrightarrow> split_on c (s @ c # t) = s # split_on c t"
  by (induction s) auto

lemma split_on_join:
  "ss \<noteq> [] \<Longrightarrow> \<forall>s \<in> set ss. c \<notin> set s \<Longrightarrow> split_on c (join_with [c] ss) = ss"
  by (induction "[c]" ss rule: join_with.induct) (auto simp: split_on_no_sep split_on_append)

lemma join_with_cons_append:
  "join_with sep ((s @ sep @ t) # ss) = s @ sep @ join_with sep (t # ss)"
  by (cases ss) auto

lemma octstr_accumulate:
  "acc \<noteq> [] \<Longrightarrow>
   foldl (\<lambda>bstr byte. if bstr \<noteq> [] then bstr @ '':'' @ fmt_02x byte else bstr @ fmt_02x byte) acc bs
     = join_with '':'' (acc # map fmt_02x bs)"
  by (induction bs arbitrary: acc) (simp_all add: join_with_cons_append [where sep = "'':''", simplified])

lemma array_to_octstr_join: "array_to_octstr bs = join_with '':'' (map fmt_02x bs)"
proof (cases bs)
  case Nil
  then show ?thesis by (simp add: array_to_octstr_def)
next
  case (Cons b cs)
  then have "array_to_octstr bs =
      foldl (\<lambda>bstr byte. if bstr \<noteq> [] then bstr @ '':'' @ fmt_02x byte else bstr @ fmt_02x byte)
        (fmt_02x b) cs"
    by (simp add: array_to_octstr_def)
  with Cons show ?thesis by (simp only: octstr_accumulate fmt_02x_nonempty not_False_eq_True list.map)
qed

section \<open>Round trips\<close>

lemma split_octstr: "bs \<noteq> [] \<Longrightarrow> split_on CHR '':'' (array_to_octstr bs) = map fmt_02x bs"
  unfolding array_to_octstr_join
  by (rule split_on_join) (auto simp: fmt_02x_no_colon)

lemma octstr_roundtrip:
  assumes "bs \<noteq> []" and "\<forall>b \<in> set bs. b < 256"
  shows "octstr_to_array (array_to_octstr bs) = Inr bs"
  using assms(2) unfolding octstr_to_array_def split_octstr [OF assms(1)]
  by (induction bs) auto

lemma int_and_ff: "(a :: int) AND 0xff = a mod 256"
  using take_bit_eq_mask [of 8 a] by (simp add: take_bit_eq_mod mask_eq_exp_minus_1)

lemma int_and_ffff: "(a :: int) AND 0xffff = a mod 65536"
  using take_bit_eq_mask [of 16 a] by (simp add: take_bit_eq_mod mask_eq_exp_minus_1)

lemma push_or_byte:
  assumes "0 \<le> b" and "b < 2 ^ k"
  shows "push_bit k v OR b = v * 2 ^ k + (b::int)"
proof -
  have "push_bit k v AND take_bit k b = 0"
    by (rule bit_eqI) (auto simp: bit_and_iff bit_push_bit_iff bit_take_bit_iff)
  moreover have "take_bit k b = b" using assms by (simp add: take_bit_int_eq_self)
  ultimately show ?thesis
    using plus_and_or [of "push_bit k v" b] by (simp add: push_bit_eq_mult)
qed

text \<open>The bytes of an integer, most significant first, as Horner's scheme recombines them.\<close>

lemma ip_octet_eq: "int (ip_octet a k) = (a div 2 ^ k) mod 256"
  by (simp add: ip_octet_def int_and_ff drop_bit_eq_div)

lemma split_ip_to_str:
  "split_on CHR ''.'' (ip_to_str a) =
     [fmt_d (ip_octet a 24), fmt_d (ip_octet a 16), fmt_d (ip_octet a 8), fmt_d (ip_octet a 0)]"
  unfolding ip_to_str_def by (rule split_on_join) (auto simp: fmt_d_no_dot)

lemma ip_octet_bound: "int (ip_octet a k) < 256"
  by (simp add: ip_octet_eq)

lemma or_octets:
  fixes a b c d :: int
  assumes "0 \<le> a" "0 \<le> b" "b < 256" "0 \<le> c" "c < 256" "0 \<le> d" "d < 256"
  shows "push_bit 24 a OR push_bit 16 b OR push_bit 8 c OR d
           = a * 16777216 + b * 65536 + c * 256 + d"
proof -
  have 1: "push_bit 8 c OR d = c * 256 + d"
    using assms by (simp add: push_or_byte [where k = 8, simplified])
  have 2: "push_bit 16 b OR (c * 256 + d) = b * 65536 + (c * 256 + d)"
    using assms by (simp add: push_or_byte [where k = 16, simplified])
  have 3: "push_bit 24 a OR (b * 65536 + (c * 256 + d)) = a * 16777216 + (b * 65536 + (c * 256 + d))"
    using assms by (simp add: push_or_byte [where k = 24, simplified])
  show ?thesis by (simp add: or.assoc 1 2 3)
qed

text \<open>\<^verbatim>\<open>mac_to_int\<close> is Horner's scheme on the six bytes.\<close>

definition int_of_bytes :: "nat list \<Rightarrow> int" where
  "int_of_bytes bs = foldl (\<lambda>v b. v * 256 + int b) 0 bs"

lemma int_of_bytes_snoc: "int_of_bytes (bs @ [b]) = int_of_bytes bs * 256 + int b"
  by (simp add: int_of_bytes_def)

lemma int_of_bytes_Cons: "int_of_bytes (b # bs) = int b * 256 ^ length bs + int_of_bytes bs"
proof (induction bs rule: rev_induct)
  case Nil
  then show ?case by (simp add: int_of_bytes_def)
next
  case (snoc c bs)
  have "int_of_bytes (b # bs @ [c]) = int_of_bytes (b # bs) * 256 + int c"
    using int_of_bytes_snoc [of "b # bs" c] by simp
  with snoc show ?case by (simp add: int_of_bytes_snoc distrib_right)
qed

text \<open>The bytes of an integer, most significant first, recombine to its low part.\<close>

lemma bytes_horner:
  "int_of_bytes (map (\<lambda>i. nat (n div 256 ^ i mod 256)) (rev [0..<k])) = n mod 256 ^ k" for n :: int
proof (induction k)
  case 0
  then show ?case by (simp add: int_of_bytes_def)
next
  case (Suc k)
  have "n mod 256 ^ Suc k = 256 ^ k * (n div 256 ^ k mod 256) + n mod 256 ^ k"
    using zmod_zmult2_eq [of 256 n "256 ^ k"] by (simp add: mult.commute)
  with Suc show ?case
    by (simp add: int_of_bytes_Cons mult.commute)
qed

lemma rev_upt_8: "rev [0..<4] = [3, 2, 1, 0]" "rev [0..<6] = [5, 4, 3, 2, 1, 0]"
  by (simp_all add: upt_rec)

lemma ip_roundtrip_mod: "ipstr_to_int (ip_to_str a) = Inr (a mod 2 ^ 32)"
proof -
  have "ipstr_to_int (ip_to_str a) =
     Inr (push_bit 24 (int (ip_octet a 24)) OR push_bit 16 (int (ip_octet a 16)) OR
          push_bit 8 (int (ip_octet a 8)) OR int (ip_octet a 0))"
    by (simp add: ipstr_to_int_def split_ip_to_str list_getitem_def Let_def)
  also have "\<dots> = Inr (int (ip_octet a 24) * 16777216 + int (ip_octet a 16) * 65536
       + int (ip_octet a 8) * 256 + int (ip_octet a 0))"
    using ip_octet_bound [of a] by (subst or_octets) auto
  also have "\<dots> = Inr (int_of_bytes [ip_octet a 24, ip_octet a 16, ip_octet a 8, ip_octet a 0])"
    by (simp add: int_of_bytes_def)
  also have "[ip_octet a 24, ip_octet a 16, ip_octet a 8, ip_octet a 0] =
      map (\<lambda>i. nat (a div 256 ^ i mod 256)) (rev [0..<4])"
    by (simp add: rev_upt_8 ip_octet_def int_and_ff drop_bit_eq_div)
  finally show ?thesis by (simp add: bytes_horner)
qed

lemma struct_pack_Q_eq:
  "0 \<le> n \<Longrightarrow> n < 2 ^ 64 \<Longrightarrow>
   struct_pack_Q n = Inr (map (\<lambda>k. nat (n div 256 ^ k mod 256)) [7, 6, 5, 4, 3, 2, 1, 0])"
  by (simp add: struct_pack_Q_def int_and_ff drop_bit_eq_div)

lemma struct_pack_Q_bytes: "struct_pack_Q n = Inr bs \<Longrightarrow> length bs = 8 \<and> (\<forall>b \<in> set bs. b < 256)"
  by (auto simp: struct_pack_Q_def int_and_ff split: if_splits)

lemma foldl_bytes_eq:
  "foldl (\<lambda>value byte. push_bit 8 value OR int (byte_of byte)) v cs
     = foldl (\<lambda>v b. v * 256 + int b) v (map byte_of cs)"
proof (induction cs arbitrary: v)
  case Nil
  then show ?case by simp
next
  case (Cons c cs)
  have "byte_of c < 256" by simp
  then have "push_bit 8 v OR int (byte_of c) = v * 256 + int (byte_of c)"
    using push_or_byte [of "int (byte_of c)" 8 v] by simp
  with Cons show ?case by simp
qed

lemma mac_to_int_eq: "length mac = 6 \<Longrightarrow> mac_to_int mac = Inr (int_of_bytes (map byte_of mac))"
  by (simp add: mac_to_int_def int_of_bytes_def foldl_bytes_eq)

lemma int_of_bytes_bound:
  "\<forall>b \<in> set bs. b < 256 \<Longrightarrow> 0 \<le> int_of_bytes bs \<and> int_of_bytes bs < 256 ^ length bs"
proof (induction bs rule: rev_induct)
  case Nil
  then show ?case by (simp add: int_of_bytes_def)
next
  case (snoc b bs)
  then have "0 \<le> int_of_bytes bs" "int_of_bytes bs + 1 \<le> 256 ^ length bs" "int b \<le> 255"
    by auto
  then have "0 \<le> int_of_bytes bs" "(int_of_bytes bs + 1) * 256 \<le> 256 ^ length bs * 256" "int b \<le> 255"
    by auto
  then show ?case by (simp add: int_of_bytes_snoc)
qed

lemma digit_unique:
  fixes a b c d :: int
  assumes "a * 256 + b = c * 256 + d" and "0 \<le> b" "b < 256" "0 \<le> d" "d < 256"
  shows "a = c \<and> b = d"
proof -
  have "b = (a * 256 + b) mod 256" using assms(2,3) by simp
  also have "\<dots> = (c * 256 + d) mod 256" by (simp only: assms(1))
  also have "\<dots> = d" using assms(4,5) by simp
  finally show ?thesis using assms(1) by simp
qed

lemma int_of_bytes_inj:
  "length bs = length cs \<Longrightarrow> \<forall>b \<in> set bs. b < 256 \<Longrightarrow> \<forall>c \<in> set cs. c < 256 \<Longrightarrow>
   int_of_bytes bs = int_of_bytes cs \<Longrightarrow> bs = cs"
proof (induction bs arbitrary: cs rule: rev_induct)
  case Nil
  then show ?case by simp
next
  case (snoc b bs)
  then obtain c cs' where cs: "cs = cs' @ [c]" by (cases cs rule: rev_cases) auto
  with snoc.prems have "int_of_bytes bs = int_of_bytes cs' \<and> int b = int c"
    by (intro digit_unique) (auto simp: int_of_bytes_snoc)
  with snoc.IH [of cs'] snoc.prems cs show ?case by simp
qed

lemma mac_array_int:
  assumes "0 \<le> n" and "n < 2 ^ 64"
  shows "mac_array (MacInt n) = Inr (map (\<lambda>i. nat (n div 256 ^ i mod 256)) (rev [0..<6]))"
  using assms by (simp add: mac_array_def struct_pack_Q_eq rev_upt_8)

lemma oui_of_ok: "3 \<le> length a \<Longrightarrow> \<exists>oui. oui_of a = Inr oui"
  by (cases a) (auto simp: oui_of_def list_getitem_def)

text \<open>
  A MAC address that fits 48 bits is printed by \<^verbatim>\<open>mac_to_str\<close> without an error, as text whose
  octets \<^verbatim>\<open>octstr_to_array\<close> reads back, and \<^verbatim>\<open>mac_to_int\<close> of those six raw bytes is the address:
  the integer form, the text form and the raw form name the same machine.
\<close>

lemma mac_roundtrip:
  assumes "0 \<le> n" and "n < 2 ^ 48"
  shows "\<exists>s bs. mac_to_str tbl (MacInt n) False = Inr s \<and> octstr_to_array s = Inr bs \<and>
           length bs = 6 \<and> mac_to_int (map char_of_byte bs) = Inr n"
proof -
  let ?bs = "map (\<lambda>i. nat (n div 256 ^ i mod 256)) (rev [0..<6])"
  have small: "\<forall>b \<in> set ?bs. b < 256" by auto
  have arr: "mac_array (MacInt n) = Inr ?bs" using assms by (intro mac_array_int) auto
  obtain oui where "oui_of ?bs = Inr oui" using oui_of_ok [of ?bs] by auto
  with arr have str: "mac_to_str tbl (MacInt n) False = Inr (array_to_octstr ?bs)"
    by (simp add: mac_to_str_def)
  have reread: "octstr_to_array (array_to_octstr ?bs) = Inr ?bs"
    using small by (intro octstr_roundtrip) auto
  have "map byte_of (map char_of_byte ?bs) = ?bs" using small by (auto intro!: map_idI)
  then have "mac_to_int (map char_of_byte ?bs) = Inr (int_of_bytes ?bs)"
    by (simp only: mac_to_int_eq length_map length_rev length_upt diff_zero)
  also have "int_of_bytes ?bs = n" using assms by (simp add: bytes_horner)
  finally have "mac_to_int (map char_of_byte ?bs) = Inr n" .
  with str reread show ?thesis by (intro exI [of _ "array_to_octstr ?bs"] exI [of _ ?bs]) simp
qed

lemma mac_roundtrip_example:
  "\<exists>s bs. mac_to_str [] (MacInt 0x00163e5aff01) False = Inr s \<and> octstr_to_array s = Inr bs \<and>
     length bs = 6 \<and> mac_to_int (map char_of_byte bs) = Inr 0x00163e5aff01"
  by (rule mac_roundtrip) simp_all

text \<open>
  \<^verbatim>\<open>mac_to_int\<close> identifies raw MAC addresses: it accepts exactly the six-byte strings, its value
  fits 48 bits, and two addresses with the same number are equal, so flow tuples keyed by the
  number never confuse two hosts.
\<close>

lemma mac_to_int_injective:
  "(\<exists>v. mac_to_int m = Inr v \<and> 0 \<le> v \<and> v < 2 ^ 48) = (length m = 6) \<and>
   (mac_to_int m = Inr v \<and> mac_to_int m' = Inr v \<longrightarrow> m = m')"
proof (intro conjI impI)
  have bytes: "\<forall>b \<in> set (map byte_of x). b < 256" for x :: string
    by auto
  show "(\<exists>v. mac_to_int m = Inr v \<and> 0 \<le> v \<and> v < 2 ^ 48) = (length m = 6)"
    using int_of_bytes_bound [OF bytes, of m]
    by (auto simp: mac_to_int_eq) (auto simp: mac_to_int_def split: if_splits)
  assume a: "mac_to_int m = Inr v \<and> mac_to_int m' = Inr v"
  then have len: "length m = 6" "length m' = 6" by (auto simp: mac_to_int_def split: if_splits)
  with a have "int_of_bytes (map byte_of m) = int_of_bytes (map byte_of m')"
    by (simp add: mac_to_int_eq)
  with len bytes have "map byte_of m = map byte_of m'"
    by (intro int_of_bytes_inj) auto
  then show "m = m'" by (rule map_injective) (simp add: inj_of_char)
qed

lemma mac_to_int_injective_example:
  "mac_to_int ''abcdef'' = Inr 107075202213222 \<and> ''abcdef'' = (''abcdef'' :: string)"
  using mac_to_int_injective [of "''abcdef''" 107075202213222 "''abcdef''"]
  by (simp add: mac_to_int_def)

section \<open>The checksum\<close>

lemma checksum_fold_low:
  assumes "0 \<le> s" and "s < 2 ^ 32"
  shows "(65535 - checksum_fold s mod 65536 + s) mod 65535 = 0"
proof -
  define h l where "h = s div 65536" and "l = s mod 65536"
  have hl: "0 \<le> h" "h < 65536" "0 \<le> l" "l < 65536" and s: "s = 65536 * h + l"
    using assms by (auto simp: h_def l_def)
  have f: "checksum_fold s = h + l + (h + l) div 65536"
    by (simp add: checksum_fold_def Let_def int_and_ffff drop_bit_eq_div h_def l_def)
  show ?thesis
  proof (cases "h + l < 65536")
    case True
    then have "checksum_fold s mod 65536 = h + l" using hl f by simp
    then have "65535 - checksum_fold s mod 65536 + s = 65535 * (h + 1)" using s by simp
    then show ?thesis by (simp only: mod_mult_self1_is_0)
  next
    case False
    then have "(h + l) div 65536 = 1" using hl by simp
    then have "checksum_fold s = (h + l - 65535) + 65536 * 1" using f by simp
    then have "checksum_fold s mod 65536 = (h + l - 65535) mod 65536" by (simp only: mod_mult_self2)
    then have "checksum_fold s mod 65536 = h + l - 65535" using hl False by simp
    then have "65535 - checksum_fold s mod 65536 + s = 65535 * (h + 2)" using s by simp
    then show ?thesis by (simp only: mod_mult_self1_is_0)
  qed
qed

lemma not_and_ffff: "NOT x AND 0xffff = 65535 - x mod 65536" for x :: int
proof -
  have bounds: "0 \<le> x mod 65536" "x mod 65536 < 65536" by simp_all
  have "NOT x = (65535 - x mod 65536) + 65536 * (- (x div 65536) - 1)"
    using mult_div_mod_eq [of 65536 x] by (simp add: not_int_def algebra_simps)
  then have "NOT x AND 0xffff = (65535 - x mod 65536) mod 65536"
    by (simp only: int_and_ffff mod_mult_self2)
  with bounds show ?thesis by (simp only: mod_pos_pos_trivial)
qed

lemma ntohs_eq: "0 \<le> n \<Longrightarrow> n < 65536 \<Longrightarrow> ntohs n = (n mod 256) * 256 + n div 256"
proof -
  assume n: "0 \<le> n" "n < 65536"
  have hi: "drop_bit 8 (n AND 0xff00) = drop_bit 8 n AND 0xff"
    by (simp add: drop_bit_and)
  have "drop_bit 8 n AND 0xff = n div 256"
    using n by (simp add: int_and_ff drop_bit_eq_div)
  then show ?thesis
    using n push_or_byte [of "n div 256" 8 "n mod 256"]
    by (simp add: ntohs_def hi int_and_ff)
qed

lemma ntohs_involution: "0 \<le> n \<Longrightarrow> n < 65536 \<Longrightarrow> ntohs (ntohs n) = n"
proof -
  assume n: "0 \<le> n" "n < 65536"
  define h l where "h = n div 256" and "l = n mod 256"
  have hl: "0 \<le> h" "h < 256" "0 \<le> l" "l < 256" and nn: "n = 256 * h + l"
    using n by (auto simp: h_def l_def)
  have "ntohs n = l * 256 + h" using n by (simp add: ntohs_eq h_def l_def)
  moreover have "ntohs (l * 256 + h) = h * 256 + l" using hl by (subst ntohs_eq) auto
  ultimately show ?thesis using nn by simp
qed

text \<open>
  C31. One's complement: whenever the sum of the 16-bit words of the data (with the start value, and
  without the skipped word) fits 32 bits, the value \<^verbatim>\<open>checksum\<close> returns, read back in the machine's
  byte order, makes that sum zero modulo \<open>2\<^sup>1\<^sup>6 - 1\<close>, and it is a 16-bit number.
\<close>

theorem checksum_complement:
  assumes "0 \<le> checksum_sum data start skip" and "checksum_sum data start skip < 2 ^ 32"
  shows "(ntohs (checksum data start skip) + checksum_sum data start skip) mod 65535 = 0 \<and>
         0 \<le> ntohs (checksum data start skip) \<and> ntohs (checksum data start skip) \<le> 65535"
proof -
  define f where "f = checksum_fold (checksum_sum data start skip)"
  have b: "0 \<le> f mod 65536" "f mod 65536 < 65536" by simp_all
  then have "ntohs (checksum data start skip) = 65535 - f mod 65536"
    unfolding checksum_def f_def [symmetric] not_and_ffff
    by (intro ntohs_involution) simp_all
  with b checksum_fold_low [OF assms] show ?thesis by (simp add: f_def)
qed

theorem checksum_complement_witness:
  "(ntohs (checksum [0x45, 0x00, 0x00, 0x1c, 0x13] 0 0) + 0x1c58) mod 65535 = 0"
  using checksum_complement [of "[0x45, 0x00, 0x00, 0x1c, 0x13]" 0 0]
  by (simp add: checksum_sum_def upt_rec)

end
