(* ===== verification/Flow_Space.thy ===== *)
theory Flow_Space
  imports Packet_Utils
begin

text \<open>
  Flow spaces: the values a header field takes, Python's \<^verbatim>\<open>==\<close> on them, the application's flow
  dictionaries, the \<^verbatim>\<open>FlowTuple\<close> named tuples of \<^verbatim>\<open>networkmaps.py\<close> and the controller's
  \<^verbatim>\<open>ofp_match\<close> objects, with the wildcard match \<^verbatim>\<open>_flowtuple_equals\<close>.  The lemmas reduce the
  match, which may raise, to the wildcard relation wherever the fields have comparable types.
\<close>

section \<open>Field values and Python equality\<close>

text \<open>A field holds \<^verbatim>\<open>None\<close>, a number, a byte string, or one of POX's address objects: an
  \<^verbatim>\<open>EthAddr\<close> (its six raw bytes) or an \<^verbatim>\<open>IPAddr\<close>.\<close>

datatype fval = FNone | FInt int | FStr string | FEth string | FIP "32 word"

text \<open>Truth of a value in a condition; the address objects have a positive length.\<close>

definition truthy :: "fval \<Rightarrow> bool" where
  "truthy v = (case v of FNone \<Rightarrow> False | FInt n \<Rightarrow> n \<noteq> 0 | FStr s \<Rightarrow> s \<noteq> [] | FEth _ \<Rightarrow> True | FIP _ \<Rightarrow> True)"

text \<open>\<^verbatim>\<open>IPAddr(s)\<close> of a string: four raw bytes, or a dotted quad.  Of the spellings
  \<^verbatim>\<open>inet_aton\<close> knows, the model has the canonical one.\<close>

definition inet_aton :: "string \<Rightarrow> (32 word) res" where
  "inet_aton s =
     (case ipstr_to_int s of
        Inl e \<Rightarrow> Inl GenericException
      | Inr n \<Rightarrow> if ip_to_str n = s then Inr (word_of_int n) else Inl GenericException)"

definition ip_of_str :: "string \<Rightarrow> (32 word) res" where
  "ip_of_str s =
     (if length s = 4 then Inr (word_of_int (int_of_bytes (map byte_of s))) else inet_aton s)"

text \<open>
  \<^verbatim>\<open>a == b\<close>.  An \<^verbatim>\<open>EthAddr\<close> compares its raw bytes, treats \<^verbatim>\<open>None\<close> as the zero address, and cannot
  be compared with a number (\<^verbatim>\<open>EthAddr.__cmp__\<close> falls back on \<^verbatim>\<open>-other.__cmp__(self)\<close>, which
  raises); an \<^verbatim>\<open>IPAddr\<close> reads a number or a string as an address first.
\<close>

definition eth_eq :: "string \<Rightarrow> fval \<Rightarrow> bool res" where
  "eth_eq e v =
     (case v of
        FNone \<Rightarrow> Inr (e = replicate 6 (char_of_byte 0))
      | FInt _ \<Rightarrow> Inl TypeError
      | FStr s \<Rightarrow> Inr (e = s)
      | FEth e' \<Rightarrow> Inr (e = e')
      | FIP _ \<Rightarrow> Inl RuntimeError)"

definition ip_eq :: "32 word \<Rightarrow> fval \<Rightarrow> bool res" where
  "ip_eq w v =
     (case v of
        FNone \<Rightarrow> Inr False
      | FInt n \<Rightarrow> Inr (w = word_of_int n)
      | FStr s \<Rightarrow> (case ip_of_str s of Inl e \<Rightarrow> Inl AttributeError | Inr w' \<Rightarrow> Inr (w = w'))
      | FEth _ \<Rightarrow> Inl RuntimeError
      | FIP w' \<Rightarrow> Inr (w = w'))"

definition py_eq :: "fval \<Rightarrow> fval \<Rightarrow> bool res" where
  "py_eq a b =
     (case (a, b) of
        (FEth e, v) \<Rightarrow> eth_eq e v
      | (v, FEth e) \<Rightarrow> eth_eq e v
      | (FIP w, v) \<Rightarrow> ip_eq w v
      | (v, FIP w) \<Rightarrow> ip_eq w v
      | (v, v') \<Rightarrow> Inr (v = v'))"

section \<open>Flow dictionaries, flow tuples, matches\<close>

type_synonym flow_dict = "(string, fval) dict"

record flow_tuple =
  in_port :: fval
  dl_src :: fval
  dl_dst :: fval
  dl_vlan :: fval
  dl_vlan_pcp :: fval
  dl_type :: fval
  nw_src :: fval
  nw_dst :: fval
  nw_proto :: fval
  tp_src :: fval
  tp_dst :: fval

text \<open>\<^verbatim>\<open>ofp_match\<close> as the controller reads and writes it: \<^verbatim>\<open>None\<close> is a wildcarded field.\<close>

record ofp_match = flow_tuple +
  nw_tos :: fval

text \<open>\<^verbatim>\<open>Application.make_wildcard_flow\<close> and \<^verbatim>\<open>check_elems_installed\<close>.\<close>

definition make_wildcard_flow :: flow_dict where
  "make_wildcard_flow =
     [(''dl_src'', FNone), (''dl_dst'', FNone), (''dl_vlan'', FNone), (''dl_vlan_pcp'', FNone),
      (''dl_type'', FNone), (''nw_src'', FNone), (''nw_dst'', FNone), (''nw_proto'', FNone),
      (''tp_src'', FNone), (''tp_dst'', FNone)]"

definition check_elems_installed :: "int list \<Rightarrow> bool" where
  "check_elems_installed eds = foldl (\<lambda>installed ed. if ed < 0 then False else installed) True eds"

text \<open>The MAC of a flow dictionary: raw bytes in a string become a number, \<^verbatim>\<open>None\<close> stays.\<close>

definition mac_field_to_int :: "fval \<Rightarrow> fval res" where
  "mac_field_to_int v =
     (case v of FStr s \<Rightarrow> rbind (mac_to_int s) (\<lambda>n. Inr (FInt n)) | _ \<Rightarrow> Inl TypeError)"

definition opt_mac_field :: "fval \<Rightarrow> fval res" where
  "opt_mac_field v = rbind (py_eq v FNone) (\<lambda>none. if none then Inr FNone else mac_field_to_int v)"

text \<open>The rest of a \<^verbatim>\<open>FlowTuple\<close> is copied from the dictionary.\<close>

definition tuple_of_dict :: "fval \<Rightarrow> fval \<Rightarrow> fval \<Rightarrow> flow_dict \<Rightarrow> flow_tuple res" where
  "tuple_of_dict inport src_mac dst_mac flow =
     rbind (dict_getitem flow ''dl_vlan'') (\<lambda>vlan.
     rbind (dict_getitem flow ''dl_vlan_pcp'') (\<lambda>pcp.
     rbind (dict_getitem flow ''dl_type'') (\<lambda>typ.
     rbind (dict_getitem flow ''nw_src'') (\<lambda>nsrc.
     rbind (dict_getitem flow ''nw_dst'') (\<lambda>ndst.
     rbind (dict_getitem flow ''nw_proto'') (\<lambda>proto.
     rbind (dict_getitem flow ''tp_src'') (\<lambda>tsrc.
     rbind (dict_getitem flow ''tp_dst'') (\<lambda>tdst.
     Inr \<lparr>in_port = inport, dl_src = src_mac, dl_dst = dst_mac, dl_vlan = vlan, dl_vlan_pcp = pcp,
          dl_type = typ, nw_src = nsrc, nw_dst = ndst, nw_proto = proto, tp_src = tsrc,
          tp_dst = tdst\<rparr>))))))))"

text \<open>The conversion the methods \<^verbatim>\<open>get_unique_flowspace_desc\<close>, \<^verbatim>\<open>add_element\<close>,
  \<^verbatim>\<open>add_element_instance\<close> of the controller and \<^verbatim>\<open>convert_flow\<close> of the shim begin with.\<close>

definition flow_to_tuple :: "fval \<Rightarrow> flow_dict \<Rightarrow> flow_tuple res" where
  "flow_to_tuple inport flow =
     rbind (rbind (dict_getitem flow ''dl_src'') opt_mac_field) (\<lambda>src_mac.
     rbind (rbind (dict_getitem flow ''dl_dst'') opt_mac_field) (\<lambda>dst_mac.
     tuple_of_dict inport src_mac dst_mac flow))"

text \<open>The conversion \<^verbatim>\<open>remove_flow\<close> uses: the MACs are converted without a test for \<^verbatim>\<open>None\<close>.\<close>

definition flow_to_tuple_strict :: "fval \<Rightarrow> flow_dict \<Rightarrow> flow_tuple res" where
  "flow_to_tuple_strict inport flow =
     rbind (rbind (dict_getitem flow ''dl_src'') mac_field_to_int) (\<lambda>src_mac.
     rbind (rbind (dict_getitem flow ''dl_dst'') mac_field_to_int) (\<lambda>dst_mac.
     tuple_of_dict inport src_mac dst_mac flow))"

text \<open>\<^verbatim>\<open>get_flow_tuple\<close>: from a match object, whose MACs are \<^verbatim>\<open>EthAddr\<close>s.\<close>

definition match_mac :: "fval \<Rightarrow> fval res" where
  "match_mac v =
     (if truthy v
      then (case v of FEth e \<Rightarrow> rbind (mac_to_int e) (\<lambda>n. Inr (FInt n))
            | FIP _ \<Rightarrow> Inl StructError
            | _ \<Rightarrow> Inl AttributeError)
      else Inr FNone)"

definition get_flow_tuple :: "fval \<Rightarrow> ('a) ofp_match_scheme \<Rightarrow> flow_tuple res" where
  "get_flow_tuple inport flow =
     rbind (match_mac (dl_src flow)) (\<lambda>src_mac.
     rbind (match_mac (dl_dst flow)) (\<lambda>dst_mac.
     Inr \<lparr>in_port = inport, dl_src = src_mac, dl_dst = dst_mac, dl_vlan = dl_vlan flow,
          dl_vlan_pcp = dl_vlan_pcp flow, dl_type = dl_type flow, nw_src = nw_src flow,
          nw_dst = nw_dst flow, nw_proto = nw_proto flow, tp_src = tp_src flow,
          tp_dst = tp_dst flow\<rparr>))"

definition get_reverse_flow :: "flow_tuple \<Rightarrow> flow_tuple" where
  "get_reverse_flow flow =
     \<lparr>in_port = FNone, dl_src = dl_dst flow, dl_dst = dl_src flow, dl_vlan = dl_vlan flow,
      dl_vlan_pcp = dl_vlan_pcp flow, dl_type = dl_type flow, nw_src = nw_dst flow,
      nw_dst = nw_src flow, nw_proto = nw_proto flow, tp_src = tp_dst flow, tp_dst = tp_src flow\<rparr>"

section \<open>The wildcard match\<close>

definition field_matches :: "fval \<Rightarrow> fval \<Rightarrow> bool res" where
  "field_matches f1 f2 = rbind (py_eq f1 FNone) (\<lambda>wild. if wild then Inr True else py_eq f1 f2)"

text \<open>\<^verbatim>\<open>x and y\<close>.\<close>

definition rand :: "bool res \<Rightarrow> bool res \<Rightarrow> bool res" where
  "rand x y = rbind x (\<lambda>b. if b then y else Inr False)"

definition flowtuple_equals :: "flow_tuple \<Rightarrow> flow_tuple \<Rightarrow> bool res" where
  "flowtuple_equals ft1 ft2 =
     rand (field_matches (in_port ft1) (in_port ft2))
     (rand (field_matches (dl_src ft1) (dl_src ft2))
     (rand (field_matches (dl_dst ft1) (dl_dst ft2))
     (rand (field_matches (dl_vlan ft1) (dl_vlan ft2))
     (rand (field_matches (dl_vlan_pcp ft1) (dl_vlan_pcp ft2))
     (rand (field_matches (dl_type ft1) (dl_type ft2))
     (rand (field_matches (nw_src ft1) (nw_src ft2))
     (rand (field_matches (nw_dst ft1) (nw_dst ft2))
     (rand (field_matches (nw_proto ft1) (nw_proto ft2))
     (rand (field_matches (tp_src ft1) (tp_src ft2))
           (field_matches (tp_dst ft1) (tp_dst ft2)))))))))))"

text \<open>The fields of a tuple, in order.\<close>

definition fields_of :: "flow_tuple \<Rightarrow> fval list" where
  "fields_of f = [in_port f, dl_src f, dl_dst f, dl_vlan f, dl_vlan_pcp f, dl_type f, nw_src f,
     nw_dst f, nw_proto f, tp_src f, tp_dst f]"

text \<open>Values whose comparison is equality of the values themselves.\<close>

fun plain :: "fval \<Rightarrow> bool" where
  "plain FNone = True"
| "plain (FInt _) = True"
| "plain (FStr _) = True"
| "plain (FEth _) = False"
| "plain (FIP _) = False"

text \<open>What a flow space means: every field is a wildcard or has the packet's value.\<close>

definition covers :: "flow_tuple \<Rightarrow> flow_tuple \<Rightarrow> bool" where
  "covers item ft \<longleftrightarrow> list_all2 (\<lambda>a b. a = FNone \<or> py_eq a b = Inr True) (fields_of item) (fields_of ft)"

text \<open>Two tuples whose fields can be compared: the first is plain, the second agrees in type.\<close>

definition comparable :: "fval \<Rightarrow> fval \<Rightarrow> bool" where
  "comparable a b \<longleftrightarrow> (\<exists>r. py_eq a b = Inr r)"

definition matchable :: "flow_tuple \<Rightarrow> flow_tuple \<Rightarrow> bool" where
  "matchable item ft \<longleftrightarrow>
     list_all2 (\<lambda>a b. plain a \<and> (a = FNone \<or> comparable a b)) (fields_of item) (fields_of ft)"

lemma py_eq_plain [simp]: "plain a \<Longrightarrow> plain b \<Longrightarrow> py_eq a b = Inr (a = b)"
  by (cases a; cases b) (auto simp: py_eq_def)

lemma comparable_plain [simp]: "plain a \<Longrightarrow> plain b \<Longrightarrow> comparable a b"
  by (simp add: comparable_def)

lemma field_matches_plain:
  "plain a \<Longrightarrow> a = FNone \<or> comparable a b \<Longrightarrow>
   field_matches a b = Inr (a = FNone \<or> py_eq a b = Inr True)"
  by (auto simp: field_matches_def comparable_def)

lemma rand_Inr [simp]: "rand (Inr a) (Inr b) = Inr (a \<and> b)"
  by (simp add: rand_def)

lemma flowtuple_equals_covers:
  "matchable item ft \<Longrightarrow> flowtuple_equals item ft = Inr (covers item ft)"
  unfolding matchable_def covers_def flowtuple_equals_def fields_of_def
  by (simp add: field_matches_plain)

text \<open>Tuples of flow dictionaries are plain, and tuples of packets have numbers for MACs.\<close>

lemma mac_field_to_int_plain: "mac_field_to_int v = Inr w \<Longrightarrow> \<exists>n. w = FInt n"
  by (auto simp: mac_field_to_int_def rbind_eq_Inr split: fval.splits)

lemma opt_mac_field_plain: "opt_mac_field v = Inr w \<Longrightarrow> w = FNone \<or> (\<exists>n. w = FInt n)"
  by (auto simp: opt_mac_field_def rbind_eq_Inr dest: mac_field_to_int_plain split: if_splits)

lemma match_mac_plain: "match_mac v = Inr w \<Longrightarrow> w = FNone \<or> (\<exists>n. w = FInt n)"
  by (auto simp: match_mac_def rbind_eq_Inr split: if_splits fval.splits)

text \<open>A flow dictionary with a value for every field, MACs being raw six-byte strings.\<close>

definition flow_keys :: "string list" where
  "flow_keys = [''dl_src'', ''dl_dst'', ''dl_vlan'', ''dl_vlan_pcp'', ''dl_type'', ''nw_src'',
     ''nw_dst'', ''nw_proto'', ''tp_src'', ''tp_dst'']"

definition valid_mac_value :: "fval \<Rightarrow> bool" where
  "valid_mac_value v \<longleftrightarrow> v = FNone \<or> (\<exists>s. v = FStr s \<and> length s = 6)"

definition valid_flow :: "flow_dict \<Rightarrow> bool" where
  "valid_flow flow \<longleftrightarrow> (\<forall>k \<in> set flow_keys. has_key flow k) \<and>
     (\<forall>k \<in> {''dl_src'', ''dl_dst''}. \<forall>v \<in> set_option (map_of flow k). valid_mac_value v)"

lemma opt_mac_field_valid: "valid_mac_value v \<Longrightarrow> \<exists>w. opt_mac_field v = Inr w"
  by (auto simp: valid_mac_value_def opt_mac_field_def mac_field_to_int_def mac_to_int_def)

lemma flow_to_tuple_valid:
  assumes "valid_flow flow"
  shows "\<exists>f. flow_to_tuple p flow = Inr f"
proof -
  have get: "dict_getitem flow k = Inr (the (map_of flow k))" if "k \<in> set flow_keys" for k
    using assms that by (auto simp: valid_flow_def)
  have mac: "valid_mac_value (the (map_of flow k))"
    if "k \<in> set flow_keys" "k \<in> {''dl_src'', ''dl_dst''}" for k
  proof -
    from that(1) assms have "the (map_of flow k) \<in> set_option (map_of flow k)"
      by (auto simp: valid_flow_def)
    with assms that(2) show ?thesis unfolding valid_flow_def by blast
  qed
  obtain s where "opt_mac_field (the (map_of flow ''dl_src'')) = Inr s"
    using opt_mac_field_valid [OF mac [of "''dl_src''"]] by (auto simp: flow_keys_def)
  moreover obtain d where "opt_mac_field (the (map_of flow ''dl_dst'')) = Inr d"
    using opt_mac_field_valid [OF mac [of "''dl_dst''"]] by (auto simp: flow_keys_def)
  ultimately show ?thesis
    by (simp add: flow_to_tuple_def tuple_of_dict_def get flow_keys_def)
qed

lemma flow_to_tuple_inport: "flow_to_tuple p flow = Inr f \<Longrightarrow> in_port f = p"
  by (auto simp: flow_to_tuple_def tuple_of_dict_def rbind_eq_Inr)

lemma tuple_update_inport:
  "flow_to_tuple p flow = Inr f \<Longrightarrow> flow_to_tuple q flow = Inr (f\<lparr>in_port := q\<rparr>)"
  by (auto simp: flow_to_tuple_def tuple_of_dict_def rbind_eq_Inr)

lemma valid_wildcard_flow: "valid_flow make_wildcard_flow"
  by (simp add: valid_flow_def flow_keys_def make_wildcard_flow_def valid_mac_value_def)

section \<open>Reversal\<close>

lemma covers_reverse:
  "covers (get_reverse_flow a) (get_reverse_flow b) \<longleftrightarrow> covers (a\<lparr>in_port := FNone\<rparr>) b"
  by (auto simp: covers_def fields_of_def get_reverse_flow_def)

lemma matchable_reverse:
  "matchable a b \<Longrightarrow> matchable (get_reverse_flow a) (get_reverse_flow b) \<and> matchable (a\<lparr>in_port := FNone\<rparr>) b"
  by (auto simp: matchable_def fields_of_def get_reverse_flow_def)



end
