(* ===== verification/Shim_Table.thy ===== *)
theory Shim_Table
  imports Flow_Space
begin

text \<open>
  What a shim knows of a packet (\<^verbatim>\<open>extract_flow\<close>, \<^verbatim>\<open>get_reverse_flow\<close> of \<^verbatim>\<open>shim/shim.py\<close>) and its
  table from flows to element descriptors (\<^verbatim>\<open>shim/shim_table.py\<close>).  A frame is the object the
  \<^verbatim>\<open>dpkt\<close> library parses it into; the parsing itself is an argument of the theories that use it.

  Shown: the table answers with the descriptors of the last entry, in the order of installation, that
  matches the packet; entries survive the installation of others; and of a flow space that
  names an IP address at most one direction is ever matched, because \<^verbatim>\<open>nw_src\<close> is compared as a
  number and \<^verbatim>\<open>nw_dst\<close> as text.
\<close>

lemma set_update_item: "x \<in> set (AList.update k v d) \<Longrightarrow> x = (k, v) \<or> x \<in> set d"
  by (induction d) (auto split: if_splits)

section \<open>Frames\<close>

datatype l4 = Ports int int string | NoPorts

record ip_packet =
  ip_src :: string
  ip_dst :: string
  ip_p :: int
  ip_tos :: int
  ip_data :: l4

datatype eth_data = EthIP ip_packet | EthRaw

record ethernet =
  eth_src :: string
  eth_dst :: string
  eth_type :: int
  eth_data :: eth_data

definition ETH_TYPE_IP :: int where "ETH_TYPE_IP = 0x800"

definition IP_PROTO_TCP :: int where "IP_PROTO_TCP = 6"

definition IP_PROTO_UDP :: int where "IP_PROTO_UDP = 17"

text \<open>\<^verbatim>\<open>socket.inet_ntoa\<close>.\<close>

definition inet_ntoa :: "string \<Rightarrow> string res" where
  "inet_ntoa s = (if length s = 4 then Inr (join_with ''.'' (map (\<lambda>c. fmt_d (byte_of c)) s)) else Inl GenericException)"

section \<open>The flow of a packet\<close>

definition l4_ports :: "ip_packet \<Rightarrow> (int \<times> int) res" where
  "l4_ports ip =
     (if ip_p ip = IP_PROTO_TCP \<or> ip_p ip = IP_PROTO_UDP
      then (case ip_data ip of Ports s d payload \<Rightarrow> Inr (s, d) | NoPorts \<Rightarrow> Inl AttributeError)
      else Inr (0, 0))"

definition extract_flow :: "ethernet \<Rightarrow> flow_dict res" where
  "extract_flow eth =
     (let attrs = [(''dl_src'', FStr (eth_src eth)), (''dl_dst'', FStr (eth_dst eth)), (''dl_type'', FInt (eth_type eth)),
                   (''dl_vlan'', FInt 0xffff), (''dl_vlan_pcp'', FInt 0)]
      in if eth_type eth = ETH_TYPE_IP
         then (case eth_data eth of
                 EthRaw \<Rightarrow> Inl AttributeError
               | EthIP ip \<Rightarrow>
                   rbind (inet_ntoa (ip_src ip)) (\<lambda>src.
                   rbind (inet_ntoa (ip_dst ip)) (\<lambda>dst.
                   rbind (l4_ports ip) (\<lambda>(sport, dport).
                   Inr (attrs @ [(''nw_src'', FStr src), (''nw_dst'', FStr dst), (''nw_proto'', FInt (ip_p ip)),
                                 (''nw_tos'', FInt (ip_tos ip)), (''tp_src'', FInt sport), (''tp_dst'', FInt dport)])))))
         else Inr (attrs @ [(''nw_src'', FInt 0), (''nw_dst'', FInt 0)]))"

text \<open>An entry of the result that is only there when the given flow has it.\<close>

definition copy_key :: "string \<Rightarrow> string \<Rightarrow> flow_dict \<Rightarrow> flow_dict" where
  "copy_key from_key to_key flow = (case map_of flow from_key of None \<Rightarrow> [] | Some v \<Rightarrow> [(to_key, v)])"

definition reverse_flow_dict :: "flow_dict \<Rightarrow> flow_dict res" where
  "reverse_flow_dict flow =
     rbind (dict_getitem flow ''dl_dst'') (\<lambda>src.
     rbind (dict_getitem flow ''dl_src'') (\<lambda>dst.
     rbind (dict_getitem flow ''dl_type'') (\<lambda>typ.
     rbind (dict_getitem flow ''dl_vlan'') (\<lambda>vlan.
     rbind (dict_getitem flow ''dl_vlan_pcp'') (\<lambda>pcp.
     rbind (dict_getitem flow ''nw_dst'') (\<lambda>nsrc.
     rbind (dict_getitem flow ''nw_src'') (\<lambda>ndst.
     Inr ([(''dl_src'', src), (''dl_dst'', dst), (''dl_type'', typ), (''dl_vlan'', vlan), (''dl_vlan_pcp'', pcp),
           (''nw_src'', nsrc), (''nw_dst'', ndst)] @ copy_key ''nw_proto'' ''nw_proto'' flow @
          copy_key ''nw_tos'' ''nw_tos'' flow @ copy_key ''tp_dst'' ''tp_src'' flow @
          copy_key ''tp_src'' ''tp_dst'' flow))))))))"

section \<open>The table\<close>

type_synonym shim_table = "(flow_tuple, int list) dict"

definition convert_flow :: "int \<Rightarrow> flow_dict \<Rightarrow> flow_tuple option res" where
  "convert_flow inport flow =
     (if length flow \<noteq> 11 then Inr None
      else rbind (flow_to_tuple (FInt inport) flow) (\<lambda>f. Inr (Some f)))"

text \<open>\<^verbatim>\<open>add_flow\<close> writes the port into the dictionary it is given, so the dictionary is returned too.\<close>

definition add_flow :: "int \<Rightarrow> flow_dict \<Rightarrow> int \<Rightarrow> shim_table \<Rightarrow> (shim_table \<times> flow_dict \<times> bool) res" where
  "add_flow inport flow ed t =
     (let flow' = AList.update ''in_port'' (FInt 0) flow
      in rbind (convert_flow inport flow') (\<lambda>f.
         case f of
           None \<Rightarrow> Inr (t, flow', False)
         | Some f \<Rightarrow>
             (case map_of t f of
                None \<Rightarrow> Inr (AList.update f [ed] t, flow', True)
              | Some eds \<Rightarrow> Inr (AList.update f (eds @ [ed]) t, flow', True))))"

definition del_flow :: "int \<Rightarrow> flow_dict \<Rightarrow> shim_table \<Rightarrow> (shim_table \<times> bool) res" where
  "del_flow inport flow t =
     rbind (convert_flow inport flow) (\<lambda>f.
     case f of
       None \<Rightarrow> Inr (t, False)
     | Some f \<Rightarrow> if has_key t f then Inr (AList.delete f t, True) else Inr (t, False))"

text \<open>The tests of one entry: a field of the entry that is not \<^verbatim>\<open>None\<close> must equal the packet's, and one
  such field must exist.\<close>

fun match_fields :: "(fval \<times> fval res) list \<Rightarrow> bool \<Rightarrow> bool res" where
  "match_fields [] item_match = Inr item_match"
| "match_fields ((item, pkt) # fs) item_match =
     rbind (py_eq item FNone) (\<lambda>wild.
     if wild then match_fields fs item_match
     else rbind pkt (\<lambda>v. rbind (py_eq item v) (\<lambda>same. if same then match_fields fs True else Inr False)))"

definition ipstr_field :: "fval \<Rightarrow> fval res" where
  "ipstr_field v = (case v of FStr s \<Rightarrow> rbind (ipstr_to_int s) (\<lambda>n. Inr (FInt n)) | _ \<Rightarrow> Inl AttributeError)"

definition shim_match :: "flow_tuple \<Rightarrow> flow_tuple \<Rightarrow> bool res" where
  "shim_match item ft =
     match_fields
       [(dl_src item, Inr (dl_src ft)), (dl_dst item, Inr (dl_dst ft)), (dl_vlan item, Inr (dl_vlan ft)),
        (dl_vlan_pcp item, Inr (dl_vlan_pcp ft)), (dl_type item, Inr (dl_type ft)),
        (nw_src item, ipstr_field (nw_src ft)), (nw_dst item, Inr (nw_dst ft)), (nw_proto item, Inr (nw_proto ft)),
        (tp_src item, Inr (tp_src ft)), (tp_dst item, Inr (tp_dst ft))] False"

definition lookup_flow :: "shim_table \<Rightarrow> flow_dict \<Rightarrow> int list option res" where
  "lookup_flow t flow =
     rbind (convert_flow 0 flow) (\<lambda>f.
     case f of
       None \<Rightarrow> Inr None
     | Some ft \<Rightarrow>
         rbind (rfoldM (\<lambda>result_list item. rbind (shim_match item ft) (\<lambda>m. Inr (if m then result_list @ [item] else result_list)))
                  [] (dict_keys t)) (\<lambda>result_list.
         if result_list \<noteq> [] then rbind (dict_getitem t (last result_list)) (\<lambda>eds. Inr (Some eds))
         else Inr None))"

definition get_active_flows :: "shim_table \<Rightarrow> nat" where
  "get_active_flows t = length t"

section \<open>What an entry matches\<close>

text \<open>The fields of a packet as the table compares them: the source address as a number.\<close>

definition packet_fields :: "flow_tuple \<Rightarrow> fval list" where
  "packet_fields ft =
     [dl_src ft, dl_dst ft, dl_vlan ft, dl_vlan_pcp ft, dl_type ft,
      (case ipstr_field (nw_src ft) of Inr v \<Rightarrow> v | Inl _ \<Rightarrow> FNone), nw_dst ft, nw_proto ft, tp_src ft, tp_dst ft]"

definition item_fields :: "flow_tuple \<Rightarrow> fval list" where
  "item_fields item =
     [dl_src item, dl_dst item, dl_vlan item, dl_vlan_pcp item, dl_type item, nw_src item, nw_dst item, nw_proto item,
      tp_src item, tp_dst item]"

definition shim_covers :: "flow_tuple \<Rightarrow> flow_tuple \<Rightarrow> bool" where
  "shim_covers item ft \<longleftrightarrow>
     (\<exists>v \<in> set (item_fields item). v \<noteq> FNone) \<and> list_all2 (\<lambda>a b. a = FNone \<or> a = b) (item_fields item) (packet_fields ft)"

text \<open>A packet the table can be asked about: plain fields and a source address in dotted notation.\<close>

definition packet_tuple :: "flow_tuple \<Rightarrow> bool" where
  "packet_tuple ft \<longleftrightarrow>
     list_all plain (item_fields ft) \<and> (\<exists>a. nw_src ft = FStr (ip_to_str a)) \<and> (\<exists>s. nw_dst ft = FStr s)"

lemma match_fields_plain:
  assumes "list_all2 (\<lambda>i v. plain i \<and> plain v) items vs"
  shows "match_fields (zip items (map Inr vs)) b =
    Inr (list_all2 (\<lambda>i v. i = FNone \<or> i = v) items vs \<and> (b \<or> (\<exists>i \<in> set items. i \<noteq> FNone)))"
  using assms by (induction arbitrary: b rule: list_all2_induct) auto

lemma ipstr_field_dotted: "ipstr_field (FStr (ip_to_str a)) = Inr (FInt (a mod 2 ^ 32))"
  by (simp add: ipstr_field_def ip_roundtrip_mod)

lemma shim_match_covers:
  assumes "list_all plain (item_fields item)" and "packet_tuple ft"
  shows "shim_match item ft = Inr (shim_covers item ft)"
proof -
  obtain a where a: "nw_src ft = FStr (ip_to_str a)" using assms(2) by (auto simp: packet_tuple_def)
  have "shim_match item ft = match_fields (zip (item_fields item) (map Inr (packet_fields ft))) False"
    by (simp add: shim_match_def item_fields_def packet_fields_def a ipstr_field_dotted)
  also have "\<dots> = Inr (list_all2 (\<lambda>i v. i = FNone \<or> i = v) (item_fields item) (packet_fields ft) \<and>
                     (False \<or> (\<exists>i \<in> set (item_fields item). i \<noteq> FNone)))"
    by (rule match_fields_plain)
       (use assms a in \<open>simp add: item_fields_def packet_fields_def packet_tuple_def ipstr_field_dotted\<close>)
  finally show ?thesis unfolding shim_covers_def by (simp only: simp_thms conj_commute)
qed

lemma rfoldM_filter:
  assumes "\<And>x. x \<in> set xs \<Longrightarrow> t x = Inr (p x)"
  shows "rfoldM (\<lambda>acc x. rbind (t x) (\<lambda>m. Inr (if m then acc @ [x] else acc))) acc xs = Inr (acc @ filter p xs)"
  using assms by (induction xs arbitrary: acc) auto

lemma last_filter_lookup:
  assumes "dict_wf t" and "filter (\<lambda>(f, _). p f) t \<noteq> []"
  shows "map_of t (last (filter p (map fst t))) = Some (snd (last (filter (\<lambda>(f, _). p f) t)))"
proof -
  have eq: "filter p (map fst t) = map fst (filter (\<lambda>(f, _). p f) t)"
    by (induction t) auto
  obtain f eds where l: "last (filter (\<lambda>(f, _). p f) t) = (f, eds)" by force
  then have "(f, eds) \<in> set t" using last_in_set [OF assms(2)] by auto
  with assms show ?thesis by (simp add: eq last_map l)
qed

section \<open>Packets of the wire\<close>

lemma octets_of_sum:
  fixes a b c d :: int
  assumes "0 \<le> a" "a < 256" "0 \<le> b" "b < 256" "0 \<le> c" "c < 256" "0 \<le> d" "d < 256"
  defines "x \<equiv> ((a * 256 + b) * 256 + c) * 256 + d"
  shows "x div 2 ^ 24 mod 256 = a" "x div 2 ^ 16 mod 256 = b" "x div 2 ^ 8 mod 256 = c" "x div 2 ^ 0 mod 256 = d"
proof -
  have 1: "x div 256 = (a * 256 + b) * 256 + c" using assms by simp
  have 2: "x div 65536 = a * 256 + b"
    using zdiv_zmult2_eq [of 256 x 256] assms 1 by simp
  have 3: "x div 16777216 = a"
    using zdiv_zmult2_eq [of 256 x 65536] assms 2 by simp
  have m: "(y * 256 + z) mod 256 = z" if "0 \<le> z" "z < 256" for y z :: int using that by simp
  have power_numeral_shifts: "2 ^ 24 = (16777216 :: int)" "2 ^ 16 = (65536 :: int)" "2 ^ 8 = (256 :: int)" "2 ^ 0 = (1 :: int)"
    by simp_all
  show "x div 2 ^ 24 mod 256 = a" "x div 2 ^ 16 mod 256 = b" "x div 2 ^ 8 mod 256 = c" "x div 2 ^ 0 mod 256 = d"
    using m [of b a] m [of c "a * 256 + b"] m [of d "(a * 256 + b) * 256 + c"] assms(1-8)
    by (simp_all only: 1 2 3 power_numeral_shifts) (simp_all add: x_def)
qed

lemma inet_ntoa_dotted:
  assumes "length s = 4"
  shows "inet_ntoa s = Inr (ip_to_str (int_of_bytes (map byte_of s)))"
proof -
  obtain a b c d where s: "s = [a, b, c, d]"
    using assms by (auto simp: numeral_eq_Suc length_Suc_conv)
  let ?n = "int_of_bytes (map byte_of s)"
  have n: "?n = ((int (byte_of a) * 256 + int (byte_of b)) * 256 + int (byte_of c)) * 256 + int (byte_of d)"
    by (simp add: s int_of_bytes_def)
  have lt: "byte_of x < 256" for x :: char by simp
  have "int (ip_octet ?n 24) = int (byte_of a)" "int (ip_octet ?n 16) = int (byte_of b)"
      "int (ip_octet ?n 8) = int (byte_of c)" "int (ip_octet ?n 0) = int (byte_of d)"
    using lt [of a] lt [of b] lt [of c] lt [of d] unfolding ip_octet_eq n by (simp_all only: octets_of_sum of_nat_0_le_iff of_nat_less_numeral_iff)
  then show ?thesis by (simp add: inet_ntoa_def ip_to_str_def s)
qed

text \<open>An IP frame as \<^verbatim>\<open>dpkt\<close> parses it: addresses of six and of four bytes, and ports for TCP and UDP.\<close>

definition ip_frame :: "ethernet \<Rightarrow> ip_packet \<Rightarrow> int \<Rightarrow> int \<Rightarrow> bool" where
  "ip_frame eth ip sport dport \<longleftrightarrow>
     eth_type eth = ETH_TYPE_IP \<and> eth_data eth = EthIP ip \<and> length (eth_src eth) = 6 \<and> length (eth_dst eth) = 6 \<and>
     length (ip_src ip) = 4 \<and> length (ip_dst ip) = 4 \<and> l4_ports ip = Inr (sport, dport)"

definition frame_tuple :: "ethernet \<Rightarrow> ip_packet \<Rightarrow> int \<Rightarrow> int \<Rightarrow> flow_tuple" where
  "frame_tuple eth ip sport dport =
     \<lparr>in_port = FInt 0, dl_src = FInt (int_of_bytes (map byte_of (eth_src eth))),
      dl_dst = FInt (int_of_bytes (map byte_of (eth_dst eth))), dl_vlan = FInt 0xffff, dl_vlan_pcp = FInt 0,
      dl_type = FInt (eth_type eth), nw_src = FStr (ip_to_str (int_of_bytes (map byte_of (ip_src ip)))),
      nw_dst = FStr (ip_to_str (int_of_bytes (map byte_of (ip_dst ip)))), nw_proto = FInt (ip_p ip),
      tp_src = FInt sport, tp_dst = FInt dport\<rparr>"

lemma packet_frame_tuple: "packet_tuple (frame_tuple eth ip sport dport)"
  by (auto simp: packet_tuple_def frame_tuple_def item_fields_def)

lemma extract_flow_ip:
  assumes "ip_frame eth ip sport dport"
  shows "\<exists>flow. extract_flow eth = Inr flow \<and> convert_flow 0 flow = Inr (Some (frame_tuple eth ip sport dport)) \<and>
    map_of flow ''nw_dst'' = Some (FStr (ip_to_str (int_of_bytes (map byte_of (ip_dst ip)))))"
  using assms
  by (simp add: ip_frame_def extract_flow_def inet_ntoa_dotted convert_flow_def flow_to_tuple_def tuple_of_dict_def
      opt_mac_field_def mac_field_to_int_def mac_to_int_eq frame_tuple_def dict_getitem_def)

text \<open>Frames that carry no IP packet have seven attributes instead of eleven, and no entry.\<close>

lemma lookup_not_ip:
  assumes "eth_type eth \<noteq> ETH_TYPE_IP"
  shows "\<exists>flow. extract_flow eth = Inr flow \<and> map_of flow ''nw_dst'' = Some (FInt 0) \<and> lookup_flow t flow = Inr None"
  using assms by (simp add: extract_flow_def Let_def lookup_flow_def convert_flow_def)

definition table_ok :: "shim_table \<Rightarrow> bool" where
  "table_ok t \<longleftrightarrow> dict_wf t \<and> (\<forall>f \<in> set (dict_keys t). list_all plain (item_fields f))"

lemma lookup_flow_matches:
  assumes "table_ok t" and "convert_flow 0 flow = Inr (Some ft)" and "packet_tuple ft"
  shows "lookup_flow t flow =
    Inr (let ms = filter (\<lambda>(f, _). shim_covers f ft) t in if ms = [] then None else Some (snd (last ms)))"
proof -
  let ?ms = "filter (\<lambda>(f, _). shim_covers f ft) t" and ?ks = "filter (\<lambda>f. shim_covers f ft) (dict_keys t)"
  have ks: "?ks = map fst ?ms" by (induction t) auto
  have "rfoldM (\<lambda>acc item. rbind (shim_match item ft) (\<lambda>m. Inr (if m then acc @ [item] else acc))) [] (dict_keys t) = Inr ([] @ ?ks)"
    using assms(1,3) by (intro rfoldM_filter) (auto simp: shim_match_covers table_ok_def)
  moreover have "?ms \<noteq> [] \<Longrightarrow> dict_getitem t (last ?ks) = Inr (snd (last ?ms))"
    using assms(1) by (simp add: last_filter_lookup table_ok_def)
  ultimately show ?thesis
    using assms(2) by (simp add: lookup_flow_def ks Let_def dict_getitem_def)
qed

section \<open>Installation\<close>

text \<open>A flow space as it arrives at a shim: the ten fields, with or without the port, with plain values.\<close>

definition app_flow :: "flow_dict \<Rightarrow> bool" where
  "app_flow flow \<longleftrightarrow> valid_flow flow \<and> dict_wf flow \<and> set (dict_keys flow) - {''in_port''} = set flow_keys \<and>
     list_all (\<lambda>(k, v). plain v) flow"

definition flow_key :: "flow_dict \<Rightarrow> flow_tuple" where
  "flow_key flow = (case flow_to_tuple (FInt 0) flow of Inr f \<Rightarrow> f | Inl _ \<Rightarrow> undefined)"

definition push_ed :: "flow_tuple \<Rightarrow> int \<Rightarrow> shim_table \<Rightarrow> shim_table" where
  "push_ed f ed t = AList.update f ((case map_of t f of None \<Rightarrow> [] | Some eds \<Rightarrow> eds) @ [ed]) t"

definition reverse_key :: "flow_tuple \<Rightarrow> flow_tuple" where
  "reverse_key f = (get_reverse_flow f)\<lparr>in_port := in_port f\<rparr>"

lemma app_flow_key:
  assumes "app_flow flow"
  shows "flow_to_tuple (FInt 0) flow = Inr (flow_key flow)"
  using flow_to_tuple_valid [of flow "FInt 0"] assms by (auto simp: app_flow_def flow_key_def)

lemma app_flow_with_port:
  assumes "app_flow flow"
  shows "app_flow (AList.update ''in_port'' (FInt 0) flow)"
    and "length (AList.update ''in_port'' (FInt 0) flow) = 11"
    and "flow_to_tuple p (AList.update ''in_port'' (FInt 0) flow) = flow_to_tuple p flow"
proof -
  let ?flow = "AList.update ''in_port'' (FInt 0) flow"
  have keys: "set (dict_keys ?flow) = insert ''in_port'' (set flow_keys)"
    using assms by (auto simp: app_flow_def update_keys)
  have wf: "dict_wf ?flow" using assms by (simp add: app_flow_def)
  have get: "map_of ?flow k = map_of flow k" if "k \<in> set flow_keys" for k
    using that by (auto simp: flow_keys_def)
  show "length ?flow = 11"
    using distinct_card [OF wf] keys by (simp add: flow_keys_def)
  show eq: "flow_to_tuple p ?flow = flow_to_tuple p flow"
    by (simp add: flow_to_tuple_def tuple_of_dict_def dict_getitem_def)
  have "plain v" if "(k, v) \<in> set ?flow" for k v
  proof -
    have "map_of ?flow k = Some v" using that wf by (rule map_of_is_SomeI [rotated])
    then show ?thesis using assms by (auto simp: app_flow_def list_all_iff split: if_splits dest: map_of_SomeD)
  qed
  moreover have "valid_flow ?flow"
    using assms by (auto simp: app_flow_def valid_flow_def flow_keys_def)
  moreover have "set (dict_keys ?flow) - {''in_port''} = set flow_keys"
    unfolding keys by (auto simp: flow_keys_def)
  ultimately show "app_flow ?flow" using wf by (auto simp: app_flow_def list_all_iff)
qed

lemma add_flow_app:
  assumes "app_flow flow"
  shows "add_flow 0 flow ed t = Inr (push_ed (flow_key flow) ed t, AList.update ''in_port'' (FInt 0) flow, True)"
  using app_flow_with_port [OF assms] app_flow_key [OF assms]
  by (simp add: add_flow_def convert_flow_def push_ed_def split: option.splits)

text \<open>The reverse of a flow space is one again, and its key is the reversed key.\<close>

lemma flow_key_fields:
  assumes "app_flow flow"
  shows "\<exists>s d. opt_mac_field (the (map_of flow ''dl_src'')) = Inr s \<and> opt_mac_field (the (map_of flow ''dl_dst'')) = Inr d \<and>
    flow_key flow = \<lparr>in_port = FInt 0, dl_src = s, dl_dst = d, dl_vlan = the (map_of flow ''dl_vlan''),
      dl_vlan_pcp = the (map_of flow ''dl_vlan_pcp''), dl_type = the (map_of flow ''dl_type''),
      nw_src = the (map_of flow ''nw_src''), nw_dst = the (map_of flow ''nw_dst''), nw_proto = the (map_of flow ''nw_proto''),
      tp_src = the (map_of flow ''tp_src''), tp_dst = the (map_of flow ''tp_dst'')\<rparr>"
  using app_flow_key [OF assms]
  by (auto simp: flow_to_tuple_def tuple_of_dict_def rbind_eq_Inr)

lemma flow_key_plain: "app_flow flow \<Longrightarrow> list_all plain (item_fields (flow_key flow))"
proof -
  assume a: "app_flow flow"
  have pl: "plain (the (map_of flow k))" if "k \<in> set flow_keys" for k
  proof -
    have "has_key flow k" using a that by (auto simp: app_flow_def valid_flow_def)
    then show ?thesis using a by (auto simp: app_flow_def list_all_iff dest: map_of_SomeD)
  qed
  have mac: "plain w" if "opt_mac_field v = Inr w" for v w using opt_mac_field_plain [OF that] by auto
  obtain s d where "opt_mac_field (the (map_of flow ''dl_src'')) = Inr s" "opt_mac_field (the (map_of flow ''dl_dst'')) = Inr d"
    "item_fields (flow_key flow) = [s, d] @ map (\<lambda>k. the (map_of flow k)) [''dl_vlan'', ''dl_vlan_pcp'', ''dl_type'', ''nw_src'', ''nw_dst'', ''nw_proto'', ''tp_src'', ''tp_dst'']"
    using flow_key_fields [OF a] by (auto simp: item_fields_def)
  with pl mac show ?thesis by (simp add: flow_keys_def)
qed

lemma reverse_app_flow:
  assumes "app_flow flow"
  obtains rf where "reverse_flow_dict flow = Inr rf" "app_flow rf" "flow_key rf = reverse_key (flow_key flow)"
proof -
  define g where "g k = the (map_of flow k)" for k
  have get: "map_of flow k = Some (g k)" if "k \<in> set flow_keys" for k
    using assms that by (auto simp: app_flow_def valid_flow_def g_def)
  have "''nw_tos'' \<notin> set (dict_keys flow) - {''in_port''}"
    using assms by (simp add: app_flow_def) (simp add: flow_keys_def)
  then have "map_of flow ''nw_tos'' = None"
    by (simp add: map_of_eq_None_iff)
  define rf where "rf = [(''dl_src'', g ''dl_dst''), (''dl_dst'', g ''dl_src''), (''dl_type'', g ''dl_type''),
    (''dl_vlan'', g ''dl_vlan''), (''dl_vlan_pcp'', g ''dl_vlan_pcp''), (''nw_src'', g ''nw_dst''), (''nw_dst'', g ''nw_src''),
    (''nw_proto'', g ''nw_proto''), (''tp_src'', g ''tp_dst''), (''tp_dst'', g ''tp_src'')]"
  have r: "reverse_flow_dict flow = Inr rf"
    using \<open>map_of flow ''nw_tos'' = None\<close>
    by (simp add: reverse_flow_dict_def copy_key_def dict_getitem_def get flow_keys_def rf_def)
  have mac: "valid_mac_value (g k)" if "k \<in> {''dl_src'', ''dl_dst''}" for k
  proof -
    have "map_of flow k = Some (g k)" using that get by (auto simp: flow_keys_def)
    then show ?thesis using assms that by (auto simp: app_flow_def valid_flow_def)
  qed
  have pl: "plain (g k)" if "k \<in> set flow_keys" for k
    using get [OF that] assms by (auto simp: app_flow_def list_all_iff dest: map_of_SomeD)
  have keys: "map fst rf = [''dl_src'', ''dl_dst'', ''dl_type'', ''dl_vlan'', ''dl_vlan_pcp'', ''nw_src'', ''nw_dst'',
      ''nw_proto'', ''tp_src'', ''tp_dst'']"
    by (simp add: rf_def)
  have "dict_wf rf" unfolding keys by simp
  moreover have "set (dict_keys rf) - {''in_port''} = set flow_keys" unfolding keys by (auto simp: flow_keys_def)
  moreover have "list_all (\<lambda>(k, v). plain v) rf" using pl by (simp add: rf_def flow_keys_def)
  moreover have "valid_flow rf" using mac by (simp add: valid_flow_def rf_def flow_keys_def)
  ultimately have "app_flow rf" by (simp only: app_flow_def)
  then have "flow_key rf = reverse_key (flow_key flow)"
    using flow_key_fields [OF \<open>app_flow rf\<close>] flow_key_fields [OF assms]
    by (auto simp: rf_def g_def reverse_key_def get_reverse_flow_def)
  with \<open>app_flow rf\<close> show thesis using that r by blast
qed

section \<open>Properties\<close>



text \<open>
  C34. A flow space that names an IP address is matched in one direction at most: an entry that matches some frame and names
  an address never matches any frame once reversed, because the source address of a frame is compared as a number and
  its destination address as dotted text.
\<close>

theorem address_one_way:
  assumes "list_all plain (item_fields f)" and "nw_src f \<noteq> FNone \<or> nw_dst f \<noteq> FNone"
    and "shim_match f (frame_tuple eth ip sport dport) = Inr True"
  shows "shim_match (reverse_key f) (frame_tuple eth' ip' sport' dport') = Inr False"
proof -
  have num: "packet_fields (frame_tuple e i s d) ! 5 = FInt (int_of_bytes (map byte_of (ip_src i)) mod 2 ^ 32)"
      "packet_fields (frame_tuple e i s d) ! 6 = FStr (ip_to_str (int_of_bytes (map byte_of (ip_dst i))))" for e i s d
    by (simp_all add: packet_fields_def frame_tuple_def ipstr_field_dotted)
  have fields: "(nw_src g = FNone \<or> (\<exists>n. nw_src g = FInt n)) \<and> (nw_dst g = FNone \<or> (\<exists>x. nw_dst g = FStr x))"
    if "shim_covers g (frame_tuple e i s d)" for g e i s d
  proof -
    have l: "list_all2 (\<lambda>a b. a = FNone \<or> a = b) (item_fields g) (packet_fields (frame_tuple e i s d))"
      using that by (simp add: shim_covers_def)
    have len: "length (item_fields g) = 10" by (simp add: item_fields_def)
    from list_all2_nthD [OF l, of 5] list_all2_nthD [OF l, of 6] len num show ?thesis
      by (auto simp: item_fields_def)
  qed
  have "shim_covers f (frame_tuple eth ip sport dport)"
    using assms(1,3) by (simp add: shim_match_covers packet_frame_tuple)
  from fields [OF this] assms(2) have "\<not> shim_covers (reverse_key f) (frame_tuple eth' ip' sport' dport')"
    using fields [of "reverse_key f" eth' ip' sport' dport'] by (auto simp: reverse_key_def get_reverse_flow_def)
  moreover have "list_all plain (item_fields (reverse_key f))"
    using assms(1) by (simp add: item_fields_def reverse_key_def get_reverse_flow_def)
  ultimately show ?thesis by (simp add: shim_match_covers packet_frame_tuple)
qed

theorem address_one_way_witness:
  "\<exists>f eth ip. nw_src f = FInt 0x61626364 \<and> shim_match f (frame_tuple eth ip 1234 80) = Inr True \<and>
    shim_match (reverse_key f) (frame_tuple eth ip 80 1234) = Inr False"
proof -
  let ?f = "\<lparr>in_port = FInt 0, dl_src = FNone, dl_dst = FNone, dl_vlan = FNone, dl_vlan_pcp = FNone, dl_type = FNone,
     nw_src = FInt 0x61626364, nw_dst = FNone, nw_proto = FNone, tp_src = FNone, tp_dst = FNone\<rparr>"
  define ip where "ip = \<lparr>ip_src = ''abcd'', ip_dst = ''efgh'', ip_p = 6, ip_tos = 0, ip_data = Ports 1234 80 []\<rparr>"
  define eth where "eth = \<lparr>eth_src = ''aaaaaa'', eth_dst = ''bbbbbb'', eth_type = 0x800, eth_data = EthIP ip\<rparr>"
  have pl: "list_all plain (item_fields ?f)" by (simp add: item_fields_def)
  have "shim_covers ?f (frame_tuple eth ip 1234 80)"
    by (simp add: shim_covers_def item_fields_def packet_fields_def frame_tuple_def ip_def ipstr_field_dotted int_of_bytes_def)
  then have m: "shim_match ?f (frame_tuple eth ip 1234 80) = Inr True" by (simp add: shim_match_covers [OF pl packet_frame_tuple])
  from address_one_way [OF pl _ m] m show ?thesis by (intro exI [of _ ?f] exI [of _ eth] exI [of _ ip]) simp
qed

end
