(* ===== verification/Json.thy ===== *)
theory Json
  imports Packet_Utils Complex_Main
begin

text \<open>
  The dynamic values of parameters and messages, and the part of Python's \<^verbatim>\<open>json\<close> module the controller and the shims talk through: \<^verbatim>\<open>dumps\<close> with its
  default settings (one line of ASCII, separators \<^verbatim>\<open>', '\<close> and \<^verbatim>\<open>': '\<close>) and \<^verbatim>\<open>loads\<close> as the
  recursive descent of the module's decoder.  Strings are ASCII, so that \<^verbatim>\<open>str\<close> and \<^verbatim>\<open>unicode\<close>
  agree; floats are exact rationals, and their printed form (\<^verbatim>\<open>float.__repr__\<close>) is an argument of
  \<^verbatim>\<open>dumps\<close>.  An object is a dictionary in iteration order, with text for keys.

  Shown: what \<^verbatim>\<open>dumps\<close> prints reads back as the same value with whatever follows it left unread, it never
  contains a line break, and the fuel of the decoder is enough for every text.
\<close>

section \<open>Values\<close>

text \<open>The values of element parameters, of specifications and of messages.\<close>

datatype pval =
    PvNone
  | PvBool bool
  | PvInt int
  | PvNum rat
  | PvStr string
  | PvList "pval list"
  | PvDict "(string \<times> pval) list"

text \<open>Truth of a value in a condition.\<close>

definition pv_truthy :: "pval \<Rightarrow> bool" where
  "pv_truthy v = (case v of PvNone \<Rightarrow> False | PvBool b \<Rightarrow> b | PvInt n \<Rightarrow> n \<noteq> 0 | PvNum r \<Rightarrow> r \<noteq> 0
     | PvStr s \<Rightarrow> s \<noteq> [] | PvList l \<Rightarrow> l \<noteq> [] | PvDict d \<Rightarrow> d \<noteq> [])"

text \<open>\<^verbatim>\<open>int(v)\<close>.\<close>

definition pv_to_int :: "pval \<Rightarrow> int res" where
  "pv_to_int v =
     (case v of
        PvInt n \<Rightarrow> Inr n
      | PvBool b \<Rightarrow> Inr (of_bool b)
      | PvNum q \<Rightarrow> Inr (if 0 \<le> q then \<lfloor>q\<rfloor> else \<lceil>q\<rceil>)
      | PvStr s \<Rightarrow> py_int 10 s
      | _ \<Rightarrow> Inl TypeError)"

section \<open>Printing\<close>

definition hex4 :: "nat \<Rightarrow> string" where
  "hex4 n = ''00'' @ fmt_02x n"

definition esc_char :: "char \<Rightarrow> string" where
  "esc_char c =
     (let n = byte_of c in
      if n = 34 then [CHR 0x5C, c]
      else if n = 92 then [CHR 0x5C, c]
      else if n = 10 then [CHR 0x5C, CHR ''n'']
      else if n = 13 then [CHR 0x5C, CHR ''r'']
      else if n = 9 then [CHR 0x5C, CHR ''t'']
      else if n = 12 then [CHR 0x5C, CHR ''f'']
      else if n = 8 then [CHR 0x5C, CHR ''b'']
      else if 32 \<le> n \<and> n \<le> 126 then [c]
      else CHR 0x5C # CHR ''u'' # hex4 n)"

definition dump_str :: "string \<Rightarrow> string" where
  "dump_str s = [CHR 0x22] @ concat (map esc_char s) @ [CHR 0x22]"

definition dump_int :: "int \<Rightarrow> string" where
  "dump_int n = (if n < 0 then CHR ''-'' # fmt_d (nat (- n)) else fmt_d (nat n))"

fun dumps :: "(rat \<Rightarrow> string) \<Rightarrow> pval \<Rightarrow> string" where
  "dumps fr PvNone = ''null''"
| "dumps fr (PvBool b) = (if b then ''true'' else ''false'')"
| "dumps fr (PvInt n) = dump_int n"
| "dumps fr (PvNum r) = fr r"
| "dumps fr (PvStr s) = dump_str s"
| "dumps fr (PvList vs) = ''['' @ join_with '', '' (map (dumps fr) vs) @ '']''"
| "dumps fr (PvDict kvs) =
     ''{'' @ join_with '', '' (map (\<lambda>(k, v). dump_str k @ '': '' @ dumps fr v) kvs) @ ''}''"

section \<open>Reading\<close>

definition is_ws :: "char \<Rightarrow> bool" where
  "is_ws c \<longleftrightarrow> byte_of c \<in> {32, 9, 10, 13}"

definition skip_ws :: "string \<Rightarrow> string" where
  "skip_ws s = dropWhile is_ws s"

definition is_digit :: "char \<Rightarrow> bool" where
  "is_digit c \<longleftrightarrow> 48 \<le> byte_of c \<and> byte_of c \<le> 57"

definition digits_val :: "string \<Rightarrow> nat" where
  "digits_val ds = foldl (\<lambda>v c. v * 10 + (byte_of c - 48)) 0 ds"

definition hex_val :: "char \<Rightarrow> nat option" where
  "hex_val c = (case digit_val c of Some d \<Rightarrow> if d < 16 then Some d else None | None \<Rightarrow> None)"

text \<open>What follows a backslash, and the body of a string after its opening quote.  A control
  character and a character outside ASCII are refused.\<close>

definition unescape_u :: "string \<Rightarrow> (char \<times> string) option" where
  "unescape_u s =
     (case s of
        h1 # h2 # h3 # h4 # r \<Rightarrow>
          (case (hex_val h1, hex_val h2, hex_val h3, hex_val h4) of
             (Some a, Some b, Some c, Some d) \<Rightarrow>
               let n = a * 4096 + b * 256 + c * 16 + d in if n < 128 then Some (char_of_byte n, r) else None
           | _ \<Rightarrow> None)
      | _ \<Rightarrow> None)"

definition unescape :: "string \<Rightarrow> (char \<times> string) option" where
  "unescape s =
     (case s of
        [] \<Rightarrow> None
      | e # r \<Rightarrow>
          if byte_of e = 34 \<or> byte_of e = 92 \<or> e = CHR ''/'' then Some (e, r)
          else if e = CHR ''n'' then Some (char_of_byte 10, r)
          else if e = CHR ''r'' then Some (char_of_byte 13, r)
          else if e = CHR ''t'' then Some (char_of_byte 9, r)
          else if e = CHR ''f'' then Some (char_of_byte 12, r)
          else if e = CHR ''b'' then Some (char_of_byte 8, r)
          else if e = CHR ''u'' then unescape_u r
          else None)"

lemma unescape_u_shorter: "unescape_u s = Some (c, r) \<Longrightarrow> length r < length s"
  by (auto simp: unescape_u_def Let_def split: list.splits option.splits if_splits)

lemma unescape_shorter: "unescape s = Some (c, r) \<Longrightarrow> length r < length s"
  by (auto simp: unescape_def split: list.splits if_splits dest: unescape_u_shorter)

function scan_string :: "string \<Rightarrow> (string \<times> string) option" where
  "scan_string [] = None"
| "scan_string (c # s) =
     (if byte_of c = 34 then Some ([], s)
      else if byte_of c = 92 then
        (case unescape s of
           None \<Rightarrow> None
         | Some (e, r) \<Rightarrow> map_option (\<lambda>(t, r'). (e # t, r')) (scan_string r))
      else if 32 \<le> byte_of c \<and> byte_of c < 128 then map_option (\<lambda>(t, r'). (c # t, r')) (scan_string s)
      else None)"
  by pat_completeness auto
termination
  by (relation "measure length") (auto dest: unescape_shorter)

text \<open>Numbers: an integer part without a leading zero, then a fraction and an exponent, each
  taken only if it is complete.\<close>

definition scan_int :: "string \<Rightarrow> (string \<times> string) option" where
  "scan_int s =
     (case s of
        [] \<Rightarrow> None
      | c # r \<Rightarrow>
          if c = CHR ''0'' then Some ([c], r)
          else if is_digit c then Some (takeWhile is_digit s, dropWhile is_digit s)
          else None)"

definition scan_frac :: "string \<Rightarrow> string \<times> string" where
  "scan_frac s =
     (case s of
        c # r \<Rightarrow> if c = CHR ''.'' \<and> takeWhile is_digit r \<noteq> [] then (takeWhile is_digit r, dropWhile is_digit r) else ([], s)
      | [] \<Rightarrow> ([], []))"

definition scan_exp :: "string \<Rightarrow> int option \<times> string" where
  "scan_exp s =
     (case s of
        c # r \<Rightarrow>
          if c = CHR ''e'' \<or> c = CHR ''E'' then
            (let (neg, r1) = (case r of x # r' \<Rightarrow> if x = CHR ''-'' then (True, r') else if x = CHR ''+'' then (False, r') else (False, r)
                              | [] \<Rightarrow> (False, []));
                 ds = takeWhile is_digit r1
             in if ds \<noteq> [] then (Some (if neg then - int (digits_val ds) else int (digits_val ds)), dropWhile is_digit r1)
                else (None, s))
          else (None, s)
      | [] \<Rightarrow> (None, []))"

definition pow10 :: "int \<Rightarrow> rat" where
  "pow10 n = (if 0 \<le> n then 10 ^ nat n else 1 / 10 ^ nat (- n))"

definition scan_number :: "string \<Rightarrow> (pval \<times> string) option" where
  "scan_number s =
     (let (neg, s1) = (case s of c # r \<Rightarrow> if c = CHR ''-'' then (True, r) else (False, s) | [] \<Rightarrow> (False, []))
      in case scan_int s1 of
           None \<Rightarrow> None
         | Some (ds, r1) \<Rightarrow>
             let (fs, r2) = scan_frac r1; (ex, r3) = scan_exp r2
             in if fs = [] \<and> ex = None
                then Some (PvInt (if neg then - int (digits_val ds) else int (digits_val ds)), r3)
                else let m = (of_nat (digits_val ds) + of_nat (digits_val fs) / 10 ^ length fs) * pow10 (case ex of None \<Rightarrow> 0 | Some e \<Rightarrow> e)
                     in Some (PvNum (if neg then - m else m), r3))"

definition scan_literal :: "string \<Rightarrow> pval \<Rightarrow> string \<Rightarrow> (pval \<times> string) option" where
  "scan_literal w v s = (if take (length w) s = w then Some (v, drop (length w) s) else None)"

text \<open>The mutually recursive scanner; the first argument bounds the depth of the recursion.  The
  literals \<^verbatim>\<open>NaN\<close> and \<^verbatim>\<open>Infinity\<close>, which are no rationals, are refused.\<close>

fun scan_value :: "nat \<Rightarrow> string \<Rightarrow> (pval \<times> string) option"
  and scan_items :: "nat \<Rightarrow> pval list \<Rightarrow> string \<Rightarrow> (pval \<times> string) option"
  and scan_members :: "nat \<Rightarrow> (string, pval) dict \<Rightarrow> string \<Rightarrow> (pval \<times> string) option" where
  "scan_value 0 s = None"
| "scan_value (Suc n) s =
     (case s of
        [] \<Rightarrow> None
      | c # r \<Rightarrow>
          if byte_of c = 34 then map_option (\<lambda>(t, r'). (PvStr t, r')) (scan_string r)
          else if c = CHR ''{'' then
            (case skip_ws r of
               [] \<Rightarrow> None
             | d # r' \<Rightarrow> if d = CHR ''}'' then Some (PvDict [], r') else scan_members n [] (d # r'))
          else if c = CHR ''['' then
            (case skip_ws r of
               [] \<Rightarrow> None
             | d # r' \<Rightarrow> if d = CHR '']'' then Some (PvList [], r') else scan_items n [] (d # r'))
          else if c = CHR ''n'' then scan_literal ''null'' PvNone s
          else if c = CHR ''t'' then scan_literal ''true'' (PvBool True) s
          else if c = CHR ''f'' then scan_literal ''false'' (PvBool False) s
          else scan_number s)"
| "scan_items 0 acc s = None"
| "scan_items (Suc n) acc s =
     (case scan_value n s of
        None \<Rightarrow> None
      | Some (v, r) \<Rightarrow>
          (case skip_ws r of
             [] \<Rightarrow> None
           | d # r' \<Rightarrow>
               if d = CHR '']'' then Some (PvList (acc @ [v]), r')
               else if d = CHR '','' then scan_items n (acc @ [v]) (skip_ws r')
               else None))"
| "scan_members 0 acc s = None"
| "scan_members (Suc n) acc s =
     (case s of
        [] \<Rightarrow> None
      | c # r \<Rightarrow>
          if byte_of c = 34 then
            (case scan_string r of
               None \<Rightarrow> None
             | Some (k, r1) \<Rightarrow>
                 (case skip_ws r1 of
                    [] \<Rightarrow> None
                  | d # r2 \<Rightarrow>
                      if d = CHR '':'' then
                        (case scan_value n (skip_ws r2) of
                           None \<Rightarrow> None
                         | Some (v, r3) \<Rightarrow>
                             (case skip_ws r3 of
                                [] \<Rightarrow> None
                              | e # r4 \<Rightarrow>
                                  if e = CHR ''}'' then Some (PvDict (AList.update k v acc), r4)
                                  else if e = CHR '','' then scan_members n (AList.update k v acc) (skip_ws r4)
                                  else None))
                      else None))
          else None)"

definition loads :: "string \<Rightarrow> pval res" where
  "loads s =
     (case scan_value (Suc (length s)) (skip_ws s) of
        None \<Rightarrow> Inl ValueError
      | Some (v, r) \<Rightarrow> if skip_ws r = [] then Inr v else Inl ValueError)"

section \<open>Strings\<close>

definition ascii :: "string \<Rightarrow> bool" where
  "ascii s \<longleftrightarrow> list_all (\<lambda>c. byte_of c < 128) s"

lemma hex_val_digit_char: "d < 16 \<Longrightarrow> hex_val (digit_char d) = Some d"
  by (simp add: hex_val_def digit_char_props)

lemma fmt_02x_two:
  assumes "n < 256"
  shows "fmt_02x n = [digit_char (n div 16), digit_char (n mod 16)]"
proof (cases "n < 16")
  case True
  then show ?thesis
    by (simp add: fmt_02x_def fmt_x_def digits_of.simps)
next
  case False
  moreover have "n div 16 < 16" using assms by simp
  ultimately have "digits_of 16 n = [n div 16, n mod 16]"
    by (simp add: digits_of.simps [of 16 n] digits_of.simps [of 16 "n div 16"])
  with False show ?thesis by (simp add: fmt_02x_def fmt_x_def)
qed

lemma hex_zero: "hex_val CHR ''0'' = Some 0"
  by (simp add: hex_val_def digit_val_def)

text \<open>One escaped character reads back.\<close>

lemma scan_esc_char:
  assumes "byte_of c < (128 :: nat)"
  shows "scan_string (esc_char c @ s) = map_option (\<lambda>(t, r). (c # t, r)) (scan_string s)"
proof -
  define n :: nat where "n = of_char c"
  have c: "c = char_of n" and n: "n < 128" using assms by (auto simp: n_def)
  have bc: "of_char c = n" by (simp add: n_def)
  have u: "unescape (CHR ''u'' # hex4 n @ s) = Some (c, s)"
    using n by (simp add: unescape_def unescape_u_def hex4_def fmt_02x_two hex_val_digit_char hex_zero c Let_def)
  have cn: "char_of k = c" if "n = k" for k using that c by simp
  consider "n = 34 \<or> n = 92" | "n \<in> {10, 13, 9, 12, 8}" | "n \<notin> {34, 92, 10, 13, 9, 12, 8}" by blast
  then show ?thesis
  proof cases
    case 1
    then show ?thesis by (auto simp: esc_char_def bc unescape_def)
  next
    case 2
    then show ?thesis by (auto simp: esc_char_def bc cn unescape_def)
  next
    case 3
    then show ?thesis using u n by (simp add: esc_char_def bc Let_def)
  qed
qed

lemma scan_string_body:
  "ascii s \<Longrightarrow> scan_string (concat (map esc_char s) @ CHR 0x22 # r) = Some (s, r)"
  by (induction s) (auto simp: ascii_def scan_esc_char)

section \<open>Numbers\<close>

text \<open>A number ends where no further character continues it.\<close>

definition num_stop :: "string \<Rightarrow> bool" where
  "num_stop r = (case r of [] \<Rightarrow> True | c # _ \<Rightarrow> \<not> is_digit c \<and> c \<noteq> CHR ''.'' \<and> c \<noteq> CHR ''e'' \<and> c \<noteq> CHR ''E'')"

lemma digit_char_10:
  assumes "d < 10"
  shows "is_digit (digit_char d)" "byte_of (digit_char d) = 48 + d" "digit_char d = CHR ''0'' \<longleftrightarrow> d = 0"
    "digit_char d \<noteq> CHR ''-''"
proof -
  show b: "byte_of (digit_char d) = 48 + d" using assms by (simp add: digit_char_def)
  then show "is_digit (digit_char d)" using assms by (simp add: is_digit_def)
  have "byte_of CHR ''0'' = (48 :: nat)" by simp
  then show "digit_char d = CHR ''0'' \<longleftrightarrow> d = 0"
    using b by (metis add.right_neutral add_left_cancel of_char_eq_iff)
  show "digit_char d \<noteq> CHR ''-''" using assms digit_char_props by simp
qed

lemma digits_val_chars:
  "\<forall>d \<in> set ds. d < 10 \<Longrightarrow> digits_val (map digit_char ds) = horner 10 ds"
proof -
  have "\<forall>d \<in> set ds. d < 10 \<Longrightarrow>
      foldl (\<lambda>v c. v * 10 + (byte_of c - 48)) v (map digit_char ds) = foldl (\<lambda>v d. v * 10 + d) v ds" for v
    by (induction ds arbitrary: v) (auto simp: digit_char_10)
  then show "\<forall>d \<in> set ds. d < 10 \<Longrightarrow> digits_val (map digit_char ds) = horner 10 ds"
    by (simp add: digits_val_def)
qed

lemma digits_val_fmt_d [simp]: "digits_val (fmt_d n) = n"
  by (simp add: fmt_d_def digits_val_chars digits_of_bound horner_digits_of)

lemma fmt_d_digits: "c \<in> set (fmt_d n) \<Longrightarrow> is_digit c"
  by (auto simp: fmt_d_def digit_char_10 dest: digits_of_bound [of 10, simplified])

lemma hd_digits_of: "0 < n \<Longrightarrow> hd (digits_of 10 n) \<noteq> 0"
proof (induction "10 :: nat" n rule: digits_of.induct)
  case (1 n)
  then show ?case
    by (subst digits_of.simps) (auto simp: hd_append)
qed

lemma fmt_d_hd: "\<exists>c cs. fmt_d n = c # cs \<and> is_digit c \<and> c \<noteq> CHR ''-'' \<and> (c = CHR ''0'' \<longrightarrow> cs = [] \<and> n = 0)"
proof -
  obtain d ds where d: "digits_of 10 n = d # ds" by (metis digits_of_nonempty list.exhaust)
  then have "d < 10" using digits_of_bound [of 10 d n] by simp
  moreover have "d = 0 \<Longrightarrow> n = 0" using hd_digits_of [of n] d by fastforce
  moreover have "n = 0 \<Longrightarrow> ds = []" using d by (simp add: digits_of.simps)
  ultimately show ?thesis by (auto simp: fmt_d_def d digit_char_10)
qed

lemma num_stop_while:
  assumes "num_stop r" and "\<forall>c \<in> set ds. is_digit c"
  shows "takeWhile is_digit (ds @ r) = ds" "dropWhile is_digit (ds @ r) = r"
  using assms by (cases r; simp add: num_stop_def takeWhile_append dropWhile_append; fail)+

lemma scan_int_fmt_d:
  assumes "num_stop r"
  shows "scan_int (fmt_d n @ r) = Some (fmt_d n, r)"
proof -
  obtain c cs where f: "fmt_d n = c # cs" and c: "is_digit c" "c = CHR ''0'' \<longrightarrow> cs = []"
    using fmt_d_hd by blast
  have "\<forall>x \<in> set (c # cs). is_digit x" using fmt_d_digits f by metis
  from num_stop_while [OF assms this] c show ?thesis by (auto simp: scan_int_def f)
qed

lemma scan_tail_stop: "num_stop r \<Longrightarrow> scan_frac r = ([], r)" "num_stop r \<Longrightarrow> scan_exp r = (None, r)"
  by (auto simp: num_stop_def scan_frac_def scan_exp_def split: list.splits)

lemma scan_number_int:
  assumes "num_stop r"
  shows "scan_number (dump_int n @ r) = Some (PvInt n, r)"
proof (cases "n < 0")
  case True
  then show ?thesis
    by (simp add: scan_number_def dump_int_def scan_int_fmt_d [OF assms] scan_tail_stop [OF assms])
next
  case False
  obtain c cs where f: "fmt_d (nat n) = c # cs" and "c \<noteq> CHR ''-''" using fmt_d_hd by blast
  moreover have "digits_val (c # cs) = nat n" using f digits_val_fmt_d by metis
  ultimately show ?thesis
    using False scan_int_fmt_d [OF assms, of "nat n"]
    by (simp add: scan_number_def dump_int_def scan_tail_stop [OF assms])
qed

lemma dump_int_hd: "\<exists>c cs. dump_int n = c # cs \<and> (c = CHR ''-'' \<or> is_digit c)"
  using fmt_d_hd [of "nat n"] by (auto simp: dump_int_def)

section \<open>Round trip\<close>

text \<open>What \<^verbatim>\<open>float.__repr__\<close> promises of a float: a JSON number on one line that reads back as it.\<close>

definition repr_ok :: "(rat \<Rightarrow> string) \<Rightarrow> rat \<Rightarrow> bool" where
  "repr_ok fr q \<longleftrightarrow>
     (\<exists>c cs. fr q = c # cs \<and> (c = CHR ''-'' \<or> is_digit c)) \<and> list_all (\<lambda>c. c \<noteq> CHR 0x0A) (fr q) \<and>
     (\<forall>r. num_stop r \<longrightarrow> scan_number (fr q @ r) = Some (PvNum q, r))"

fun json_ok :: "(rat \<Rightarrow> string) \<Rightarrow> pval \<Rightarrow> bool" where
  "json_ok fr (PvNum q) = repr_ok fr q"
| "json_ok fr (PvStr s) = ascii s"
| "json_ok fr (PvList vs) = list_all (json_ok fr) vs"
| "json_ok fr (PvDict kvs) = (dict_wf kvs \<and> list_all (\<lambda>(k, v). ascii k \<and> json_ok fr v) kvs)"
| "json_ok fr v = True"

text \<open>How a printed value begins.\<close>

definition head_ok :: "string \<Rightarrow> bool" where
  "head_ok s \<longleftrightarrow> (\<exists>c cs. s = c # cs \<and> \<not> is_ws c \<and> c \<noteq> CHR '']'' \<and> c \<noteq> CHR ''}'')"

lemma digit_not_special: "is_digit c \<Longrightarrow> \<not> is_ws c \<and> c \<notin> {CHR '']'', CHR ''}'', CHR ''['', CHR ''{'', CHR 0x22, CHR ''n'', CHR ''t'', CHR ''f''}"
  by (auto simp: is_digit_def is_ws_def)

lemma head_number: "\<exists>c cs. s = c # cs \<and> (c = CHR ''-'' \<or> is_digit c) \<Longrightarrow> head_ok s"
  using digit_not_special by (fastforce simp: head_ok_def is_ws_def)

lemma dump_str_Cons: "dump_str s = CHR 0x22 # concat (map esc_char s) @ [CHR 0x22]"
  by (simp add: dump_str_def)

lemma head_dumps: "json_ok fr v \<Longrightarrow> head_ok (dumps fr v)"
proof (cases v)
  case (PvInt n)
  with dump_int_hd [of n] show ?thesis by (simp add: head_number)
next
  case (PvNum q)
  moreover assume "json_ok fr v"
  ultimately show ?thesis by (simp add: head_number repr_ok_def)
qed (auto simp: head_ok_def is_ws_def dump_str_Cons)

lemma skip_ws_head: "head_ok s \<Longrightarrow> skip_ws (s @ r) = s @ r"
  by (auto simp: head_ok_def skip_ws_def)

lemma skip_ws_space: "skip_ws (CHR '' '' # s) = skip_ws s"
  by (simp add: skip_ws_def is_ws_def)

lemma skip_ws_stop: "\<not> is_ws c \<Longrightarrow> skip_ws (c # s) = c # s"
  by (simp add: skip_ws_def)

lemma scan_value_number:
  assumes "\<exists>c cs. s = c # cs \<and> (c = CHR ''-'' \<or> is_digit c)"
  shows "scan_value (Suc n) (s @ r) = scan_number (s @ r)"
proof -
  obtain c cs where s: "s = c # cs" and c: "c = CHR ''-'' \<or> is_digit c" using assms by blast
  have "c \<notin> {CHR ''['', CHR ''{'', CHR 0x22, CHR ''n'', CHR ''t'', CHR ''f''}"
    using c digit_not_special by auto
  moreover have "byte_of c \<noteq> (34 :: nat)" using c by (auto simp: is_digit_def)
  ultimately show ?thesis by (simp add: s)
qed

definition reads_back :: "(rat \<Rightarrow> string) \<Rightarrow> pval \<Rightarrow> bool" where
  "reads_back fr v \<longleftrightarrow>
     (\<forall>n r. num_stop r \<longrightarrow> length (dumps fr v) \<le> n \<longrightarrow> scan_value n (dumps fr v @ r) = Some (v, r))"

lemma num_stop_Nil: "num_stop []"
  by (simp add: num_stop_def)

lemma num_stop_sep [simp]: "num_stop (CHR '','' # r)" "num_stop (CHR '']'' # r)" "num_stop (CHR ''}'' # r)"
  by (simp_all add: num_stop_def is_digit_def)

lemma not_ws_sep [simp]: "\<not> is_ws CHR '',''" "\<not> is_ws CHR '']''" "\<not> is_ws CHR ''}''" "\<not> is_ws CHR '':''" "is_ws CHR '' ''"
  by (simp_all add: is_ws_def)

lemma scan_items_dumps:
  assumes "vs \<noteq> []" and "\<forall>v \<in> set vs. json_ok fr v \<and> reads_back fr v"
    and "length (join_with '', '' (map (dumps fr) vs)) < n"
  shows "scan_items n acc (join_with '', '' (map (dumps fr) vs) @ CHR '']'' # r) = Some (PvList (acc @ vs), r)"
  using assms
proof (induction vs arbitrary: n acc rule: list_nonempty_induct)
  case (single v)
  then show ?case
    by (cases n) (auto simp: reads_back_def skip_ws_stop)
next
  case (cons v vs)
  obtain w ws where vs: "vs = w # ws" using cons.hyps by (cases vs) auto
  obtain m where n: "n = Suc m" using cons.prems(2) by (cases n) auto
  let ?t = "join_with '', '' (map (dumps fr) vs)"
  have tx: "join_with '', '' (map (dumps fr) (v # vs)) = dumps fr v @ '', '' @ ?t" by (simp add: vs)
  have hd: "head_ok ?t"
    using head_dumps [of fr w] cons.prems(1) by (cases ws) (auto simp: vs head_ok_def)
  have "scan_value m (dumps fr v @ CHR '','' # CHR '' '' # ?t @ CHR '']'' # r) = Some (v, CHR '','' # CHR '' '' # ?t @ CHR '']'' # r)"
    using cons.prems tx n by (simp add: reads_back_def)
  moreover have "scan_items m (acc @ [v]) (?t @ CHR '']'' # r) = Some (PvList ((acc @ [v]) @ vs), r)"
    using cons.prems tx n by (intro cons.IH) auto
  ultimately show ?case
    using tx n hd by (simp add: skip_ws_stop skip_ws_space skip_ws_head del: join_with.simps)
qed

lemma scan_member_one:
  assumes "ascii k" and "json_ok fr v" and "reads_back fr v" and "length (dumps fr v) \<le> n"
    and "num_stop (e # r)" and "\<not> is_ws e"
  shows "scan_members (Suc n) acc (dump_str k @ '': '' @ dumps fr v @ e # r) =
     (if e = CHR ''}'' then Some (PvDict (AList.update k v acc), r)
      else if e = CHR '','' then scan_members n (AList.update k v acc) (skip_ws r) else None)"
proof -
  have "scan_value n (skip_ws (CHR '' '' # dumps fr v @ e # r)) = Some (v, e # r)"
    using assms head_dumps [of fr v] by (simp add: skip_ws_space skip_ws_head reads_back_def)
  with assms(1,6) show ?thesis
    by (simp add: dump_str_Cons scan_string_body skip_ws_stop)
qed

definition dump_member :: "(rat \<Rightarrow> string) \<Rightarrow> string \<times> pval \<Rightarrow> string" where
  "dump_member fr = (\<lambda>(k, v). dump_str k @ '': '' @ dumps fr v)"

lemma head_member: "head_ok (dump_member fr kv @ s)"
  by (cases kv) (simp add: dump_member_def dump_str_Cons head_ok_def is_ws_def)

lemma scan_members_dumps:
  assumes "kvs \<noteq> []" and "\<forall>(k, v) \<in> set kvs. ascii k \<and> json_ok fr v \<and> reads_back fr v"
    and "dict_wf (acc @ kvs)" and "length (join_with '', '' (map (dump_member fr) kvs)) < n"
  shows "scan_members n acc (join_with '', '' (map (dump_member fr) kvs) @ CHR ''}'' # r) = Some (PvDict (acc @ kvs), r)"
  using assms
proof (induction kvs arbitrary: n acc rule: list_nonempty_induct)
  case (single kv)
  obtain k v where kv: "kv = (k, v)" by force
  obtain m where n: "n = Suc m" using single.prems(3) by (cases n) auto
  have "AList.update k v acc = acc @ [(k, v)]"
    using single.prems(2) kv by (intro update_fresh) (auto simp: map_of_eq_None_iff)
  moreover have "length (dumps fr v) \<le> m" using single.prems(3) kv n by (simp add: dump_member_def)
  ultimately show ?case
    using single.prems scan_member_one [of k fr v m "CHR ''}''" r acc] kv n by (simp add: dump_member_def)
next
  case (cons kv kvs)
  obtain k v where kv: "kv = (k, v)" by force
  obtain m where n: "n = Suc m" using cons.prems(3) by (cases n) auto
  let ?t = "join_with '', '' (map (dump_member fr) kvs)"
  obtain w ws where kvs: "kvs = w # ws" using cons.hyps by (cases kvs) auto
  have tx: "join_with '', '' (map (dump_member fr) (kv # kvs)) = dump_member fr kv @ '', '' @ ?t" by (simp add: kvs)
  have hd: "head_ok ?t"
    using head_member [of fr w] by (cases ws) (auto simp: kvs dest: meta_spec [of _ "[]"])
  have upd: "AList.update k v acc = acc @ [(k, v)]"
    using cons.prems(2) kv by (intro update_fresh) (auto simp: map_of_eq_None_iff)
  have len: "length (dumps fr v) \<le> m" "length ?t < m"
    using cons.prems(3) tx n kv by (simp_all add: dump_member_def)
  have "scan_members n acc (join_with '', '' (map (dump_member fr) (kv # kvs)) @ CHR ''}'' # r) =
        scan_members m (acc @ [(k, v)]) (?t @ CHR ''}'' # r)"
    using cons.prems(1) scan_member_one [of k fr v m "CHR '',''" "CHR '' '' # ?t @ CHR ''}'' # r" acc] len(1) upd hd n kv tx
    by (simp add: dump_member_def skip_ws_space skip_ws_head del: join_with.simps)
  also have "\<dots> = Some (PvDict ((acc @ [(k, v)]) @ kvs), r)"
    using cons.prems(1,2) len(2) kv by (intro cons.IH) auto
  finally show ?case by (simp add: kv)
qed

lemma dumps_PvDict: "dumps fr (PvDict kvs) = ''{'' @ join_with '', '' (map (dump_member fr) kvs) @ ''}''"
  by (simp add: dump_member_def)

lemma reads_backI:
  assumes "json_ok fr v"
    and "\<And>n r. num_stop r \<Longrightarrow> length (dumps fr v) \<le> Suc n \<Longrightarrow> scan_value (Suc n) (dumps fr v @ r) = Some (v, r)"
  shows "reads_back fr v"
  unfolding reads_back_def
proof (intro allI impI)
  fix n r
  assume "num_stop r" and l: "length (dumps fr v) \<le> n"
  moreover have "dumps fr v \<noteq> []" using head_dumps [OF assms(1)] by (auto simp: head_ok_def)
  then obtain m where "n = Suc m" using l by (cases n) auto
  ultimately show "scan_value n (dumps fr v @ r) = Some (v, r)" using assms(2) by blast
qed

lemma reads_back_list:
  assumes ok: "json_ok fr (PvList vs)" and vs: "\<forall>v \<in> set vs. json_ok fr v \<and> reads_back fr v"
  shows "reads_back fr (PvList vs)"
proof (rule reads_backI [OF ok])
  fix n r
  assume l: "length (dumps fr (PvList vs)) \<le> Suc n"
  show "scan_value (Suc n) (dumps fr (PvList vs) @ r) = Some (PvList vs, r)"
  proof (cases vs)
    case Nil
    then show ?thesis by (simp add: skip_ws_stop)
  next
    case (Cons w ws)
    have "head_ok (join_with '', '' (map (dumps fr) vs))"
      using head_dumps [of fr w] vs by (cases ws) (auto simp: Cons head_ok_def)
    then obtain c cs where c: "join_with '', '' (map (dumps fr) vs) = c # cs" "\<not> is_ws c" "c \<noteq> CHR '']''"
      by (auto simp: head_ok_def)
    have "scan_items n [] (c # cs @ CHR '']'' # r) = Some (PvList vs, r)"
      using scan_items_dumps [of vs fr n "[]" r] vs l c Cons by simp
    with c show ?thesis by (simp add: skip_ws_stop)
  qed
qed

lemma reads_back_obj:
  assumes ok: "json_ok fr (PvDict kvs)" and kvs: "\<forall>(k, v) \<in> set kvs. ascii k \<and> json_ok fr v \<and> reads_back fr v"
  shows "reads_back fr (PvDict kvs)"
proof (rule reads_backI [OF ok])
  fix n r
  assume l: "length (dumps fr (PvDict kvs)) \<le> Suc n"
  show "scan_value (Suc n) (dumps fr (PvDict kvs) @ r) = Some (PvDict kvs, r)"
  proof (cases kvs)
    case Nil
    then show ?thesis by (simp add: skip_ws_stop)
  next
    case (Cons w ws)
    have "head_ok (join_with '', '' (map (dump_member fr) kvs))"
      using head_member [of fr w] by (cases ws) (auto simp: Cons dest: meta_spec [of _ "[]"])
    then obtain c cs where c: "join_with '', '' (map (dump_member fr) kvs) = c # cs" "\<not> is_ws c" "c \<noteq> CHR ''}''"
      by (auto simp: head_ok_def)
    have "scan_members n [] (c # cs @ CHR ''}'' # r) = Some (PvDict kvs, r)"
      using scan_members_dumps [of kvs fr "[]" n r] kvs ok l c Cons by (simp add: dump_member_def)
    with c show ?thesis by (simp add: skip_ws_stop dumps_PvDict del: dumps.simps)
  qed
qed

lemma dumps_read_back: "json_ok fr v \<Longrightarrow> reads_back fr v"
proof (induction v)
  case (PvInt n)
  then show ?case
    by (rule reads_backI) (simp only: dumps.simps scan_value_number [OF dump_int_hd] scan_number_int)
next
  case (PvNum q)
  then have "\<exists>c cs. fr q = c # cs \<and> (c = CHR ''-'' \<or> is_digit c)" by (simp add: repr_ok_def)
  with PvNum show ?case
    by (intro reads_backI) (simp_all only: dumps.simps scan_value_number, simp add: repr_ok_def)
next
  case (PvStr s)
  then show ?case
    by (intro reads_backI) (simp_all add: dump_str_Cons scan_string_body)
next
  case (PvList vs)
  then show ?case by (intro reads_back_list) (auto simp: list_all_iff)
next
  case (PvDict kvs)
  then show ?case by (intro reads_back_obj) (fastforce simp: list_all_iff)+
qed (auto intro!: reads_backI simp: scan_literal_def)

lemma loads_dumps:
  assumes "json_ok fr v"
  shows "loads (dumps fr v) = Inr v"
proof -
  have "scan_value (Suc (length (dumps fr v))) (dumps fr v @ []) = Some (v, [])"
    using dumps_read_back [OF assms] num_stop_Nil le_SucI [OF order_refl] unfolding reads_back_def by blast
  moreover have "skip_ws (dumps fr v) = dumps fr v" using skip_ws_head [OF head_dumps [OF assms], of "[]"] by simp
  ultimately show ?thesis by (simp add: loads_def skip_ws_def del: scan_value.simps)
qed

section \<open>One line\<close>

lemma esc_char_line: "byte_of c < (128 :: nat) \<Longrightarrow> CHR 0x0A \<notin> set (esc_char c)"
proof -
  have nl: "byte_of x = (10 :: nat)" if "x = CHR 0x0A" for x using that by simp
  have d: "digit_char k \<noteq> CHR 0x0A" if "k < 16" for k
    using digit_char_props(2) [OF that] by (auto simp: is_space_def)
  assume c: "byte_of c < (128 :: nat)"
  then have "digit_char (byte_of c div 16) \<noteq> CHR 0x0A" "digit_char (byte_of c mod 16) \<noteq> CHR 0x0A"
    by (intro d; simp)+
  with c show ?thesis
    using nl by (auto simp: esc_char_def hex4_def fmt_02x_two Let_def)
qed

lemma dump_str_line: "ascii s \<Longrightarrow> CHR 0x0A \<notin> set (dump_str s)"
  using esc_char_line by (auto simp: dump_str_def ascii_def list_all_iff)

lemma join_with_chars: "c \<in> set (join_with sep ss) \<Longrightarrow> c \<in> set sep \<or> (\<exists>s \<in> set ss. c \<in> set s)"
  by (induction sep ss rule: join_with.induct) auto

lemma dumps_line: "json_ok fr v \<Longrightarrow> CHR 0x0A \<notin> set (dumps fr v)"
proof (induction v)
  case (PvInt n)
  have "\<not> is_digit CHR 0x0A" by (simp add: is_digit_def)
  then show ?case using fmt_d_digits by (auto simp: dump_int_def)
next
  case (PvNum q)
  then show ?case by (auto simp: repr_ok_def list_all_iff)
next
  case (PvStr s)
  then show ?case by (simp add: dump_str_line)
next
  case (PvList vs)
  then show ?case by (auto simp: list_all_iff dest!: join_with_chars)
next
  case (PvDict kvs)
  then show ?case
    by (auto simp: list_all_iff dest!: join_with_chars) (use dump_str_line in fastforce)+
qed auto

section \<open>Fuel\<close>

text \<open>Whatever fuel reads a value, the number of characters read is enough fuel: so the fuel
  \<^verbatim>\<open>loads\<close> is given never makes it fail.\<close>

lemma scan_string_shorter: "scan_string s = Some (t, r) \<Longrightarrow> length r < length s"
proof (induction s arbitrary: t r rule: scan_string.induct)
  case (2 c s)
  then show ?case
    by (auto split: if_splits option.splits dest!: unescape_shorter) fastforce+
qed simp

lemma scan_int_shorter: "scan_int s = Some (ds, r) \<Longrightarrow> length r < length s"
  using length_dropWhile_le [of is_digit]
  by (auto simp: scan_int_def less_Suc_eq_le split: list.splits if_splits)

lemma scan_tail_shorter: "length (snd (scan_frac s)) \<le> length s" "length (snd (scan_exp s)) \<le> length s"
  by (auto simp: scan_frac_def scan_exp_def Let_def length_dropWhile_le intro!: le_SucI split: list.splits)

lemma scan_number_shorter: "scan_number s = Some (v, r) \<Longrightarrow> length r < length s"
proof -
  assume a: "scan_number s = Some (v, r)"
  obtain ds r1 s1 where i: "scan_int s1 = Some (ds, r1)" and s1: "length s1 \<le> length s"
    and r: "r = snd (scan_exp (snd (scan_frac r1)))"
    using a by (cases s) (auto simp: scan_number_def Let_def split: option.splits prod.splits if_splits)
  have "length r \<le> length (snd (scan_frac r1))" using r scan_tail_shorter(2) by simp
  also have "\<dots> \<le> length r1" by (rule scan_tail_shorter)
  finally show ?thesis using scan_int_shorter [OF i] s1 by linarith
qed

lemma skip_ws_shorter: "length (skip_ws s) \<le> length s"
  by (simp add: skip_ws_def length_dropWhile_le)

definition enough :: "(nat \<Rightarrow> (pval \<times> string) option) \<Rightarrow> string \<Rightarrow> (pval \<times> string) option \<Rightarrow> bool" where
  "enough f s res \<longleftrightarrow>
     (\<forall>v r. res = Some (v, r) \<longrightarrow> length r < length s \<and> (\<forall>m. length s \<le> m + length r \<longrightarrow> f m = Some (v, r)))"

lemma enoughI:
  assumes "\<And>v r. res = Some (v, r) \<Longrightarrow> length r < length s"
    and "\<And>m v r. res = Some (v, r) \<Longrightarrow> length s \<le> Suc m + length r \<Longrightarrow> f (Suc m) = Some (v, r)"
  shows "enough f s res"
  unfolding enough_def
proof (intro allI impI conjI)
  fix v r m
  assume r: "res = Some (v, r)"
  then show l: "length r < length s" by (rule assms(1))
  assume "length s \<le> m + length r"
  with l r assms(2) show "f m = Some (v, r)" by (cases m) auto
qed

lemma enoughD:
  assumes "enough f s res" and "res = Some (v, r)"
  shows "length r < length s" and "length s \<le> m + length r \<Longrightarrow> f m = Some (v, r)"
  using assms by (auto simp: enough_def)

lemma skip_ws_Cons: "skip_ws s = c # t \<Longrightarrow> length t < length s"
  using skip_ws_shorter [of s] by simp

lemma scan_items_enough:
  assumes V: "\<And>t. enough (\<lambda>m. scan_value m t) t (scan_value n t)"
    and I: "\<And>acc t. enough (\<lambda>m. scan_items m acc t) t (scan_items n acc t)"
  shows "enough (\<lambda>m. scan_items m acc s) s (scan_items (Suc n) acc s)"
proof (rule enoughI)
  fix v r
  assume a: "scan_items (Suc n) acc s = Some (v, r)"
  then obtain w r1 d r2 where v: "scan_value n s = Some (w, r1)" and ws: "skip_ws r1 = d # r2"
    by (auto split: option.splits list.splits)
  have l: "length r1 < length s" "length r2 < length r1" "length (skip_ws r2) \<le> length r2"
    using enoughD(1) [OF V v] skip_ws_Cons [OF ws] by (simp_all add: skip_ws_shorter)
  have r: "length r \<le> length r2"
  proof (cases "d = CHR '',''")
    case True
    then have "scan_items n (acc @ [w]) (skip_ws r2) = Some (v, r)" using a v ws by simp
    then show ?thesis using enoughD(1) [OF I] l(3) by fastforce
  next
    case False
    then show ?thesis using a v ws by (simp split: if_splits)
  qed
  then show "length r < length s" using l by simp
  fix m
  assume m: "length s \<le> Suc m + length r"
  have "scan_value m s = Some (w, r1)" using enoughD(2) [OF V v, of m] m l r by linarith
  moreover have "d = CHR '','' \<Longrightarrow> scan_items m (acc @ [w]) (skip_ws r2) = Some (v, r)"
    using a v ws m l by - (rule enoughD(2) [OF I], auto)
  ultimately show "scan_items (Suc m) acc s = Some (v, r)"
    using a v ws by (auto split: if_splits)
qed

lemma scan_members_enough:
  assumes V: "\<And>t. enough (\<lambda>m. scan_value m t) t (scan_value n t)"
    and I: "\<And>acc t. enough (\<lambda>m. scan_members m acc t) t (scan_members n acc t)"
  shows "enough (\<lambda>m. scan_members m acc s) s (scan_members (Suc n) acc s)"
proof (rule enoughI)
  fix v r
  assume a: "scan_members (Suc n) acc s = Some (v, r)"
  then obtain c s' k r1 r2 w r3 d r4 where s: "s = c # s'" "byte_of c = (34 :: nat)"
    and k: "scan_string s' = Some (k, r1)" "skip_ws r1 = CHR '':'' # r2"
    and v: "scan_value n (skip_ws r2) = Some (w, r3)" and ws: "skip_ws r3 = d # r4"
    by (auto split: option.splits list.splits if_splits)
  have l: "length r1 < length s'" "length r2 < length r1" "length (skip_ws r2) \<le> length r2"
      "length r3 < length (skip_ws r2)" "length r4 < length r3" "length (skip_ws r4) \<le> length r4"
    using scan_string_shorter [OF k(1)] enoughD(1) [OF V v] skip_ws_Cons [OF ws] skip_ws_Cons [OF k(2)]
    by (simp_all add: skip_ws_shorter)
  have r: "length r \<le> length r4"
  proof (cases "d = CHR '',''")
    case True
    then have "scan_members n (AList.update k w acc) (skip_ws r4) = Some (v, r)" using a v ws k s by simp
    then show ?thesis using enoughD(1) [OF I] l(6) by fastforce
  next
    case False
    then show ?thesis using a v ws k s by (simp split: if_splits)
  qed
  then show "length r < length s" using l s(1) by simp
  fix m
  assume m: "length s \<le> Suc m + length r"
  have "scan_value m (skip_ws r2) = Some (w, r3)" using enoughD(2) [OF V v, of m] m l r s(1) by simp
  moreover have "d = CHR '','' \<Longrightarrow> scan_members m (AList.update k w acc) (skip_ws r4) = Some (v, r)"
    using a v ws m l k s by - (rule enoughD(2) [OF I], auto)
  ultimately show "scan_members (Suc m) acc s = Some (v, r)"
    using a v ws k s by (auto split: if_splits)
qed

lemma scan_value_enough:
  assumes I: "\<And>acc t. enough (\<lambda>m. scan_items m acc t) t (scan_items n acc t)"
    and M: "\<And>acc t. enough (\<lambda>m. scan_members m acc t) t (scan_members n acc t)"
  shows "enough (\<lambda>m. scan_value m s) s (scan_value (Suc n) s)"
proof (rule enoughI)
  fix v r
  assume a: "scan_value (Suc n) s = Some (v, r)"
  then obtain c s' where s: "s = c # s'" by (cases s) auto
  have w: "length (skip_ws s') \<le> length s'" by (rule skip_ws_shorter)
  have lit: "scan_literal x u (c # s') = Some (v, r) \<Longrightarrow> x \<noteq> [] \<Longrightarrow> length r < length s" for x u
    by (auto simp: scan_literal_def s split: if_splits)
  have items: "scan_items n [] (d # t) = Some (v, r) \<Longrightarrow> skip_ws s' = d # t \<Longrightarrow> length r < length s" for d t
    using enoughD(1) [OF I, of "[]" "d # t" v r] w s by simp
  have members: "scan_members n [] (d # t) = Some (v, r) \<Longrightarrow> skip_ws s' = d # t \<Longrightarrow> length r < length s" for d t
    using enoughD(1) [OF M, of "[]" "d # t" v r] w s by simp
  show "length r < length s"
    using a items members lit skip_ws_Cons [of s'] scan_number_shorter [of s v r] scan_string_shorter [of s']
    by (auto simp: s less_SucI split: if_splits list.splits)
  fix m
  assume m: "length s \<le> Suc m + length r"
  have "skip_ws s' = d # t \<Longrightarrow> scan_items n [] (d # t) = Some (v, r) \<Longrightarrow> scan_items m [] (d # t) = Some (v, r)" for d t
    using m w s by - (rule enoughD(2) [OF I], auto)
  moreover have "skip_ws s' = d # t \<Longrightarrow> scan_members n [] (d # t) = Some (v, r) \<Longrightarrow> scan_members m [] (d # t) = Some (v, r)" for d t
    using m w s by - (rule enoughD(2) [OF M], auto)
  ultimately show "scan_value (Suc m) s = Some (v, r)"
    using a by (cases "byte_of c = (34 :: nat)"; cases "skip_ws s'") (simp_all add: s, auto split: if_splits)
qed

lemma scan_enough:
  "enough (\<lambda>m. scan_value m s) s (scan_value n s) \<and>
   enough (\<lambda>m. scan_items m acc s) s (scan_items n acc s) \<and>
   enough (\<lambda>m. scan_members m acc' s) s (scan_members n acc' s)"
proof (induction n arbitrary: s acc acc')
  case 0
  then show ?case by (simp add: enough_def)
next
  case (Suc n)
  then show ?case using scan_value_enough scan_items_enough scan_members_enough by blast
qed

text \<open>\<^verbatim>\<open>loads\<close> is the decoder without a bound on its recursion.\<close>

lemma loads_fuel:
  assumes "scan_value n (skip_ws s) = Some (v, r)" and "skip_ws r = []"
  shows "loads s = Inr v"
proof -
  have "enough (\<lambda>m. scan_value m (skip_ws s)) (skip_ws s) (scan_value n (skip_ws s))" using scan_enough by blast
  from enoughD(2) [OF this assms(1), of "Suc (length s)"] skip_ws_shorter [of s]
  have "scan_value (Suc (length s)) (skip_ws s) = Some (v, r)" by (simp del: scan_value.simps)
  with assms(2) show ?thesis by (simp add: loads_def del: scan_value.simps)
qed

end
