(* ===== verification/Elements.thy ===== *)
theory Elements
  imports Dns Json
begin

text \<open>
  The elements a shim can run (\<^verbatim>\<open>Element.py\<close> and \<^verbatim>\<open>elements/*\<close>): one state per element, its constructor, \<^verbatim>\<open>init\<close>,
  \<^verbatim>\<open>configure\<close>, \<^verbatim>\<open>process_pkt\<close> and \<^verbatim>\<open>shutdown\<close>.  An element acts on its own state and on the world the shim gives it:
  log files, messages for the controller and frames for the data socket.

  The code the elements call outside this repository's own is collected in one record of arguments: the parser and the
  serialiser of frames (\<^verbatim>\<open>dpkt\<close>, \<^verbatim>\<open>dumbnet\<close>), the DNS parser, \<^verbatim>\<open>zlib\<close> and \<^verbatim>\<open>base64\<close>, membership in a bloom filter
  (\<^verbatim>\<open>pybloomfilter\<close>), the fingerprints of scapy's \<^verbatim>\<open>p0f\<close>, and the files read at start.

  A packet argument is either one frame (a string) or a list of frames.  The shim passes lists; some elements iterate over
  their argument, others parse it as one frame.
\<close>

section \<open>The world of an element\<close>

datatype data = Frame string | Frames "string list"

text \<open>Iterating over a string gives its characters.\<close>

fun data_items :: "data \<Rightarrow> string list" where
  "data_items (Frame s) = map (\<lambda>c. [c]) s"
| "data_items (Frames fs) = fs"

definition data_len :: "data \<Rightarrow> nat" where
  "data_len d = length (data_items d)"

definition data_truthy :: "data \<Rightarrow> bool" where
  "data_truthy d = (data_len d > 0)"

text \<open>A line of a log file: text, the time, text, and the flow of the packet.\<close>

datatype log_line = Log string rat string flow_dict

record world =
  w_files :: "(string, log_line list) dict"
  w_sent :: "pval list"
  w_fwd :: "string list"

record elem_env =
  ee_ethernet :: "data \<Rightarrow> ethernet res"
  ee_dns :: "string \<Rightarrow> dns_msg res"
  ee_blacklists :: "string list list"
  ee_fieldvals :: "string list"
  ee_bloom :: "string list \<Rightarrow> string \<Rightarrow> bool"
  ee_p0f :: "data \<Rightarrow> string list list res"
  ee_udp_frame :: "string \<Rightarrow> string \<Rightarrow> string \<Rightarrow> string \<Rightarrow> int \<Rightarrow> int \<Rightarrow> string \<Rightarrow> string"
  ee_zlib_compress :: "string \<Rightarrow> string"
  ee_zlib_decompress :: "string \<Rightarrow> string res"
  ee_b64encode :: "string \<Rightarrow> string"
  ee_b64decode :: "string \<Rightarrow> string res"

section \<open>Element states\<close>

datatype elem_state =
    LoggerS
  | Logger1S
  | EqualS bool
  | LessS "pval option" int int
  | MoreS pval int int int
  | NoopS
  | TriggerAllS
  | DropS
  | DelayBufferS pval "data list"
  | ConstantS pval
  | CompressS bool bool
  | EncryptS
  | IDSS
  | LoadBalancerS
  | StatefulFirewallS
  | DnsDpiS handle_dns
  | P0fS "(string, string) dict"
  | BloomFilterS "pval option" "string list option"

record element =
  el_ed :: int
  el_file :: "string option"
  el_state :: elem_state

text \<open>The classes \<^verbatim>\<open>mb_api.py\<close> imports, found by name in \<^verbatim>\<open>sys.modules\<close>, and their constructors.  \<^verbatim>\<open>DnsDpi\<close> reads its
  block lists there.\<close>

definition new_state :: "elem_env \<Rightarrow> string \<Rightarrow> elem_state res" where
  "new_state env class_name =
     (if class_name = ''Logger'' then Inr LoggerS
      else if class_name = ''Logger1'' then Inr Logger1S
      else if class_name = ''TriggerAll'' then Inr TriggerAllS
      else if class_name = ''DnsDpi'' then rbind (handle_dns_init (ee_blacklists env)) (\<lambda>h. Inr (DnsDpiS h))
      else if class_name = ''P0f'' then Inr (P0fS [])
      else if class_name = ''Drop'' then Inr DropS
      else if class_name = ''Noop'' then Inr NoopS
      else if class_name = ''BloomFilter'' then Inr (BloomFilterS None None)
      else if class_name = ''DelayBuffer'' then Inr (DelayBufferS (PvInt 1) [])
      else if class_name = ''Constant'' then Inr (ConstantS (PvStr []))
      else if class_name = ''Compress'' then Inr (CompressS False True)
      else if class_name = ''Encrypt'' then Inr EncryptS
      else if class_name = ''StatefulFirewall'' then Inr StatefulFirewallS
      else if class_name = ''IDS'' then Inr IDSS
      else if class_name = ''LoadBalancer'' then Inr LoadBalancerS
      else if class_name = ''Less'' then Inr (LessS None 0 0)
      else if class_name = ''More'' then Inr (MoreS (PvInt 2) 0 0 0)
      else if class_name = ''Equal'' then Inr (EqualS False)
      else Inl KeyError)"

definition new_element :: "elem_env \<Rightarrow> string \<Rightarrow> int \<Rightarrow> element res" where
  "new_element env class_name ed =
     rbind (new_state env class_name) (\<lambda>st. Inr \<lparr>el_ed = ed, el_file = None, el_state = st\<rparr>)"

section \<open>Parameters\<close>

definition pv_getitem :: "pval \<Rightarrow> string \<Rightarrow> pval res" where
  "pv_getitem v k = (case v of PvDict d \<Rightarrow> dict_getitem d k | _ \<Rightarrow> Inl TypeError)"

text \<open>\<^verbatim>\<open>k in params\<close>: a key of a dictionary, an item of a list, a part of a string.\<close>

fun is_infix :: "string \<Rightarrow> string \<Rightarrow> bool" where
  "is_infix k [] = (k = [])"
| "is_infix k (c # s) = (take (length k) (c # s) = k \<or> is_infix k s)"

definition pv_contains :: "string \<Rightarrow> pval \<Rightarrow> bool res" where
  "pv_contains k v =
     (case v of
        PvDict d \<Rightarrow> Inr (has_key d k)
      | PvList l \<Rightarrow> Inr (PvStr k \<in> set l)
      | PvStr s \<Rightarrow> Inr (is_infix k s)
      | _ \<Rightarrow> Inl TypeError)"

definition pv_rat :: "pval \<Rightarrow> rat option" where
  "pv_rat v = (case v of PvInt n \<Rightarrow> Some (of_int n) | PvNum q \<Rightarrow> Some q | PvBool b \<Rightarrow> Some (if b then 1 else 0) | _ \<Rightarrow> None)"

text \<open>Python 2 orders \<^verbatim>\<open>None\<close> before every number and every number before strings, lists and dictionaries.\<close>

definition int_ge :: "int \<Rightarrow> pval \<Rightarrow> bool" where
  "int_ge n v = (case pv_rat v of Some q \<Rightarrow> q \<le> of_int n | None \<Rightarrow> v = PvNone)"

definition int_gt :: "int \<Rightarrow> pval \<Rightarrow> bool" where
  "int_gt n v = (case pv_rat v of Some q \<Rightarrow> q < of_int n | None \<Rightarrow> v = PvNone)"

text \<open>\<^verbatim>\<open>init\<close> of the elements with a log file: the name is the parameter followed by the descriptor; opening for appending
  creates the file.\<close>

definition log_filename :: "element \<Rightarrow> pval \<Rightarrow> string res" where
  "log_filename el params =
     rbind (pv_getitem params ''file_name'') (\<lambda>v. case v of PvStr s \<Rightarrow> Inr (s @ dump_int (el_ed el)) | _ \<Rightarrow> Inl TypeError)"

definition open_file :: "element \<Rightarrow> string \<Rightarrow> world \<Rightarrow> element \<times> world" where
  "open_file el filename w = (el\<lparr>el_file := Some filename\<rparr>, w\<lparr>w_files := ddict_touch [] filename (w_files w)\<rparr>)"

definition open_log :: "element \<Rightarrow> pval \<Rightarrow> world \<Rightarrow> (element \<times> world) res" where
  "open_log el params w = rbind (log_filename el params) (\<lambda>filename. Inr (open_file el filename w))"

text \<open>\<^verbatim>\<open>Less.init\<close>, \<^verbatim>\<open>More.init\<close>: the attribute \<^verbatim>\<open>drop_count\<close> only exists once a true value was given.\<close>

definition less_init :: "element \<Rightarrow> pval \<Rightarrow> world \<Rightarrow> int \<Rightarrow> int \<Rightarrow> pval option \<Rightarrow> (element \<times> world) res" where
  "less_init el params w pkt_count total_count old =
     rbind (log_filename el params) (\<lambda>filename.
     rbind (pv_getitem params ''drop_count'') (\<lambda>drop_count.
     case open_file el filename w of
       (el', w') \<Rightarrow> Inr (el'\<lparr>el_state := LessS (if pv_truthy drop_count then Some drop_count else old) pkt_count total_count\<rparr>, w')))"

definition more_init :: "element \<Rightarrow> pval \<Rightarrow> world \<Rightarrow> pval \<Rightarrow> int \<Rightarrow> int \<Rightarrow> int \<Rightarrow> (element \<times> world) res" where
  "more_init el params w rate total_count pkt_count inflation_count =
     rbind (log_filename el params) (\<lambda>filename.
     rbind (pv_getitem params ''inflation_rate'') (\<lambda>inflation_rate.
     let rate' = (if pv_truthy inflation_rate \<and> \<not> int_ge 1 inflation_rate then inflation_rate else rate)
     in case open_file el filename w of
          (el', w') \<Rightarrow> Inr (el'\<lparr>el_state := MoreS rate' total_count pkt_count inflation_count\<rparr>, w')))"

text \<open>\<^verbatim>\<open>BloomFilter.init\<close>: the parameters are stored, but the filter is built with constants and the values of the
  file \<^verbatim>\<open>fieldvals\<close>.\<close>

definition pv_has_key :: "pval \<Rightarrow> string \<Rightarrow> bool res" where
  "pv_has_key v k = (case v of PvDict d \<Rightarrow> Inr (has_key d k) | _ \<Rightarrow> Inl AttributeError)"

definition bloom_init :: "elem_env \<Rightarrow> element \<Rightarrow> pval \<Rightarrow> pval option \<Rightarrow> element res" where
  "bloom_init env el params filename =
     rbind (pv_has_key params ''bf_size'') (\<lambda>_. Inr (el\<lparr>el_state := BloomFilterS filename (Some (map rstrip (ee_fieldvals env)))\<rparr>))"

definition elem_init :: "elem_env \<Rightarrow> element \<Rightarrow> pval \<Rightarrow> world \<Rightarrow> (element \<times> world) res" where
  "elem_init env el params w =
     (case el_state el of
        LessS d p t \<Rightarrow> less_init el params w p t d
      | MoreS r t p i \<Rightarrow> more_init el params w r t p i
      | DelayBufferS sz buf \<Rightarrow>
          rbind (pv_contains ''buffer_size'' params) (\<lambda>b.
          if b then rbind (pv_getitem params ''buffer_size'') (\<lambda>v. Inr (el\<lparr>el_state := DelayBufferS v buf\<rparr>, w)) else Inr (el, w))
      | ConstantS message \<Rightarrow>
          rbind (pv_contains ''message'' params) (\<lambda>b.
          if b then rbind (pv_getitem params ''message'') (\<lambda>v. Inr (el\<lparr>el_state := ConstantS v\<rparr>, w)) else Inr (el, w))
      | CompressS _ _ \<Rightarrow>
          rbind (pv_contains ''base64'' params) (\<lambda>b. rbind (pv_contains ''decompress'' params) (\<lambda>d.
          Inr (el\<lparr>el_state := CompressS b (\<not> d)\<rparr>, w)))
      | BloomFilterS filename _ \<Rightarrow> rbind (bloom_init env el params filename) (\<lambda>el'. Inr (el', w))
      | NoopS \<Rightarrow> Inr (el, w)
      | TriggerAllS \<Rightarrow> Inr (el, w)
      | DropS \<Rightarrow> Inr (el, w)
      | DnsDpiS _ \<Rightarrow> Inr (el, w)
      | P0fS _ \<Rightarrow> Inr (el, w)
      | _ \<Rightarrow> open_log el params w)"

text \<open>\<^verbatim>\<open>configure\<close> does nothing, except for the bloom filter.\<close>

definition elem_configure :: "element \<Rightarrow> pval \<Rightarrow> element res" where
  "elem_configure el params =
     (case el_state el of
        BloomFilterS filename lib \<Rightarrow>
          rbind (pv_has_key params ''sentinelfile'') (\<lambda>b.
          rbind (if b then rbind (pv_getitem params ''sentinelfile'') (\<lambda>v. Inr (Some v)) else Inr filename) (\<lambda>filename'.
          rbind (pv_has_key params ''addsentinel'') (\<lambda>a.
          if a then
            rbind (pv_getitem params ''addsentinel'') (\<lambda>sentinel.
            case (lib, sentinel) of
              (Some vs, PvStr s) \<Rightarrow> Inr (el\<lparr>el_state := BloomFilterS filename' (Some (if vs \<noteq> [] then vs @ [s] else vs))\<rparr>)
            | (Some vs, _) \<Rightarrow> if vs \<noteq> [] then Inl TypeError else Inr (el\<lparr>el_state := BloomFilterS filename' lib\<rparr>)
            | (None, _) \<Rightarrow> Inr (el\<lparr>el_state := BloomFilterS filename' lib\<rparr>))
          else Inr (el\<lparr>el_state := BloomFilterS filename' lib\<rparr>))))
      | _ \<Rightarrow> Inr el)"

text \<open>\<^verbatim>\<open>shutdown\<close> closes the log file, if there is one, and is true.\<close>

definition elem_shutdown :: "element \<Rightarrow> bool res" where
  "elem_shutdown el =
     (case el_state el of
        NoopS \<Rightarrow> Inr True
      | TriggerAllS \<Rightarrow> Inr True
      | DropS \<Rightarrow> Inr True
      | DelayBufferS _ _ \<Rightarrow> Inr True
      | ConstantS _ \<Rightarrow> Inr True
      | CompressS _ _ \<Rightarrow> Inr True
      | DnsDpiS _ \<Rightarrow> Inr True
      | P0fS _ \<Rightarrow> Inr True
      | BloomFilterS _ _ \<Rightarrow> Inr True
      | _ \<Rightarrow> (case el_file el of None \<Rightarrow> Inl AttributeError | Some _ \<Rightarrow> Inr True))"

section \<open>Services of the base class\<close>

definition elem_extract_flow :: "elem_env \<Rightarrow> data \<Rightarrow> flow_dict res" where
  "elem_extract_flow env buf = rbind (ee_ethernet env buf) extract_flow"

definition write_log :: "element \<Rightarrow> log_line \<Rightarrow> world \<Rightarrow> world res" where
  "write_log el line w =
     (case el_file el of
        None \<Rightarrow> Inl AttributeError
      | Some f \<Rightarrow> Inr (w\<lparr>w_files := AList.update f ((case map_of (w_files w) f of None \<Rightarrow> [] | Some ls \<Rightarrow> ls) @ [line]) (w_files w)\<rparr>))"

text \<open>A trigger: the element's descriptor and the type, overridden by the given entries; the shim sets the type again.\<close>

definition raise_trigger :: "element \<Rightarrow> (string, pval) dict \<Rightarrow> world \<Rightarrow> world" where
  "raise_trigger el trigger_params w =
     (let trigger = foldl (\<lambda>t (k, v). AList.update k v t) [(''ed'', PvInt (el_ed el)), (''type'', PvStr ''trigger'')] trigger_params
      in w\<lparr>w_sent := w_sent w @ [PvDict (AList.update ''type'' (PvStr ''trigger'') trigger)]\<rparr>)"

text \<open>Logging every item of the argument.\<close>

definition log_items :: "elem_env \<Rightarrow> element \<Rightarrow> (nat \<Rightarrow> flow_dict \<Rightarrow> log_line) \<Rightarrow> data list \<Rightarrow> world \<Rightarrow> world res" where
  "log_items env el line bufs w =
     rfoldM (\<lambda>w (index, buf). rbind (elem_extract_flow env buf) (\<lambda>flow. write_log el (line index flow) w))
       w (zip [0..<length bufs] bufs)"

abbreviation item_bufs :: "data \<Rightarrow> data list" where
  "item_bufs d \<equiv> map Frame (data_items d)"

section \<open>Processing\<close>

type_synonym processed = "(element \<times> world \<times> data option) res"

definition logger_process :: "elem_env \<Rightarrow> rat \<Rightarrow> element \<Rightarrow> data \<Rightarrow> world \<Rightarrow> processed" where
  "logger_process env now el packets w =
     rbind (log_items env el (\<lambda>_ flow. Log [] now '' '' flow) (item_bufs packets) w) (\<lambda>w'. Inr (el, w', Some packets))"

definition equal_process :: "elem_env \<Rightarrow> rat \<Rightarrow> element \<Rightarrow> bool \<Rightarrow> data \<Rightarrow> world \<Rightarrow> processed" where
  "equal_process env now el packet_reached packets w =
     (if \<not> packet_reached then
        rbind (log_items env el (\<lambda>_ flow. Log [] now '' '' flow) (item_bufs packets) w) (\<lambda>w'.
        Inr (el\<lparr>el_state := EqualS (data_items packets \<noteq> [])\<rparr>, w', Some packets))
      else Inr (el, w, Some packets))"

text \<open>\<^verbatim>\<open>Less\<close>: the loop returns in its first round; an empty argument gives \<^verbatim>\<open>None\<close>.\<close>

definition less_process :: "elem_env \<Rightarrow> rat \<Rightarrow> element \<Rightarrow> pval option \<Rightarrow> int \<Rightarrow> int \<Rightarrow> data \<Rightarrow> world \<Rightarrow> processed" where
  "less_process env now el drop_count pkt_count total_count packets w =
     (case data_items packets of
        [] \<Rightarrow> Inr (el, w, None)
      | buf # rest \<Rightarrow>
          rbind (elem_extract_flow env (Frame buf)) (\<lambda>flow.
          let n = int (data_len packets); pkt = pkt_count + n; total = total_count + n
          in (case drop_count of
                None \<Rightarrow> Inl AttributeError
              | Some d \<Rightarrow>
                  if int_ge pkt d then
                    (case packets of
                       Frame _ \<Rightarrow> Inl TypeError
                     | Frames _ \<Rightarrow>
                         rbind (write_log el (Log (dump_int total @ '' DROPPED '') now '' '' flow) w) (\<lambda>w'.
                         Inr (el\<lparr>el_state := LessS drop_count 0 total\<rparr>, w', Some (Frames rest))))
                  else
                    rbind (write_log el (Log (dump_int total @ '' '') now '' '' flow) w) (\<lambda>w'.
                    Inr (el\<lparr>el_state := LessS drop_count pkt total\<rparr>, w', Some packets)))))"

text \<open>\<^verbatim>\<open>More\<close> with a rate of at least two: the argument is repeated that often; a list cannot be repeated a
  fractional number of times.\<close>

definition repeat_data :: "data \<Rightarrow> nat \<Rightarrow> data" where
  "repeat_data d n = (case d of Frame s \<Rightarrow> Frame (concat (replicate n s)) | Frames fs \<Rightarrow> Frames (concat (replicate n fs)))"

definition more_repeat :: "elem_env \<Rightarrow> rat \<Rightarrow> element \<Rightarrow> pval \<Rightarrow> data \<Rightarrow> world \<Rightarrow> processed" where
  "more_repeat env now el rate packets w =
     (case rate of
        PvInt n \<Rightarrow>
          (let out = repeat_data packets (nat n); total = dump_int (int (data_len out)) in
           rbind (log_items env el
                    (\<lambda>index flow. if index \<ge> data_len packets then Log [] now '' INFLATED '' flow
                                  else Log [] now ('' ORIGINAL '' @ total) flow) (item_bufs out) w) (\<lambda>w'.
           Inr (el, w', Some out)))
      | _ \<Rightarrow> Inl TypeError)"

text \<open>\<^verbatim>\<open>More\<close> with a rate between one and two: the last packet is repeated once enough packets were counted.\<close>

definition more_fraction :: "elem_env \<Rightarrow> rat \<Rightarrow> element \<Rightarrow> pval \<Rightarrow> rat \<Rightarrow> int \<Rightarrow> int \<Rightarrow> data \<Rightarrow> world \<Rightarrow> processed" where
  "more_fraction env now el rate r total_count pkt_count packets w =
     (let tenths = \<lfloor>(r - 1) * 10\<rfloor>; starting_pkt = 10 - tenths; inflation_count = tenths + 10;
          pkt = pkt_count + int (data_len packets)
      in rbind (log_items env el (\<lambda>_ flow. Log [] now '' ORIGINAL '' flow) (item_bufs packets) w) (\<lambda>w1.
         if pkt > starting_pkt then
           (case packets of
              Frames (f # fs) \<Rightarrow>
                rbind (elem_extract_flow env (Frame (last (f # fs)))) (\<lambda>flow.
                rbind (write_log el (Log [] now '' INFLATED '' flow) w1) (\<lambda>w2.
                Inr (el\<lparr>el_state := MoreS rate total_count (if pkt \<ge> inflation_count then 0 else pkt) inflation_count\<rparr>, w2,
                     Some (Frames ((f # fs) @ [last (f # fs)])))))
            | Frames [] \<Rightarrow> Inl TypeError
            | Frame _ \<Rightarrow> Inl AttributeError)
         else Inr (el\<lparr>el_state := MoreS rate total_count pkt inflation_count\<rparr>, w1, Some packets)))"

definition more_process :: "elem_env \<Rightarrow> rat \<Rightarrow> element \<Rightarrow> pval \<Rightarrow> int \<Rightarrow> int \<Rightarrow> int \<Rightarrow> data \<Rightarrow> world \<Rightarrow> processed" where
  "more_process env now el rate total_count pkt_count inflation_count packets w =
     (let total = total_count + int (data_len packets); el1 = el\<lparr>el_state := MoreS rate total pkt_count inflation_count\<rparr>
      in if \<not> int_gt 2 rate then more_repeat env now el1 rate packets w
         else (case pv_rat rate of
                 Some r \<Rightarrow> if r \<ge> 1 then more_fraction env now el1 rate r total pkt_count packets w else Inr (el1, w, None)
               | None \<Rightarrow> Inr (el1, w, None)))"

definition delay_process :: "element \<Rightarrow> pval \<Rightarrow> data list \<Rightarrow> data \<Rightarrow> world \<Rightarrow> processed" where
  "delay_process el bufferSize packetBuffer buf w =
     (let packetBuffer' = packetBuffer @ [buf]
      in if int_gt (int (length packetBuffer')) bufferSize
         then Inr (el\<lparr>el_state := DelayBufferS bufferSize (tl packetBuffer')\<rparr>, w, Some (hd packetBuffer'))
         else Inr (el\<lparr>el_state := DelayBufferS bufferSize packetBuffer'\<rparr>, w, None))"

text \<open>The dummies that parse their argument as one frame.\<close>

definition dummy_process :: "elem_env \<Rightarrow> rat \<Rightarrow> string \<Rightarrow> element \<Rightarrow> data \<Rightarrow> world \<Rightarrow> processed" where
  "dummy_process env now prefix el buf w =
     rbind (elem_extract_flow env buf) (\<lambda>flow.
     rbind (write_log el (Log prefix now '' '' flow) w) (\<lambda>w'. Inr (el, w', Some buf)))"

definition constant_process :: "elem_env \<Rightarrow> element \<Rightarrow> pval \<Rightarrow> data \<Rightarrow> world \<Rightarrow> processed" where
  "constant_process env el message buf w =
     rbind (ee_ethernet env buf) (\<lambda>eth.
     case eth_data eth of
       EthRaw \<Rightarrow> Inl AttributeError
     | EthIP ip \<Rightarrow>
         (case (ip_data ip, message) of
            (NoPorts, _) \<Rightarrow> Inl AttributeError
          | (Ports sport dport _, PvStr m) \<Rightarrow>
              Inr (el, w, Some (Frame (ee_udp_frame env (eth_src eth) (eth_dst eth) (ip_src ip) (ip_dst ip) sport dport m)))
          | (Ports _ _ _, _) \<Rightarrow> Inl TypeError))"

definition compress_payload :: "elem_env \<Rightarrow> bool \<Rightarrow> bool \<Rightarrow> string \<Rightarrow> string res" where
  "compress_payload env base64 compressing payload =
     (if base64 then
        (if compressing then Inr (ee_b64encode env (ee_zlib_compress env payload))
         else rbind (ee_b64decode env payload) (ee_zlib_decompress env))
      else (if compressing then Inr (ee_zlib_compress env payload) else ee_zlib_decompress env payload))"

definition compress_process :: "elem_env \<Rightarrow> element \<Rightarrow> bool \<Rightarrow> bool \<Rightarrow> data \<Rightarrow> world \<Rightarrow> processed" where
  "compress_process env el base64 compressing buf w =
     rbind (ee_ethernet env buf) (\<lambda>eth.
     if eth_type eth = ETH_TYPE_IP then
       (case eth_data eth of
          EthRaw \<Rightarrow> Inl AttributeError
        | EthIP ip \<Rightarrow>
            if ip_p ip = IP_PROTO_TCP then
              (case ip_data ip of
                 NoPorts \<Rightarrow> Inl AttributeError
               | Ports _ _ payload \<Rightarrow> rbind (compress_payload env base64 compressing payload) (\<lambda>_. Inr (el, w, None)))
            else if ip_p ip = IP_PROTO_UDP then
              (case ip_data ip of
                 NoPorts \<Rightarrow> Inl AttributeError
               | Ports sport dport payload \<Rightarrow>
                   rbind (compress_payload env base64 compressing payload) (\<lambda>p.
                   Inr (el, w, Some (Frame (ee_udp_frame env (eth_src eth) (eth_dst eth) (ip_src ip) (ip_dst ip) sport dport p)))))
            else Inr (el, w, None))
     else Inr (el, w, None))"

definition dnsdpi_process :: "elem_env \<Rightarrow> element \<Rightarrow> handle_dns \<Rightarrow> data \<Rightarrow> world \<Rightarrow> processed" where
  "dnsdpi_process env el h buf w =
     rbind (ee_ethernet env buf) (\<lambda>eth.
     rbind (decode_dns (ee_dns env) eth h) (\<lambda>(h', response).
     let el' = el\<lparr>el_state := DnsDpiS h'\<rparr>
     in case response of
          Some (True, src_ip, bad_domain_name) \<Rightarrow>
            rbind (inet_ntoa src_ip) (\<lambda>src.
            Inr (el', raise_trigger el' [(''dns_dpi_type'', PvStr ''BadDomainEvent''), (''src_ip'', PvStr src),
                   (''bad_domain_name'', case bad_domain_name of Some n \<Rightarrow> PvStr n | None \<Rightarrow> PvNone)] w, Some buf))
        | _ \<Rightarrow> Inr (el', w, Some buf)))"

definition p0f_process :: "elem_env \<Rightarrow> element \<Rightarrow> (string, string) dict \<Rightarrow> data \<Rightarrow> world \<Rightarrow> processed" where
  "p0f_process env el os_map buf w =
     rbind (ee_ethernet env buf) (\<lambda>eth.
     if eth_type eth = ETH_TYPE_IP then
       (case eth_data eth of
          EthRaw \<Rightarrow> Inl AttributeError
        | EthIP ip \<Rightarrow>
            rbind (inet_ntoa (ip_dst ip)) (\<lambda>_.
            rbind (inet_ntoa (ip_src ip)) (\<lambda>src_ip.
            if \<not> has_key os_map src_ip \<and> ip_p ip = IP_PROTO_TCP then
              rbind (ee_p0f env buf) (\<lambda>result.
              case result of
                (os # version # _ # _) # _ \<Rightarrow>
                  Inr (el\<lparr>el_state := P0fS (AList.update src_ip os os_map)\<rparr>,
                       raise_trigger el [(''p0f_trigger_type'', PvStr ''OSDetection''), (''OS'', PvStr os), (''OSVersion'', PvStr version),
                         (''src_ip'', PvStr src_ip)] w, Some buf)
              | _ \<Rightarrow> Inr (el, w, Some buf))
            else Inr (el, w, Some buf))))
     else Inr (el, w, Some buf))"

definition bloom_process :: "elem_env \<Rightarrow> element \<Rightarrow> string list option \<Rightarrow> data \<Rightarrow> world \<Rightarrow> processed" where
  "bloom_process env el lib buf w =
     rbind (elem_extract_flow env buf) (\<lambda>_.
     rbind (ee_ethernet env buf) (\<lambda>eth.
     if eth_type eth = ETH_TYPE_IP then
       (case eth_data eth of
          EthRaw \<Rightarrow> Inl AttributeError
        | EthIP ip \<Rightarrow>
            if ip_p ip = IP_PROTO_TCP then
              (case (ip_data ip, lib) of
                 (NoPorts, _) \<Rightarrow> Inl AttributeError
               | (Ports _ dport _, None) \<Rightarrow> Inl TypeError
               | (Ports _ dport _, Some vs) \<Rightarrow>
                   if ee_bloom env vs (dump_int dport)
                   then Inr (el, raise_trigger el [(''BF_trigger_type'', PvStr ''VAL_DETECTED'')] w, Some buf)
                   else Inr (el, w, Some buf))
            else Inr (el, w, Some buf))
     else Inr (el, w, Some buf)))"

definition process_pkt :: "elem_env \<Rightarrow> rat \<Rightarrow> element \<Rightarrow> data \<Rightarrow> world \<Rightarrow> processed" where
  "process_pkt env now el buf w =
     (case el_state el of
        LoggerS \<Rightarrow> logger_process env now el buf w
      | Logger1S \<Rightarrow> logger_process env now el buf w
      | EqualS packet_reached \<Rightarrow> equal_process env now el packet_reached buf w
      | LessS d p t \<Rightarrow> less_process env now el d p t buf w
      | MoreS r t p i \<Rightarrow> more_process env now el r t p i buf w
      | NoopS \<Rightarrow> Inr (el, w, Some buf)
      | TriggerAllS \<Rightarrow>
          Inr (el, raise_trigger el [(''type'', PvStr ''trigger''), (''subtype'', PvStr ''TriggerAll''), (''ed'', PvInt (el_ed el))] w, Some buf)
      | DropS \<Rightarrow> Inr (el, w, None)
      | DelayBufferS sz b \<Rightarrow> delay_process el sz b buf w
      | ConstantS m \<Rightarrow> constant_process env el m buf w
      | CompressS b c \<Rightarrow> compress_process env el b c buf w
      | EncryptS \<Rightarrow> dummy_process env now ''Encrypt '' el buf w
      | IDSS \<Rightarrow> dummy_process env now ''IDS '' el buf w
      | LoadBalancerS \<Rightarrow> dummy_process env now ''LoadBalancer '' el buf w
      | StatefulFirewallS \<Rightarrow> dummy_process env now [] el buf w
      | DnsDpiS h \<Rightarrow> dnsdpi_process env el h buf w
      | P0fS m \<Rightarrow> p0f_process env el m buf w
      | BloomFilterS _ lib \<Rightarrow> bloom_process env el lib buf w)"

section \<open>Runs\<close>

text \<open>The answers of an element to a sequence of arguments.\<close>

fun run_elem :: "elem_env \<Rightarrow> rat \<Rightarrow> element \<Rightarrow> data list \<Rightarrow> world \<Rightarrow> (element \<times> world \<times> data option list) res" where
  "run_elem env now el [] w = Inr (el, w, [])"
| "run_elem env now el (buf # bufs) w =
     rbind (process_pkt env now el buf w) (\<lambda>(el1, w1, out).
     rbind (run_elem env now el1 bufs w1) (\<lambda>(el2, w2, outs). Inr (el2, w2, out # outs)))"

text \<open>A delay buffer of size \<open>k\<close> is a queue: it answers with the arguments in their order, \<open>k\<close> later.\<close>

lemma delay_step:
  assumes "el_state el = DelayBufferS (PvInt (int k)) q" and "length q \<le> k"
  shows "process_pkt env now el buf w =
    (if length q < k then Inr (el\<lparr>el_state := DelayBufferS (PvInt (int k)) (q @ [buf])\<rparr>, w, None)
     else Inr (el\<lparr>el_state := DelayBufferS (PvInt (int k)) (tl (q @ [buf]))\<rparr>, w, Some (hd (q @ [buf]))))"
  using assms by (auto simp: process_pkt_def delay_process_def int_gt_def pv_rat_def Let_def)

lemma delay_run:
  assumes "el_state el = DelayBufferS (PvInt (int k)) q" and "length q \<le> k"
  shows "\<exists>el' q'. run_elem env now el bufs w =
      Inr (el', w, replicate (min (length bufs) (k - length q)) None @ map Some (take (length q + length bufs - k) (q @ bufs))) \<and>
    el_state el' = DelayBufferS (PvInt (int k)) q' \<and> length q' \<le> k \<and> q' = drop (length q + length bufs - k) (q @ bufs)"
  using assms
proof (induction bufs arbitrary: el q)
  case Nil
  then show ?case by simp
next
  case (Cons buf bufs)
  show ?case
  proof (cases "length q < k")
    case True
    let ?el = "el\<lparr>el_state := DelayBufferS (PvInt (int k)) (q @ [buf])\<rparr>"
    have "process_pkt env now el buf w = Inr (?el, w, None)"
      using delay_step [OF Cons.prems] True by simp
    moreover have "k - length q = Suc (k - Suc (length q))" using True by simp
    moreover note Cons.IH [of ?el "q @ [buf]"]
    ultimately show ?thesis using True by (auto simp: min_def)
  next
    case False
    obtain h t where ht: "q @ [buf] = h # t" by (cases q) auto
    let ?el = "el\<lparr>el_state := DelayBufferS (PvInt (int k)) t\<rparr>"
    have q: "length q = k" using False Cons.prems(2) by simp
    have t: "length t = k" using arg_cong [OF ht, of length] q by simp
    have "q @ buf # bufs = (q @ [buf]) @ bufs" by simp
    then have all: "q @ buf # bufs = h # t @ bufs" unfolding ht by simp
    have "process_pkt env now el buf w = Inr (?el, w, Some h)"
      using delay_step [OF Cons.prems] False ht by simp
    with Cons.IH [of ?el t] t q show ?thesis
      unfolding all by (auto simp del: take_append drop_append)
  qed
qed

text \<open>\<^verbatim>\<open>Less\<close> with a count \<open>k\<close> drops every \<open>k\<close>-th frame it is given.\<close>

definition frame_ok :: "elem_env \<Rightarrow> string \<Rightarrow> bool" where
  "frame_ok env f \<longleftrightarrow> (\<exists>flow. elem_extract_flow env (Frame f) = Inr flow)"

lemma write_log_open: "el_file el = Some f \<Longrightarrow> \<exists>w'. write_log el line w = Inr w'"
  by (simp add: write_log_def)

lemma less_step:
  assumes "el_state el = LessS (Some (PvInt (int k))) (int p) (int t)" and "el_file el = Some file" and "frame_ok env f"
  shows "\<exists>w'. process_pkt env now el (Frames [f]) w =
    Inr (el\<lparr>el_state := LessS (Some (PvInt (int k))) (if k \<le> p + 1 then 0 else int (p + 1)) (int (t + 1))\<rparr>, w',
         Some (Frames (if k \<le> p + 1 then [] else [f])))"
  using assms
  by (auto simp: process_pkt_def less_process_def frame_ok_def data_len_def int_ge_def pv_rat_def Let_def write_log_def)

lemma less_run:
  assumes "el_state el = LessS (Some (PvInt (int k))) (int p) (int t)" and "el_file el = Some file"
    and "\<forall>f \<in> set fs. frame_ok env f" and "0 < k" and "p < k"
  shows "\<exists>el' w' outs. run_elem env now el (map (\<lambda>f. Frames [f]) fs) w = Inr (el', w', outs) \<and>
    outs = map (\<lambda>i. Some (Frames (if (p + i + 1) mod k = 0 then [] else [fs ! i]))) [0..<length fs] \<and>
    el_state el' = LessS (Some (PvInt (int k))) (int ((p + length fs) mod k)) (int (t + length fs)) \<and> el_file el' = Some file"
  using assms
proof (induction fs arbitrary: el p t w)
  case Nil
  then show ?case by simp
next
  case (Cons f fs)
  define p' where "p' = (if k \<le> p + 1 then 0 else p + 1)"
  have p': "p' < k" "p' = (p + 1) mod k" "k \<le> p + 1 \<longleftrightarrow> (p + 1) mod k = 0"
    using Cons.prems(4,5) by (auto simp: p'_def mod_if)
  let ?el = "el\<lparr>el_state := LessS (Some (PvInt (int k))) (int p') (int (t + 1))\<rparr>"
  obtain w1 where step: "process_pkt env now el (Frames [f]) w =
      Inr (?el, w1, Some (Frames (if (p + 1) mod k = 0 then [] else [f])))"
    using less_step [OF Cons.prems(1,2), of env f now w] Cons.prems(3) p'(3) by (auto simp: p'_def)
  obtain el' w' where run: "run_elem env now ?el (map (\<lambda>f. Frames [f]) fs) w1 =
      Inr (el', w', map (\<lambda>i. Some (Frames (if (p' + i + 1) mod k = 0 then [] else [fs ! i]))) [0..<length fs])"
    and st: "el_state el' = LessS (Some (PvInt (int k))) (int ((p' + length fs) mod k)) (int (t + 1 + length fs))" "el_file el' = Some file"
    using Cons.IH [of ?el p' "t + 1" w1] Cons.prems p'(1) by auto
  have m: "(p' + i) mod k = (p + 1 + i) mod k" for i
    by (simp add: p'(2) mod_simps)
  have outs: "map (\<lambda>i. Some (Frames (if (p + i + 1) mod k = 0 then [] else [(f # fs) ! i]))) [0..<length (f # fs)] =
      Some (Frames (if (p + 1) mod k = 0 then [] else [f])) #
      map (\<lambda>i. Some (Frames (if (p' + i + 1) mod k = 0 then [] else [fs ! i]))) [0..<length fs]"
    using m [of "i + 1" for i] by (simp add: map_upt_Suc add.commute add.left_commute del: upt_Suc)
  show ?case
    unfolding outs using step run st m [of "length fs"] by (simp add: add.commute add.left_commute)
qed

section \<open>What an element can do to the world\<close>

text \<open>An element keeps its descriptor and its log file, never sends a frame itself, and every message it sends is a trigger
  whose first entry is the element's descriptor.\<close>

definition elem_trigger :: "pval \<Rightarrow> bool" where
  "elem_trigger v \<longleftrightarrow> (\<exists>x y rest. v = PvDict ((''ed'', x) # (''type'', y) # rest))"

definition elem_effect :: "element \<Rightarrow> world \<Rightarrow> element \<Rightarrow> world \<Rightarrow> bool" where
  "elem_effect el w el' w' \<longleftrightarrow>
     el_ed el' = el_ed el \<and> w_fwd w' = w_fwd w \<and> (\<exists>ts. w_sent w' = w_sent w @ ts \<and> list_all elem_trigger ts)"

lemma elem_effect_refl [simp]: "elem_effect el w el w"
  by (simp add: elem_effect_def)

lemma elem_effect_state [simp]: "elem_effect el w (el'\<lparr>el_state := st\<rparr>) w' = elem_effect el w el' w'"
  "elem_effect (el\<lparr>el_state := st\<rparr>) w el' w' = elem_effect el w el' w'"
  "elem_effect el w (el'\<lparr>el_file := fl\<rparr>) w' = elem_effect el w el' w'"
  by (simp_all add: elem_effect_def)

lemma write_log_effect: "write_log el line w = Inr w' \<Longrightarrow> w_fwd w' = w_fwd w \<and> w_sent w' = w_sent w"
  by (auto simp: write_log_def split: option.splits)

lemma log_items_effect:
  assumes "log_items env el line bufs w = Inr w'"
  shows "w_fwd w' = w_fwd w \<and> w_sent w' = w_sent w"
  using assms unfolding log_items_def
proof (rule rfoldM_invariant)
  fix s s' :: world and x
  assume "w_fwd s = w_fwd w \<and> w_sent s = w_sent w"
    and "(case x of (index, buf) \<Rightarrow> rbind (elem_extract_flow env buf) (\<lambda>flow. write_log el (line index flow) s)) = Inr s'"
  then show "w_fwd s' = w_fwd w \<and> w_sent s' = w_sent w"
    by (cases x) (auto simp: rbind_eq_Inr dest: write_log_effect)
qed simp

lemma keys_kept_update: "d = (a, x) # (b, y) # rest \<Longrightarrow> \<exists>x' y' rest'. AList.update k v d = (a, x') # (b, y') # rest'"
  by auto

lemma raise_trigger_effect: "elem_effect el w el (raise_trigger el ps w)"
proof -
  have "\<exists>x y rest. foldl (\<lambda>t (k, v). AList.update k v t) ((''ed'', a) # (''type'', b) # r) ps = (''ed'', x) # (''type'', y) # rest" for a b r
    by (induction ps arbitrary: a b r) auto
  then obtain x y rest where "foldl (\<lambda>t (k, v). AList.update k v t) [(''ed'', PvInt (el_ed el)), (''type'', PvStr ''trigger'')] ps =
      (''ed'', x) # (''type'', y) # rest"
    by metis
  then show ?thesis
    by (simp add: raise_trigger_def elem_effect_def elem_trigger_def)
qed

lemma effect_of_log: "elem_effect el w el w'" if "w_fwd w' = w_fwd w \<and> w_sent w' = w_sent w"
  using that by (simp add: elem_effect_def)

lemma more_effect:
  assumes "more_process env now el r t p i buf w = Inr (el', w', out)"
  shows "elem_effect el w el' w'"
  using assms
  by (auto simp: more_process_def more_repeat_def more_fraction_def rbind_eq_Inr Let_def elem_effect_def
      split: if_splits option.splits pval.splits data.splits list.splits dest!: log_items_effect write_log_effect)

lemma less_effect:
  assumes "less_process env now el d p t buf w = Inr (el', w', out)"
  shows "elem_effect el w el' w'"
  using assms
  by (auto simp: less_process_def rbind_eq_Inr Let_def elem_effect_def
      split: if_splits option.splits data.splits list.splits dest!: write_log_effect)

lemma logger_effect: "logger_process env now el buf w = Inr (el', w', out) \<Longrightarrow> elem_effect el w el' w'"
  by (auto simp: logger_process_def rbind_eq_Inr intro!: effect_of_log dest!: log_items_effect)

lemma equal_effect: "equal_process env now el b buf w = Inr (el', w', out) \<Longrightarrow> elem_effect el w el' w'"
  by (auto simp: equal_process_def rbind_eq_Inr intro!: effect_of_log split: if_splits dest!: log_items_effect)

lemma delay_effect: "delay_process el s q buf w = Inr (el', w', out) \<Longrightarrow> elem_effect el w el' w'"
  by (auto simp: delay_process_def Let_def split: if_splits)

lemma dummy_effect: "dummy_process env now pre el buf w = Inr (el', w', out) \<Longrightarrow> elem_effect el w el' w'"
  by (auto simp: dummy_process_def rbind_eq_Inr intro!: effect_of_log dest!: write_log_effect)

lemma constant_effect: "constant_process env el m buf w = Inr (el', w', out) \<Longrightarrow> elem_effect el w el' w'"
  by (auto simp: constant_process_def rbind_def split: sum.splits eth_data.splits l4.splits pval.splits)

lemma compress_effect: "compress_process env el b c buf w = Inr (el', w', out) \<Longrightarrow> elem_effect el w el' w'"
  by (auto simp: compress_process_def rbind_def split: sum.splits eth_data.splits l4.splits if_splits)

lemma dnsdpi_effect:
  assumes "dnsdpi_process env el h buf w = Inr (el', w', out)"
  shows "elem_effect el w el' w'"
proof -
  from assms obtain h' response where
    "(case response of
        Some (True, src_ip, bad_domain_name) \<Rightarrow>
          rbind (inet_ntoa src_ip) (\<lambda>src.
          Inr (el\<lparr>el_state := DnsDpiS h'\<rparr>, raise_trigger (el\<lparr>el_state := DnsDpiS h'\<rparr>)
             [(''dns_dpi_type'', PvStr ''BadDomainEvent''), (''src_ip'', PvStr src),
              (''bad_domain_name'', case bad_domain_name of Some n \<Rightarrow> PvStr n | None \<Rightarrow> PvNone)] w, Some buf))
      | _ \<Rightarrow> Inr (el\<lparr>el_state := DnsDpiS h'\<rparr>, w, Some buf)) = Inr (el', w', out)"
    unfolding dnsdpi_process_def rbind_eq_Inr Let_def by (auto split: prod.splits)
  then show ?thesis
    using raise_trigger_effect [of "el\<lparr>el_state := DnsDpiS h'\<rparr>" w]
    by (auto simp: rbind_def split: option.splits prod.splits bool.splits sum.splits)
qed

lemma p0f_effect:
  assumes "p0f_process env el m buf w = Inr (el', w', out)"
  shows "elem_effect el w el' w'"
  using assms raise_trigger_effect
  by (auto simp: p0f_process_def rbind_def split: sum.splits eth_data.splits if_splits list.splits)

lemma bloom_effect: "bloom_process env el lib buf w = Inr (el', w', out) \<Longrightarrow> elem_effect el w el' w'"
  using raise_trigger_effect
  by (auto simp: bloom_process_def rbind_def split: sum.splits eth_data.splits l4.splits option.splits if_splits)

lemmas process_effects = logger_effect equal_effect less_effect more_effect delay_effect dummy_effect constant_effect
  compress_effect dnsdpi_effect p0f_effect bloom_effect

lemma process_effect:
  assumes "process_pkt env now el buf w = Inr (el', w', out)"
  shows "elem_effect el w el' w'"
  using assms by (cases "el_state el") (auto simp: process_pkt_def raise_trigger_effect intro: process_effects)

section \<open>Multiplying packets\<close>

lemma log_items_total:
  assumes "el_file el = Some f" and "\<forall>b \<in> set bufs. \<exists>flow. elem_extract_flow env b = Inr flow"
  shows "\<exists>w'. log_items env el line bufs w = Inr w'"
proof -
  have "\<exists>t. rfoldM (\<lambda>w (index, buf). rbind (elem_extract_flow env buf) (\<lambda>flow. write_log el (line index flow) w))
      w (zip [0..<length bufs] bufs) = Inr t \<and> True"
  proof (rule rfoldM_total)
    fix s x
    assume x: "x \<in> set (zip [0..<length bufs] bufs)"
    obtain i b where ib: "x = (i, b)" by force
    then have "b \<in> set bufs" using x by (auto dest: set_zip_rightD)
    then obtain flow where "elem_extract_flow env b = Inr flow" using assms(2) by blast
    with assms(1) show "\<exists>s'. (case x of (index, buf) \<Rightarrow> rbind (elem_extract_flow env buf) (\<lambda>flow. write_log el (line index flow) s)) = Inr s' \<and> True"
      by (simp add: ib write_log_def)
  qed simp
  then show ?thesis by (simp add: log_items_def)
qed

lemma more_step:
  assumes "el_state el = MoreS (PvInt (int n)) t p i" and "el_file el = Some file" and "2 \<le> n" and "\<forall>f \<in> set fs. frame_ok env f"
  shows "\<exists>w'. process_pkt env now el (Frames fs) w =
    Inr (el\<lparr>el_state := MoreS (PvInt (int n)) (t + int (length fs)) p i\<rparr>, w', Some (Frames (concat (replicate n fs))))"
proof -
  let ?el = "el\<lparr>el_state := MoreS (PvInt (int n)) (t + int (length fs)) p i\<rparr>"
  let ?out = "Frames (concat (replicate n fs))"
  have ok: "\<forall>b \<in> set (item_bufs ?out). \<exists>flow. elem_extract_flow env b = Inr flow"
    using assms(4) by (auto simp: frame_ok_def)
  have "\<exists>w'. log_items env ?el line (item_bufs ?out) w = Inr w'" for line
    using assms(2) ok by (intro log_items_total) auto
  then obtain g where "\<And>line. log_items env ?el line (item_bufs ?out) w = Inr (g line)" by metis
  with assms(1,3) show ?thesis
    by (simp add: process_pkt_def more_process_def more_repeat_def repeat_data_def int_gt_def pv_rat_def data_len_def Let_def)
qed

section \<open>An example\<close>

text \<open>A frame from 10.0.0.1 to 10.0.0.2, TCP port 80, and the parser that reads every frame as it and no list.\<close>

definition demo_ip :: ip_packet where
  "demo_ip = \<lparr>ip_src = map char_of_byte [10, 0, 0, 1], ip_dst = map char_of_byte [10, 0, 0, 2], ip_p = 6, ip_tos = 0,
     ip_data = Ports 1234 80 []\<rparr>"

definition demo_eth :: ethernet where
  "demo_eth = \<lparr>eth_src = ''aaaaaa'', eth_dst = ''bbbbbb'', eth_type = 0x800, eth_data = EthIP demo_ip\<rparr>"

definition demo_elem_env :: elem_env where
  "demo_elem_env =
     \<lparr>ee_ethernet = (\<lambda>d. case d of Frame _ \<Rightarrow> Inr demo_eth | Frames _ \<Rightarrow> Inl TypeError), ee_dns = (\<lambda>_. Inl ValueError),
      ee_blacklists = [], ee_fieldvals = [], ee_bloom = (\<lambda>vs v. v \<in> set vs), ee_p0f = (\<lambda>_. Inr []),
      ee_udp_frame = (\<lambda>_ _ _ _ _ _ m. m), ee_zlib_compress = (\<lambda>s. s), ee_zlib_decompress = Inr,
      ee_b64encode = (\<lambda>s. s), ee_b64decode = Inr\<rparr>"

definition empty_world :: world where
  "empty_world = \<lparr>w_files = [], w_sent = [], w_fwd = []\<rparr>"

lemma demo_frame: "ip_frame demo_eth demo_ip 1234 80"
  by (simp add: ip_frame_def demo_eth_def demo_ip_def ETH_TYPE_IP_def l4_ports_def IP_PROTO_TCP_def)

lemma demo_parse: "ee_ethernet demo_elem_env (Frame b) = Inr demo_eth" "ee_ethernet demo_elem_env (Frames fs) = Inl TypeError"
  by (simp_all add: demo_elem_env_def)

lemma parsed_frame_ok: "ee_ethernet env (Frame buf) = Inr eth \<Longrightarrow> ip_frame eth ip sport dport \<Longrightarrow> frame_ok env buf"
  using extract_flow_ip by (fastforce simp: frame_ok_def elem_extract_flow_def)

section \<open>Properties\<close>

text \<open>
  C25. A delay buffer is a first-in first-out queue of its configured size: for every sequence of packets it first
  answers nothing, as often as the buffer has room, and then the packets in their order of arrival; what it
  has not yet answered is in the buffer, in order.
\<close>

theorem delay_buffer_fifo:
  assumes "el_state el = DelayBufferS (PvInt (int k)) []"
  shows "\<exists>el'. run_elem env now el bufs w =
      Inr (el', w, replicate (min (length bufs) k) None @ map Some (take (length bufs - k) bufs)) \<and>
    el_state el' = DelayBufferS (PvInt (int k)) (drop (length bufs - k) bufs)"
  using delay_run [OF assms, of env now bufs w] by auto

theorem delay_buffer_fifo_witness:
  "\<exists>el'. run_elem demo_elem_env 7 \<lparr>el_ed = 4, el_file = None, el_state = DelayBufferS (PvInt (int 1)) []\<rparr>
      [Frames [''a''], Frames [''b''], Frames [''c'']] empty_world =
    Inr (el', empty_world, [None, Some (Frames [''a'']), Some (Frames [''b''])])"
  using delay_buffer_fifo [of "\<lparr>el_ed = 4, el_file = None, el_state = DelayBufferS (PvInt (int 1)) []\<rparr>" 1 demo_elem_env 7
      "[Frames [''a''], Frames [''b''], Frames [''c'']]" empty_world]
  by (auto simp: min_def)

text \<open>
  C26. \<^verbatim>\<open>Less\<close> with \<^verbatim>\<open>drop_count\<close> \<open>k\<close> drops exactly every \<open>k\<close>-th frame of a sequence given one by one: the answer
  to the frame at position \<open>i\<close> is empty if \<open>k\<close> divides \<open>i + 1\<close> and the frame otherwise.
\<close>

theorem less_drops_every_kth:
  assumes "el_state el = LessS (Some (PvInt (int k))) 0 0" and "el_file el = Some f0" and "0 < k"
    and "\<forall>f \<in> set fs. frame_ok env f"
  shows "\<exists>el' w'. run_elem env now el (map (\<lambda>f. Frames [f]) fs) w =
    Inr (el', w', map (\<lambda>i. Some (Frames (if (i + 1) mod k = 0 then [] else [fs ! i]))) [0..<length fs])"
  using less_run [of el k 0 0 f0 fs env now w] assms by auto

theorem less_drops_every_kth_witness:
  "\<exists>el' w'. run_elem demo_elem_env 7 \<lparr>el_ed = 4, el_file = Some ''log4'', el_state = LessS (Some (PvInt (int 2))) 0 0\<rparr>
      (map (\<lambda>f. Frames [f]) [''a'', ''b'', ''c'']) empty_world =
    Inr (el', w', [Some (Frames [''a'']), Some (Frames []), Some (Frames [''c''])])"
proof -
  have "frame_ok demo_elem_env f" for f
    by (rule parsed_frame_ok [OF demo_parse(1) demo_frame])
  moreover have "map (\<lambda>i. Some (Frames (if (i + 1) mod 2 = 0 then [] else [[''a'', ''b'', ''c''] ! i]))) [0..<length [''a'', ''b'', ''c'']] =
      [Some (Frames [''a'']), Some (Frames []), Some (Frames [''c''])]"
    by (simp add: upt_rec)
  ultimately show ?thesis
    using less_drops_every_kth [of "\<lparr>el_ed = 4, el_file = Some ''log4'', el_state = LessS (Some (PvInt (int 2))) 0 0\<rparr>" 2 "''log4''"
        "[''a'', ''b'', ''c'']" demo_elem_env 7 empty_world]
    by (simp del: run_elem.simps upt.simps)
qed

end
