(* ===== verification/Shim.thy ===== *)
theory Shim
  imports Elements
begin

text \<open>
  The shim of an element machine (\<^verbatim>\<open>shim/shim.py\<close>, \<^verbatim>\<open>shim/mb_api.py\<close>, \<^verbatim>\<open>comm/clientcomm.py\<close>): messages from the
  controller, split at line breaks and decoded, install, configure and stop elements; frames from the wire are looked up
  in the flow table and passed through the elements of the matching entry, each of which may drop, replace or multiply
  them, and what is left is forwarded; the shim reports its load at most every 500 seconds.

  Element objects are shared: an entry holds descriptors, and a descriptor that occurs twice names the same object.  So
  the chain is run over the descriptors, and each step stores the element's new state.
\<close>

section \<open>State\<close>

record shim =
  sh_objs :: "(int, element) dict"
  sh_table :: shim_table
  sh_mac :: int
  sh_ip :: string
  sh_trigger_time :: rat
  sh_world :: world

definition BUF_MAX_FLOWS :: nat where "BUF_MAX_FLOWS = 1"

definition TRIGGER_INTERVAL :: rat where "TRIGGER_INTERVAL = 500"

text \<open>\<^verbatim>\<open>send_data_basic\<close> queues the message; \<^verbatim>\<open>register_machine\<close> is the first one.\<close>

definition send_data_basic :: "pval \<Rightarrow> shim \<Rightarrow> shim" where
  "send_data_basic data sh = sh\<lparr>sh_world := (sh_world sh)\<lparr>w_sent := w_sent (sh_world sh) @ [data]\<rparr>\<rparr>"

definition shim_register_machine :: "shim \<Rightarrow> shim" where
  "shim_register_machine sh =
     send_data_basic (PvDict [(''type'', PvStr ''register''), (''machine_mac'', PvInt (sh_mac sh)), (''machine_ip'', PvStr (sh_ip sh))]) sh"

definition shim_init :: "int \<Rightarrow> string \<Rightarrow> shim" where
  "shim_init mac ip =
     shim_register_machine \<lparr>sh_objs = [], sh_table = [], sh_mac = mac, sh_ip = ip, sh_trigger_time = 0,
       sh_world = \<lparr>w_files = [], w_sent = [], w_fwd = []\<rparr>\<rparr>"

section \<open>Messages from the controller\<close>

text \<open>The flow of a message.  A value that is neither \<^verbatim>\<open>null\<close>, a number nor a string is no part of the protocol.\<close>

definition fval_of_pval :: "pval \<Rightarrow> fval res" where
  "fval_of_pval v = (case v of PvNone \<Rightarrow> Inr FNone | PvInt n \<Rightarrow> Inr (FInt n) | PvStr s \<Rightarrow> Inr (FStr s) | _ \<Rightarrow> Inl TypeError)"

definition flow_of_pval :: "pval \<Rightarrow> flow_dict res" where
  "flow_of_pval v =
     (case v of
        PvDict d \<Rightarrow> rmapM (\<lambda>(k, x). rbind (fval_of_pval x) (\<lambda>y. Inr (k, y))) d
      | _ \<Rightarrow> Inl TypeError)"

definition pv_list :: "pval \<Rightarrow> pval list res" where
  "pv_list v = (case v of PvList l \<Rightarrow> Inr l | _ \<Rightarrow> Inl TypeError)"

definition pv_str :: "pval \<Rightarrow> string res" where
  "pv_str v = (case v of PvStr s \<Rightarrow> Inr s | _ \<Rightarrow> Inl TypeError)"

definition pv_descriptor :: "pval \<Rightarrow> int res" where
  "pv_descriptor v = (case v of PvInt n \<Rightarrow> Inr n | _ \<Rightarrow> Inl TypeError)"

text \<open>\<^verbatim>\<open>_cleanup_failed_install\<close> ends in an attribute that does not exist: a failed installation always raises.\<close>

definition cleanup_failed_install :: "int list \<Rightarrow> (int, element) dict \<Rightarrow> 'a res" where
  "cleanup_failed_install eds objs =
     rbind (rfoldM dict_delitem objs eds) (\<lambda>_. Inl AttributeError)"

definition install_elem ::
    "elem_env \<Rightarrow> int list \<Rightarrow> int \<Rightarrow> string \<Rightarrow> pval \<Rightarrow> shim \<times> flow_dict \<Rightarrow> (shim \<times> flow_dict) res" where
  "install_elem env fds fd function_name params_dict = (\<lambda>(sh, flow).
     rbind (new_element env function_name fd) (\<lambda>el.
     rbind (elem_init env el params_dict (sh_world sh)) (\<lambda>(el1, w1).
     case rbind (dict_getitem flow ''nw_src'') (\<lambda>_. add_flow 0 flow fd (sh_table sh)) of
       Inl e \<Rightarrow> cleanup_failed_install fds (sh_objs sh)
     | Inr (t1, flow1, _) \<Rightarrow>
         let objs = AList.update fd el1 (sh_objs sh)
         in (case rbind (reverse_flow_dict flow1) (\<lambda>reverse_flow. add_flow 0 reverse_flow fd t1) of
               Inl e \<Rightarrow> cleanup_failed_install fds objs
             | Inr (t2, _, _) \<Rightarrow> Inr (sh\<lparr>sh_objs := objs, sh_table := t2, sh_world := w1\<rparr>, flow1)))))"

definition exposed_install_function :: "elem_env \<Rightarrow> pval \<Rightarrow> shim \<Rightarrow> shim res" where
  "exposed_install_function env msg sh =
     rbind (rbind (rbind (pv_getitem msg ''fd'') pv_list) (rmapM pv_descriptor)) (\<lambda>fds.
     rbind (rbind (pv_getitem msg ''flow'') flow_of_pval) (\<lambda>flow.
     rbind (rbind (pv_getitem msg ''function_name'') pv_list) (\<lambda>function_names.
     rbind (rbind (pv_getitem msg ''params'') pv_list) (\<lambda>params_dicts.
     rbind (rfoldM (\<lambda>st i.
              rbind (list_getitem fds i) (\<lambda>fd.
              rbind (rbind (list_getitem function_names i) pv_str) (\<lambda>function_name.
              rbind (list_getitem params_dicts i) (\<lambda>params_dict.
              install_elem env fds fd function_name params_dict st)))) (sh, flow) [0..<length fds]) (\<lambda>(sh', _).
     Inr sh')))))"

definition exposed_configure_function :: "pval \<Rightarrow> shim \<Rightarrow> shim res" where
  "exposed_configure_function msg sh =
     rbind (rbind (pv_getitem msg ''fd'') pv_to_int) (\<lambda>fd.
     rbind (pv_getitem msg ''params'') (\<lambda>params.
     case map_of (sh_objs sh) fd of
       None \<Rightarrow> Inr sh
     | Some el \<Rightarrow> rbind (elem_configure el params) (\<lambda>el'. Inr (sh\<lparr>sh_objs := AList.update fd el' (sh_objs sh)\<rparr>))))"

definition exposed_stop_function :: "pval \<Rightarrow> shim \<Rightarrow> shim res" where
  "exposed_stop_function msg sh =
     rbind (rbind (pv_getitem msg ''fd'') pv_to_int) (\<lambda>fd.
     rbind (dict_getitem (sh_objs sh) fd) (\<lambda>el.
     rbind (elem_shutdown el) (\<lambda>b.
     if b then Inr (sh\<lparr>sh_objs := AList.delete fd (sh_objs sh)\<rparr>) else Inr sh)))"

definition handle_msg :: "elem_env \<Rightarrow> shim \<Rightarrow> pval \<Rightarrow> shim res" where
  "handle_msg env sh msg =
     rbind (pv_getitem msg ''type'') (\<lambda>t.
     rbind (if t = PvStr ''install'' then exposed_install_function env msg sh else Inr sh) (\<lambda>sh1.
     rbind (if t = PvStr ''configure'' then exposed_configure_function msg sh1 else Inr sh1) (\<lambda>sh2.
     if t = PvStr ''stop'' then exposed_stop_function msg sh2 else Inr sh2)))"

text \<open>The pieces between line breaks, without the last one.\<close>

definition decode_msg_and_call :: "elem_env \<Rightarrow> string \<Rightarrow> shim \<Rightarrow> shim res" where
  "decode_msg_and_call env data sh =
     (let message_list = split_on CHR 0x0A data
      in rfoldM (\<lambda>sh (index, m). if index < length message_list - 1 then rbind (loads m) (handle_msg env sh) else Inr sh)
           sh (zip [0..<length message_list] message_list))"

section \<open>Packets\<close>

definition get_function_handles_from_flow :: "flow_dict \<Rightarrow> shim \<Rightarrow> int list option res" where
  "get_function_handles_from_flow flow sh =
     rbind (lookup_flow (sh_table sh) flow) (\<lambda>fds.
     case fds of
       None \<Rightarrow> Inr None
     | Some eds \<Rightarrow>
         if eds = [] then Inr None
         else if list_all (has_key (sh_objs sh)) eds then Inr (Some eds) else Inr None)"

definition calc_triggers :: "rat \<Rightarrow> shim \<Rightarrow> shim" where
  "calc_triggers now sh =
     (if get_active_flows (sh_table sh) \<ge> BUF_MAX_FLOWS \<and> now - sh_trigger_time sh > TRIGGER_INTERVAL
      then (send_data_basic (PvDict [(''ed'', PvInt 0), (''mac'', PvInt (sh_mac sh)), (''max_flows'', PvBool True),
              (''type'', PvStr ''trigger'')]) sh)\<lparr>sh_trigger_time := now\<rparr>
      else sh)"

text \<open>The loop over the handles: the elements run in order until one returns nothing; the answer of the last one run is
  what is forwarded.\<close>

fun run_chain ::
    "(element \<Rightarrow> data \<Rightarrow> world \<Rightarrow> processed) \<Rightarrow> int list \<Rightarrow> data \<Rightarrow> data option \<Rightarrow> shim \<Rightarrow> (shim \<times> data option) res" where
  "run_chain process [] buf processed sh = Inr (sh, processed)"
| "run_chain process (fd # fds) buf processed sh =
     rbind (dict_getitem (sh_objs sh) fd) (\<lambda>el.
     rbind (process el buf (sh_world sh)) (\<lambda>(el', w, out).
     let sh' = sh\<lparr>sh_objs := AList.update fd el' (sh_objs sh), sh_world := w\<rparr>
     in case out of
          Some b \<Rightarrow> if data_truthy b then run_chain process fds b (Some b) sh' else Inr (sh', None)
        | None \<Rightarrow> Inr (sh', None)))"

definition fwd_pkt :: "data \<Rightarrow> shim \<Rightarrow> shim" where
  "fwd_pkt packets sh = sh\<lparr>sh_world := (sh_world sh)\<lparr>w_fwd := w_fwd (sh_world sh) @ data_items packets\<rparr>\<rparr>"

text \<open>\<^verbatim>\<open>socket.inet_aton\<close> gives four raw bytes, which \<^verbatim>\<open>demux\<close> compares with the destination in dotted notation.\<close>

definition inet_aton_bytes :: "string \<Rightarrow> string res" where
  "inet_aton_bytes s =
     rbind (inet_aton s) (\<lambda>a. Inr (map (\<lambda>k. char_of_byte (ip_octet (uint a) k)) [24, 16, 8, 0]))"

definition demux :: "elem_env \<Rightarrow> rat \<Rightarrow> string \<Rightarrow> shim \<Rightarrow> shim res" where
  "demux env now buf sh =
     rbind (ee_ethernet env (Frame buf)) (\<lambda>packet.
     rbind (extract_flow packet) (\<lambda>flow.
     rbind (dict_getitem flow ''nw_dst'') (\<lambda>dst.
     rbind (inet_aton_bytes (sh_ip sh)) (\<lambda>own.
     if dst = FStr own then Inr sh
     else
       rbind (get_function_handles_from_flow flow sh) (\<lambda>handles.
       case handles of
         None \<Rightarrow> Inr sh
       | Some fds \<Rightarrow>
           let sh1 = calc_triggers now sh
           in rbind (run_chain (process_pkt env now) fds (Frames [buf]) None sh1) (\<lambda>(sh2, processed).
              case processed of None \<Rightarrow> Inr sh2 | Some b \<Rightarrow> Inr (fwd_pkt b sh2)))))))"

text \<open>One captured frame: first whatever arrived from the controller, then the frame.\<close>

definition decode :: "elem_env \<Rightarrow> rat \<Rightarrow> string option \<Rightarrow> string \<Rightarrow> shim \<Rightarrow> shim res" where
  "decode env now received buf sh =
     rbind (case received of
              None \<Rightarrow> Inr sh
            | Some data \<Rightarrow> if data \<noteq> [] then decode_msg_and_call env data sh else Inr sh) (\<lambda>sh1.
     demux env now buf sh1)"

section \<open>Framing\<close>

lemma split_lines:
  assumes "\<forall>t \<in> set ts. CHR 0x0A \<notin> set t"
  shows "split_on CHR 0x0A (concat (map (\<lambda>t. t @ [CHR 0x0A]) ts)) = ts @ [[]]"
  using assms by (induction ts) (auto simp: split_on_append)

lemma rfoldM_indexed:
  assumes "\<And>i m s. i < length ms \<Longrightarrow> f s (i, m) = g s m"
  shows "rfoldM f s (zip [0..<length ms] ms) = rfoldM g s ms"
proof -
  have "rfoldM f s (zip [k..<k + length xs] xs) = rfoldM g s xs" if "k + length xs \<le> length ms" for k xs
    using that
  proof (induction xs arbitrary: k s)
    case (Cons x xs)
    have "[k..<k + length (x # xs)] = k # [Suc k..<Suc k + length xs]" by (simp add: upt_conv_Cons del: upt_Suc)
    with Cons.prems Cons.IH [of "Suc k"] assms [of k] show ?case by simp
  qed simp
  from this [of 0 ms] show ?thesis by simp
qed

text \<open>Complete lines are decoded and handled one after the other, and what follows the last line break is not looked at.\<close>

lemma decode_lines:
  assumes "split_on CHR 0x0A data = ts @ [rest]"
  shows "decode_msg_and_call env data sh = rfoldM (\<lambda>sh m. rbind (loads m) (handle_msg env sh)) sh ts"
proof -
  let ?f = "\<lambda>sh (index, m). if index < length (ts @ [rest]) - 1 then rbind (loads m) (handle_msg env sh) else Inr sh"
  have "rfoldM ?f sh (zip [0..<length ts] ts) = rfoldM (\<lambda>sh m. rbind (loads m) (handle_msg env sh)) sh ts"
    by (rule rfoldM_indexed) simp
  then show ?thesis
    by (simp add: decode_msg_and_call_def assms rfoldM_append rbind_def split: sum.splits)
qed

text \<open>A text of printed values, one per line, is handled as the values.\<close>

lemma decode_dumps:
  assumes "\<forall>v \<in> set vs. json_ok fr v" and "CHR 0x0A \<notin> set rest"
  shows "decode_msg_and_call env (concat (map (\<lambda>v. dumps fr v @ [CHR 0x0A]) vs) @ rest) sh = rfoldM (handle_msg env) sh vs"
proof -
  have "split_on CHR 0x0A (concat (map (\<lambda>v. dumps fr v @ [CHR 0x0A]) vs) @ rest) = map (dumps fr) vs @ [rest]"
    using assms by (induction vs) (auto simp: split_on_append split_on_no_sep dumps_line)
  moreover have "rfoldM (\<lambda>sh m. rbind (loads m) (handle_msg env sh)) sh (map (dumps fr) vs) = rfoldM (handle_msg env) sh vs"
    using assms(1)
  proof (induction vs arbitrary: sh)
    case (Cons v vs)
    then show ?case by (cases "handle_msg env sh v") (simp_all add: loads_dumps)
  qed simp
  ultimately show ?thesis by (simp add: decode_lines)
qed

section \<open>Installation\<close>

definition pval_of_fval :: "fval \<Rightarrow> pval" where
  "pval_of_fval v = (case v of FNone \<Rightarrow> PvNone | FInt n \<Rightarrow> PvInt n | FStr s \<Rightarrow> PvStr s | FEth s \<Rightarrow> PvStr s | FIP _ \<Rightarrow> PvNone)"

text \<open>The installation message of one instance.\<close>

definition install_json :: "int \<Rightarrow> flow_dict \<Rightarrow> string \<Rightarrow> (string, pval) dict \<Rightarrow> pval" where
  "install_json fd flow name ps =
     PvDict [(''type'', PvStr ''install''), (''fd'', PvList [PvInt fd]),
             (''flow'', PvDict (map (\<lambda>(k, v). (k, pval_of_fval v)) flow)), (''function_name'', PvList [PvStr name]),
             (''params'', PvList [PvDict ps])]"

lemma flow_of_pval_flow:
  assumes "list_all (\<lambda>(k, v). plain v) flow"
  shows "flow_of_pval (PvDict (map (\<lambda>(k, v). (k, pval_of_fval v)) flow)) = Inr flow"
proof -
  have "fval_of_pval (pval_of_fval v) = Inr v" if "plain v" for v
    using that by (cases v) (auto simp: fval_of_pval_def pval_of_fval_def)
  with assms show ?thesis
    by (induction flow) (auto simp: flow_of_pval_def rmapM_map)
qed

text \<open>An element that can be constructed and started whatever the descriptor and the world.\<close>

definition installable :: "elem_env \<Rightarrow> string \<Rightarrow> (string, pval) dict \<Rightarrow> bool" where
  "installable env name ps \<longleftrightarrow>
     (\<forall>fd w. \<exists>el el1 w1. new_element env name fd = Inr el \<and> elem_init env el (PvDict ps) w = Inr (el1, w1))"

lemma handle_install:
  assumes "app_flow flow" and "new_element env name fd = Inr el" and "elem_init env el (PvDict ps) (sh_world sh) = Inr (el1, w1)"
  shows "handle_msg env sh (install_json fd flow name ps) =
    Inr (sh\<lparr>sh_objs := AList.update fd el1 (sh_objs sh),
            sh_table := push_ed (reverse_key (flow_key flow)) fd (push_ed (flow_key flow) fd (sh_table sh)), sh_world := w1\<rparr>)"
proof -
  let ?flow = "AList.update ''in_port'' (FInt 0) flow"
  have plain: "list_all (\<lambda>(k, v). plain v) flow" and src: "has_key flow ''nw_src''"
    using assms(1) by (auto simp: app_flow_def valid_flow_def flow_keys_def)
  have key: "flow_key ?flow = flow_key flow"
    using app_flow_with_port(3) [OF assms(1)] by (simp add: flow_key_def)
  obtain rf where rf: "reverse_flow_dict ?flow = Inr rf" "app_flow rf" "flow_key rf = reverse_key (flow_key flow)"
    using reverse_app_flow [OF app_flow_with_port(1) [OF assms(1)]] key by metis
  have "install_elem env [fd] fd name (PvDict ps) (sh, flow) =
      Inr (sh\<lparr>sh_objs := AList.update fd el1 (sh_objs sh),
            sh_table := push_ed (reverse_key (flow_key flow)) fd (push_ed (flow_key flow) fd (sh_table sh)), sh_world := w1\<rparr>, ?flow)"
    using assms(2,3) src add_flow_app [OF assms(1), of fd "sh_table sh"] add_flow_app [OF rf(2)] rf
    by (auto simp: install_elem_def dict_getitem_def Let_def)
  then show ?thesis
    using flow_of_pval_flow [OF plain]
    by (simp add: handle_msg_def install_json_def pv_getitem_def dict_getitem_def exposed_install_function_def pv_list_def
        pv_descriptor_def pv_str_def list_getitem_def)
qed

text \<open>The descriptors of a flow space after a series of installations.  If the flow space is its own reverse, every
  descriptor is entered twice under the one key.\<close>

definition entered :: "flow_tuple \<Rightarrow> int list \<Rightarrow> int list" where
  "entered f fds = (if reverse_key f = f then concat (map (\<lambda>fd. [fd, fd]) fds) else fds)"

definition table_for :: "flow_tuple \<Rightarrow> int list \<Rightarrow> shim_table" where
  "table_for f fds =
     (if fds = [] then [] else if reverse_key f = f then [(f, entered f fds)] else [(f, fds), (reverse_key f, fds)])"

lemma push_table_for: "push_ed (reverse_key f) fd (push_ed f fd (table_for f fds)) = table_for f (fds @ [fd])"
  by (auto simp: push_ed_def table_for_def entered_def)

lemma install_all:
  assumes "app_flow flow" and "\<forall>(fd, name, ps) \<in> set els. installable env name ps"
    and "sh_table sh = table_for (flow_key flow) fds" and "set fds \<subseteq> set (dict_keys (sh_objs sh))"
  shows "\<exists>sh'. rfoldM (handle_msg env) sh (map (\<lambda>(fd, name, ps). install_json fd flow name ps) els) = Inr sh' \<and>
    sh_table sh' = table_for (flow_key flow) (fds @ map fst els) \<and> set (fds @ map fst els) \<subseteq> set (dict_keys (sh_objs sh')) \<and>
    sh_ip sh' = sh_ip sh"
  using assms(2-4)
proof (induction els arbitrary: sh fds)
  case Nil
  then show ?case by simp
next
  case (Cons e els)
  obtain fd name ps where e: "e = (fd, name, ps)" by (cases e) auto
  from Cons.prems(1) e obtain el el1 w1 where i: "new_element env name fd = Inr el"
      "elem_init env el (PvDict ps) (sh_world sh) = Inr (el1, w1)"
    unfolding installable_def by fastforce
  let ?sh = "sh\<lparr>sh_objs := AList.update fd el1 (sh_objs sh), sh_table := table_for (flow_key flow) (fds @ [fd]), sh_world := w1\<rparr>"
  have "handle_msg env sh (install_json fd flow name ps) = Inr ?sh"
    using handle_install [OF assms(1) i] Cons.prems(2) by (simp add: push_table_for)
  moreover have "\<exists>sh'. rfoldM (handle_msg env) ?sh (map (\<lambda>(fd, name, ps). install_json fd flow name ps) els) = Inr sh' \<and>
      sh_table sh' = table_for (flow_key flow) ((fds @ [fd]) @ map fst els) \<and>
      set ((fds @ [fd]) @ map fst els) \<subseteq> set (dict_keys (sh_objs sh')) \<and> sh_ip sh' = sh_ip ?sh"
    using Cons.prems by (intro Cons.IH) (auto simp: update_keys)
  ultimately show ?case by (simp add: e)
qed

section \<open>The chain of a packet\<close>

lemma reverse_key_plain: "list_all plain (item_fields f) \<Longrightarrow> list_all plain (item_fields (reverse_key f))"
  by (simp add: item_fields_def reverse_key_def get_reverse_flow_def)

lemma table_for_ok: "list_all plain (item_fields f) \<Longrightarrow> table_ok (table_for f fds)"
  using reverse_key_plain by (auto simp: table_ok_def table_for_def)

lemma handles_table_for:
  assumes "sh_table sh = table_for f fds" and "fds \<noteq> []" and "set fds \<subseteq> set (dict_keys (sh_objs sh))"
    and "list_all plain (item_fields f)" and "convert_flow 0 flow = Inr (Some ft)" and "packet_tuple ft"
  shows "get_function_handles_from_flow flow sh =
    Inr (if shim_covers f ft \<or> shim_covers (reverse_key f) ft then Some (entered f fds) else None)"
proof -
  have keys: "list_all (has_key (sh_objs sh)) (entered f fds)"
    using assms(3) by (fastforce simp: entered_def list_all_iff map_of_eq_None_iff)
  have ne: "entered f fds \<noteq> []" using assms(2) by (simp add: entered_def)
  have "lookup_flow (sh_table sh) flow =
      Inr (if shim_covers f ft \<or> shim_covers (reverse_key f) ft then Some (entered f fds) else None)"
    using lookup_flow_matches [OF table_for_ok [OF assms(4), of fds] assms(5,6)] assms(2)
    by (auto simp: assms(1) table_for_def entered_def)
  with keys ne show ?thesis by (simp add: get_function_handles_from_flow_def)
qed

text \<open>The comparison with the machine's own address never succeeds: one side is raw bytes, the other dotted text.\<close>

lemma fmt_d_length: "1 \<le> length (fmt_d n)"
  by (simp add: fmt_d_def Suc_le_eq)

lemma dotted_length: "7 \<le> length (ip_to_str a)"
proof -
  have "1 \<le> length (fmt_d (ip_octet a k))" for k by (rule fmt_d_length)
  from this [of 24] this [of 16] this [of 8] this [of 0] show ?thesis by (simp add: ip_to_str_def)
qed

lemma own_address_ignored:
  assumes "inet_aton_bytes ip = Inr own"
  shows "own \<noteq> ip_to_str a"
proof -
  have "length own = 4" using assms by (auto simp: inet_aton_bytes_def rbind_eq_Inr)
  then show ?thesis using dotted_length [of a] by auto
qed

definition own_ip :: "shim \<Rightarrow> bool" where
  "own_ip sh \<longleftrightarrow> (\<exists>own. inet_aton_bytes (sh_ip sh) = Inr own)"

lemma demux_ip:
  assumes "ee_ethernet env (Frame buf) = Inr eth" and "ip_frame eth ip sport dport" and "own_ip sh"
  shows "\<exists>flow. extract_flow eth = Inr flow \<and> convert_flow 0 flow = Inr (Some (frame_tuple eth ip sport dport)) \<and>
    demux env now buf sh =
      rbind (get_function_handles_from_flow flow sh) (\<lambda>handles.
      case handles of
        None \<Rightarrow> Inr sh
      | Some fds \<Rightarrow> rbind (run_chain (process_pkt env now) fds (Frames [buf]) None (calc_triggers now sh)) (\<lambda>(sh2, processed).
          case processed of None \<Rightarrow> Inr sh2 | Some b \<Rightarrow> Inr (fwd_pkt b sh2)))"
proof -
  obtain flow where flow: "extract_flow eth = Inr flow" "convert_flow 0 flow = Inr (Some (frame_tuple eth ip sport dport))"
      "map_of flow ''nw_dst'' = Some (FStr (ip_to_str (int_of_bytes (map byte_of (ip_dst ip)))))"
    using extract_flow_ip [OF assms(2)] by blast
  obtain own where own: "inet_aton_bytes (sh_ip sh) = Inr own" using assms(3) by (auto simp: own_ip_def)
  have "ip_to_str (int_of_bytes (map byte_of (ip_dst ip))) \<noteq> own" using own_address_ignored [OF own] by metis
  with flow own show ?thesis
    by (intro exI [of _ flow]) (simp add: demux_def assms(1) dict_getitem_def Let_def)
qed

text \<open>A frame without an IP packet, or that no entry matches, is neither processed nor forwarded.\<close>

lemma demux_not_ip:
  assumes "ee_ethernet env (Frame buf) = Inr eth" and "eth_type eth \<noteq> ETH_TYPE_IP" and "own_ip sh"
  shows "demux env now buf sh = Inr sh"
proof -
  obtain flow where "extract_flow eth = Inr flow" "map_of flow ''nw_dst'' = Some (FInt 0)"
      "lookup_flow (sh_table sh) flow = Inr None"
    using lookup_not_ip [OF assms(2)] by metis
  with assms(1,3) show ?thesis
    by (auto simp: demux_def dict_getitem_def own_ip_def get_function_handles_from_flow_def)
qed

text \<open>Installing the elements of a chain on a shim without flows succeeds, and from then on a frame of the flow space, in
  either direction, passes through exactly these elements in the order of their installation.\<close>

lemma installed_chain_demux:
  assumes "app_flow flow" and "els \<noteq> []" and "\<forall>(fd, name, ps) \<in> set els. installable env name ps" and "sh_table sh = []"
    and "own_ip sh" and "ee_ethernet env (Frame buf) = Inr eth" and "ip_frame eth ip sport dport"
  shows "\<exists>sh'. rfoldM (handle_msg env) sh (map (\<lambda>(fd, name, ps). install_json fd flow name ps) els) = Inr sh' \<and>
    demux env now buf sh' =
      (if shim_covers (flow_key flow) (frame_tuple eth ip sport dport) \<or>
          shim_covers (reverse_key (flow_key flow)) (frame_tuple eth ip sport dport)
       then rbind (run_chain (process_pkt env now) (entered (flow_key flow) (map fst els)) (Frames [buf]) None (calc_triggers now sh'))
              (\<lambda>(sh2, processed). case processed of None \<Rightarrow> Inr sh2 | Some b \<Rightarrow> Inr (fwd_pkt b sh2))
       else Inr sh')"
proof -
  have "sh_table sh = table_for (flow_key flow) []" using assms(4) by (simp add: table_for_def)
  from install_all [OF assms(1,3) this]
  obtain sh' where sh': "rfoldM (handle_msg env) sh (map (\<lambda>(fd, name, ps). install_json fd flow name ps) els) = Inr sh'"
      "sh_table sh' = table_for (flow_key flow) (map fst els)" "set (map fst els) \<subseteq> set (dict_keys (sh_objs sh'))"
      "sh_ip sh' = sh_ip sh"
    by auto
  have "own_ip sh'" using assms(5) sh'(4) by (simp add: own_ip_def)
  from demux_ip [OF assms(6,7) this, of now] obtain fl where fl: "convert_flow 0 fl = Inr (Some (frame_tuple eth ip sport dport))"
    and d: "demux env now buf sh' =
      rbind (get_function_handles_from_flow fl sh') (\<lambda>handles.
      case handles of
        None \<Rightarrow> Inr sh'
      | Some fds \<Rightarrow> rbind (run_chain (process_pkt env now) fds (Frames [buf]) None (calc_triggers now sh')) (\<lambda>(sh2, processed).
          case processed of None \<Rightarrow> Inr sh2 | Some b \<Rightarrow> Inr (fwd_pkt b sh2)))"
    by blast
  have "map fst els \<noteq> []" using assms(2) by simp
  from handles_table_for [OF sh'(2) this sh'(3) flow_key_plain [OF assms(1)] fl packet_frame_tuple] d sh'(1) show ?thesis
    by auto
qed

section \<open>Well-formed shims\<close>

text \<open>The state every message and every frame keeps: keys of the table are plain flow tuples with at least one descriptor, and
  an object is stored under its own descriptor.\<close>

definition shim_ok :: "shim \<Rightarrow> bool" where
  "shim_ok sh \<longleftrightarrow> table_ok (sh_table sh) \<and> (\<forall>(f, eds) \<in> set (sh_table sh). eds \<noteq> []) \<and> dict_wf (sh_objs sh) \<and>
     (\<forall>(fd, el) \<in> set (sh_objs sh). el_ed el = fd)"

text \<open>What the shim relies on: an element keeps its descriptor, sends no frame and sends only triggers of its own.\<close>

locale elem_process =
  fixes process :: "element \<Rightarrow> data \<Rightarrow> world \<Rightarrow> processed"
  assumes effect: "process el buf w = Inr (el', w', out) \<Longrightarrow> elem_effect el w el' w'"
begin

lemma chain_effect:
  assumes "run_chain process fds buf processed sh = Inr (sh', out)" and "shim_ok sh"
  shows "shim_ok sh' \<and> sh_table sh' = sh_table sh \<and> sh_trigger_time sh' = sh_trigger_time sh \<and>
    w_fwd (sh_world sh') = w_fwd (sh_world sh) \<and>
    (\<exists>ts. w_sent (sh_world sh') = w_sent (sh_world sh) @ ts \<and> list_all elem_trigger ts)"
  using assms
proof (induction fds arbitrary: buf processed sh)
  case Nil
  then show ?case by simp
next
  case (Cons fd fds)
  obtain el el' w o1 where el: "map_of (sh_objs sh) fd = Some el" and p: "process el buf (sh_world sh) = Inr (el', w, o1)"
    using Cons.prems(1) by (auto simp: rbind_eq_Inr)
  let ?sh = "sh\<lparr>sh_objs := AList.update fd el' (sh_objs sh), sh_world := w\<rparr>"
  have eff: "elem_effect el (sh_world sh) el' w" using p by (rule effect)
  have "el_ed el = fd" using el Cons.prems(2) by (auto simp: shim_ok_def dest: map_of_SomeD)
  then have ok: "shim_ok ?sh"
    using Cons.prems(2) eff by (auto simp: shim_ok_def elem_effect_def dest!: set_update_item)
  consider (stop) "sh' = ?sh" | (go) b where "run_chain process fds b (Some b) ?sh = Inr (sh', out)"
    using Cons.prems(1) el p by (auto simp: Let_def dict_getitem_def split: option.splits if_splits)
  then show ?case
  proof cases
    case stop
    then show ?thesis using ok eff by (auto simp: elem_effect_def)
  next
    case go
    from Cons.IH [OF go ok] eff show ?thesis by (auto simp: elem_effect_def)
  qed
qed

end

interpretation elems: elem_process "process_pkt env now" for env now
  by unfold_locales (rule process_effect)

definition plain_flow :: "flow_dict \<Rightarrow> bool" where
  "plain_flow flow \<longleftrightarrow> (\<forall>(k, v) \<in> set flow. plain v)"

lemma plain_flow_get: "plain_flow flow \<Longrightarrow> map_of flow k = Some v \<Longrightarrow> plain v"
  by (auto simp: plain_flow_def dest: map_of_SomeD)

lemma plain_flow_tuple:
  assumes "flow_to_tuple p flow = Inr f" and "plain_flow flow"
  shows "list_all plain (item_fields f)"
proof -
  obtain s d where sd: "opt_mac_field (the (map_of flow ''dl_src'')) = Inr s" "opt_mac_field (the (map_of flow ''dl_dst'')) = Inr d"
    and f: "dl_src f = s" "dl_dst f = d"
    and g: "map_of flow ''dl_vlan'' = Some (dl_vlan f)" "map_of flow ''dl_vlan_pcp'' = Some (dl_vlan_pcp f)"
      "map_of flow ''dl_type'' = Some (dl_type f)" "map_of flow ''nw_src'' = Some (nw_src f)" "map_of flow ''nw_dst'' = Some (nw_dst f)"
      "map_of flow ''nw_proto'' = Some (nw_proto f)" "map_of flow ''tp_src'' = Some (tp_src f)" "map_of flow ''tp_dst'' = Some (tp_dst f)"
    using assms(1) by (auto simp: flow_to_tuple_def tuple_of_dict_def rbind_eq_Inr)
  have "plain s" "plain d" using sd by (auto dest!: opt_mac_field_plain)
  with f g show ?thesis by (simp add: item_fields_def plain_flow_get [OF assms(2)])
qed

lemma push_ed_ok:
  assumes "table_ok t" and "\<forall>(f, eds) \<in> set t. eds \<noteq> []" and "list_all plain (item_fields f)"
  shows "table_ok (push_ed f ed t) \<and> (\<forall>(f, eds) \<in> set (push_ed f ed t). eds \<noteq> [])"
  using assms by (auto simp: table_ok_def push_ed_def dest!: set_update_item)

lemma add_flow_ok:
  assumes "add_flow p flow ed t = Inr (t', flow', b)" and "plain_flow flow" and "table_ok t" and "\<forall>(f, eds) \<in> set t. eds \<noteq> []"
  shows "table_ok t' \<and> (\<forall>(f, eds) \<in> set t'. eds \<noteq> []) \<and> plain_flow flow'"
proof -
  have pl: "plain_flow flow'"
    using assms(1,2) by (auto simp: add_flow_def plain_flow_def Let_def rbind_def dest!: set_update_item split: option.splits sum.splits)
  consider "t' = t" | f where "convert_flow p (AList.update ''in_port'' (FInt 0) flow) = Inr (Some f)" "t' = push_ed f ed t"
    using assms(1) by (auto simp: add_flow_def Let_def rbind_def push_ed_def split: sum.splits option.splits)
  then show ?thesis
  proof cases
    case 2
    have "plain_flow (AList.update ''in_port'' (FInt 0) flow)"
      using assms(2) by (auto simp: plain_flow_def dest!: set_update_item)
    moreover have "flow_to_tuple (FInt p) (AList.update ''in_port'' (FInt 0) flow) = Inr f"
      using 2(1) by (auto simp: convert_flow_def rbind_eq_Inr split: if_splits)
    ultimately have "list_all plain (item_fields f)" by (intro plain_flow_tuple)
    with push_ed_ok [OF assms(3,4)] pl 2(2) show ?thesis by blast
  qed (use pl assms in simp)
qed

lemma reverse_flow_plain: "reverse_flow_dict flow = Inr rf \<Longrightarrow> plain_flow flow \<Longrightarrow> plain_flow rf"
  by (auto simp: reverse_flow_dict_def rbind_eq_Inr plain_flow_def copy_key_def split: option.splits if_splits dest!: map_of_SomeD)

lemma flow_of_pval_plain: "flow_of_pval v = Inr flow \<Longrightarrow> plain_flow flow"
proof -
  have f: "plain y" if "fval_of_pval x = Inr y" for x y
    using that by (auto simp: fval_of_pval_def split: pval.splits)
  assume "flow_of_pval v = Inr flow"
  then obtain d where "rmapM (\<lambda>(k, x). rbind (fval_of_pval x) (\<lambda>y. Inr (k, y))) d = Inr flow"
    by (auto simp: flow_of_pval_def split: pval.splits)
  then show ?thesis
    unfolding plain_flow_def
    by (induction d arbitrary: flow) (auto simp: rbind_eq_Inr dest: f)
qed

lemma elem_init_effect:
  assumes "elem_init env el ps w = Inr (el', w')"
  shows "el_ed el' = el_ed el \<and> w_fwd w' = w_fwd w \<and> w_sent w' = w_sent w"
proof -
  have o: "el_ed e' = el_ed el \<and> w_fwd v' = w_fwd w \<and> w_sent v' = w_sent w" if "open_log el ps w = Inr (e', v')" for e' v'
    using that by (auto simp: open_log_def open_file_def log_filename_def rbind_def Let_def split: pval.splits sum.splits)
  then show ?thesis
    using assms by (auto simp: elem_init_def less_init_def more_init_def open_file_def bloom_init_def rbind_def Let_def
        split: elem_state.splits sum.splits if_splits)
qed

lemma install_elem_ok:
  assumes "install_elem env fds fd name ps (sh, flow) = Inr (sh', flow')" and "shim_ok sh" and "plain_flow flow"
  shows "shim_ok sh' \<and> plain_flow flow' \<and> sh_trigger_time sh' = sh_trigger_time sh \<and> w_sent (sh_world sh') = w_sent (sh_world sh)"
proof -
  have clean: "cleanup_failed_install e d \<noteq> Inr x" for e d and x :: "shim \<times> flow_dict"
    by (auto simp: cleanup_failed_install_def rbind_def split: sum.splits)
  obtain el el1 w1 t1 b1 rf t2 rf' b2 where n: "new_element env name fd = Inr el" "elem_init env el ps (sh_world sh) = Inr (el1, w1)"
    and a: "add_flow 0 flow fd (sh_table sh) = Inr (t1, flow', b1)" and r: "reverse_flow_dict flow' = Inr rf"
    and a2: "add_flow 0 rf fd t1 = Inr (t2, rf', b2)"
    and sh': "sh' = sh\<lparr>sh_objs := AList.update fd el1 (sh_objs sh), sh_table := t2, sh_world := w1\<rparr>"
    using assms(1) clean
    by (auto simp: install_elem_def rbind_def Let_def split: sum.splits prod.splits)
  have el: "el_ed el = fd" using n(1) by (auto simp: new_element_def rbind_eq_Inr)
  have t1: "table_ok t1 \<and> (\<forall>(f, eds) \<in> set t1. eds \<noteq> []) \<and> plain_flow flow'"
    using add_flow_ok [OF a assms(3)] assms(2) by (auto simp: shim_ok_def)
  have "plain_flow rf" using reverse_flow_plain [OF r] t1 by blast
  from add_flow_ok [OF a2 this] t1 have t2: "table_ok t2 \<and> (\<forall>(f, eds) \<in> set t2. eds \<noteq> [])" by blast
  have "\<forall>(k, e) \<in> set (AList.update fd el1 (sh_objs sh)). el_ed e = k"
    using assms(2) el elem_init_effect [OF n(2)] by (auto simp: shim_ok_def dest!: set_update_item)
  with t1 t2 assms(2) elem_init_effect [OF n(2)] show ?thesis
    by (simp add: sh' shim_ok_def)
qed

text \<open>Messages keep the state well-formed, whatever they contain, and send nothing.\<close>

definition msg_keeps :: "shim \<Rightarrow> shim \<Rightarrow> bool" where
  "msg_keeps sh sh' \<longleftrightarrow> (shim_ok sh \<longrightarrow> shim_ok sh') \<and> sh_trigger_time sh' = sh_trigger_time sh \<and>
     w_sent (sh_world sh') = w_sent (sh_world sh)"

lemma msg_keeps_refl [simp]: "msg_keeps sh sh"
  by (simp add: msg_keeps_def)

lemma msg_keeps_trans: "msg_keeps a b \<Longrightarrow> msg_keeps b c \<Longrightarrow> msg_keeps a c"
  by (simp add: msg_keeps_def)

lemma install_keeps:
  assumes "exposed_install_function env msg sh = Inr sh'" and "shim_ok sh"
  shows "msg_keeps sh sh'"
proof -
  obtain fds flow names params st where flow: "flow_of_pval (the (map_of (case msg of PvDict d \<Rightarrow> d | _ \<Rightarrow> []) ''flow'')) = Inr flow"
    and loop: "rfoldM (\<lambda>st i. rbind (list_getitem fds i) (\<lambda>fd. rbind (rbind (list_getitem names i) pv_str) (\<lambda>function_name.
         rbind (list_getitem params i) (\<lambda>params_dict. install_elem env fds fd function_name params_dict st)))) (sh, flow) [0..<length fds] = Inr st"
    and st: "fst st = sh'"
    using assms(1)
    by (auto simp: exposed_install_function_def pv_getitem_def rbind_eq_Inr split: pval.splits)
  have "shim_ok (fst st) \<and> plain_flow (snd st) \<and> sh_trigger_time (fst st) = sh_trigger_time sh \<and>
      w_sent (sh_world (fst st)) = w_sent (sh_world sh)"
    using loop
  proof (rule rfoldM_invariant)
    show "shim_ok (fst (sh, flow)) \<and> plain_flow (snd (sh, flow)) \<and> sh_trigger_time (fst (sh, flow)) = sh_trigger_time sh \<and>
        w_sent (sh_world (fst (sh, flow))) = w_sent (sh_world sh)"
      using assms(2) flow_of_pval_plain [OF flow] by simp
  next
    fix s s' :: "shim \<times> flow_dict" and i
    assume "shim_ok (fst s) \<and> plain_flow (snd s) \<and> sh_trigger_time (fst s) = sh_trigger_time sh \<and>
        w_sent (sh_world (fst s)) = w_sent (sh_world sh)"
      and "rbind (list_getitem fds i) (\<lambda>fd. rbind (rbind (list_getitem names i) pv_str) (\<lambda>function_name.
         rbind (list_getitem params i) (\<lambda>params_dict. install_elem env fds fd function_name params_dict s))) = Inr s'"
    then show "shim_ok (fst s') \<and> plain_flow (snd s') \<and> sh_trigger_time (fst s') = sh_trigger_time sh \<and>
        w_sent (sh_world (fst s')) = w_sent (sh_world sh)"
      by (cases s; cases s') (auto simp: rbind_eq_Inr dest!: install_elem_ok)
  qed
  with st show ?thesis by (auto simp: msg_keeps_def)
qed

lemma configure_keeps: "exposed_configure_function msg sh = Inr sh' \<Longrightarrow> msg_keeps sh sh'"
proof -
  have ed: "el_ed el' = el_ed el" if "elem_configure el ps = Inr el'" for el ps el'
    using that by (auto simp: elem_configure_def rbind_def split: elem_state.splits sum.splits if_splits option.splits pval.splits)
  assume a: "exposed_configure_function msg sh = Inr sh'"
  then obtain fd ps where c: "(case map_of (sh_objs sh) fd of None \<Rightarrow> Inr sh
      | Some el \<Rightarrow> rbind (elem_configure el ps) (\<lambda>el'. Inr (sh\<lparr>sh_objs := AList.update fd el' (sh_objs sh)\<rparr>))) = Inr sh'"
    unfolding exposed_configure_function_def rbind_eq_Inr by blast
  show ?thesis
  proof (cases "map_of (sh_objs sh) fd")
    case None
    with c show ?thesis by simp
  next
    case (Some el)
    with c obtain el' where "elem_configure el ps = Inr el'" "sh' = sh\<lparr>sh_objs := AList.update fd el' (sh_objs sh)\<rparr>"
      by (auto simp: rbind_eq_Inr)
    with ed [of el ps el'] Some show ?thesis
      by (auto simp: msg_keeps_def shim_ok_def dest!: set_update_item dest: map_of_SomeD)
  qed
qed

lemma stop_keeps:
  assumes "exposed_stop_function msg sh = Inr sh'"
  shows "msg_keeps sh sh'"
proof -
  have del: "set (AList.delete k d) \<subseteq> set d" for k :: int and d :: "(int, element) dict"
    by (auto simp: AList.delete_eq)
  have "sh' = sh \<or> (\<exists>fd. sh' = sh\<lparr>sh_objs := AList.delete fd (sh_objs sh)\<rparr>)"
    using assms by (auto simp: exposed_stop_function_def rbind_eq_Inr split: if_splits)
  then show ?thesis
    using del by (fastforce simp: msg_keeps_def shim_ok_def)
qed

lemma handle_msg_keeps:
  assumes "handle_msg env sh msg = Inr sh'" and "shim_ok sh"
  shows "msg_keeps sh sh'"
  using assms install_keeps configure_keeps stop_keeps
  by (auto simp: handle_msg_def rbind_eq_Inr split: if_splits)

lemma decode_msg_keeps:
  assumes "decode_msg_and_call env data sh = Inr sh'" and "shim_ok sh"
  shows "msg_keeps sh sh' \<and> shim_ok sh'"
  using assms(1) unfolding decode_msg_and_call_def Let_def
proof (rule rfoldM_invariant)
  show "msg_keeps sh sh \<and> shim_ok sh" using assms(2) by simp
next
  fix s s' :: shim and x
  assume "msg_keeps sh s \<and> shim_ok s"
    and "(case x of (index, m) \<Rightarrow> if index < length (split_on CHR 0x0A data) - 1 then rbind (loads m) (handle_msg env s) else Inr s) = Inr s'"
  then show "msg_keeps sh s' \<and> shim_ok s'"
    using msg_keeps_trans handle_msg_keeps
    by (cases x) (fastforce simp: rbind_eq_Inr msg_keeps_def split: if_splits)
qed

section \<open>Load reports\<close>

definition is_report :: "pval \<Rightarrow> bool" where
  "is_report v = (case v of PvDict ((k1, _) # (k2, _) # _) \<Rightarrow> k1 = ''ed'' \<and> k2 = ''mac'' | _ \<Rightarrow> False)"

definition reports :: "shim \<Rightarrow> nat" where
  "reports sh = length (filter is_report (w_sent (sh_world sh)))"

lemma elem_trigger_no_report: "list_all elem_trigger ts \<Longrightarrow> filter is_report ts = []"
  by (induction ts) (auto simp: elem_trigger_def is_report_def)

definition report_step :: "rat \<Rightarrow> shim \<Rightarrow> shim \<Rightarrow> bool" where
  "report_step now sh sh' \<longleftrightarrow>
     reports sh' = reports sh \<and> sh_trigger_time sh' = sh_trigger_time sh \<or>
     reports sh' = reports sh + 1 \<and> sh_trigger_time sh' = now \<and> TRIGGER_INTERVAL < now - sh_trigger_time sh"

lemma calc_triggers_step: "report_step now sh (calc_triggers now sh) \<and> shim_ok (calc_triggers now sh) = shim_ok sh"
  by (auto simp: report_step_def calc_triggers_def send_data_basic_def reports_def is_report_def shim_ok_def)

lemma demux_step:
  assumes "demux env now buf sh = Inr sh'" and "shim_ok sh"
  shows "report_step now sh sh' \<and> shim_ok sh'"
proof -
  have refl: "report_step now sh sh" by (simp add: report_step_def)
  consider "sh' = sh" | fds out where "run_chain (process_pkt env now) fds (Frames [buf]) None (calc_triggers now sh) = Inr (sh', out)"
    | fds sh2 b where "run_chain (process_pkt env now) fds (Frames [buf]) None (calc_triggers now sh) = Inr (sh2, Some b)" "sh' = fwd_pkt b sh2"
    using assms(1) unfolding demux_def rbind_eq_Inr Let_def
    by (auto simp: rbind_eq_Inr split: if_splits option.splits prod.splits)
  then show ?thesis
  proof cases
    case 1
    then show ?thesis using refl assms(2) by simp
  next
    case 2
    with elems.chain_effect [OF 2] calc_triggers_step [of now sh] assms(2) elem_trigger_no_report show ?thesis
      by (fastforce simp: report_step_def reports_def)
  next
    case 3
    with elems.chain_effect [OF 3(1)] calc_triggers_step [of now sh] assms(2) elem_trigger_no_report show ?thesis
      by (fastforce simp: report_step_def reports_def fwd_pkt_def shim_ok_def)
  qed
qed

lemma decode_step:
  assumes "decode env now received buf sh = Inr sh'" and "shim_ok sh"
  shows "report_step now sh sh' \<and> shim_ok sh'"
proof -
  obtain sh1 where 1: "(case received of None \<Rightarrow> Inr sh | Some data \<Rightarrow> if data \<noteq> [] then decode_msg_and_call env data sh else Inr sh) = Inr sh1"
    and d: "demux env now buf sh1 = Inr sh'"
    using assms(1) unfolding decode_def rbind_eq_Inr by blast
  have "msg_keeps sh sh1 \<and> shim_ok sh1"
    using 1 decode_msg_keeps assms(2) by (auto split: option.splits if_splits)
  with demux_step [OF d] show ?thesis
    by (auto simp: report_step_def msg_keeps_def reports_def)
qed

section \<open>An example\<close>

definition http_flow :: flow_dict where
  "http_flow = AList.update ''tp_dst'' (FInt 80) make_wildcard_flow"

definition tcp_flow :: flow_dict where
  "tcp_flow = AList.update ''nw_proto'' (FInt 6) make_wildcard_flow"

definition demo_shim :: shim where
  "demo_shim = shim_init 5 ''10.0.0.5''"

lemma demo_own_ip: "own_ip demo_shim"
proof -
  have "inet_aton_bytes ''10.0.0.5'' = Inr (map char_of_byte [10, 0, 0, 5])" by code_simp
  then show ?thesis by (simp add: own_ip_def demo_shim_def shim_init_def shim_register_machine_def send_data_basic_def)
qed

lemma wildcard_update_app:
  assumes "k \<in> {''dl_type'', ''nw_proto'', ''tp_src'', ''tp_dst''}" and "plain v"
  shows "app_flow (AList.update k v make_wildcard_flow)"
proof -
  have wk: "dict_keys make_wildcard_flow = flow_keys" by (simp add: make_wildcard_flow_def flow_keys_def)
  have kin: "k \<in> set flow_keys" using assms(1) by (auto simp: flow_keys_def)
  have keys: "dict_keys (AList.update k v make_wildcard_flow) = flow_keys"
    using kin by (simp add: update_keys wk)
  have "distinct flow_keys" "set flow_keys - {''in_port''} = set flow_keys" by (simp_all add: flow_keys_def)
  moreover have "valid_flow (AList.update k v make_wildcard_flow)"
    using assms(1) valid_wildcard_flow unfolding valid_flow_def by auto
  moreover have "list_all (\<lambda>(k, v). plain v) (AList.update k v make_wildcard_flow)"
    unfolding list_all_iff
  proof
    fix x
    assume "x \<in> set (AList.update k v make_wildcard_flow)"
    then have "x = (k, v) \<or> x \<in> set make_wildcard_flow" by (rule set_update_item)
    then show "case x of (k, v) \<Rightarrow> plain v" using assms(2) by (auto simp: make_wildcard_flow_def)
  qed
  ultimately show ?thesis unfolding app_flow_def keys by blast
qed

lemma demo_flows: "app_flow http_flow" "app_flow tcp_flow"
  by (simp_all add: http_flow_def tcp_flow_def wildcard_update_app)

lemma demo_keys:
  "flow_key http_flow = \<lparr>in_port = FInt 0, dl_src = FNone, dl_dst = FNone, dl_vlan = FNone, dl_vlan_pcp = FNone, dl_type = FNone,
     nw_src = FNone, nw_dst = FNone, nw_proto = FNone, tp_src = FNone, tp_dst = FInt 80\<rparr>"
  "flow_key tcp_flow = \<lparr>in_port = FInt 0, dl_src = FNone, dl_dst = FNone, dl_vlan = FNone, dl_vlan_pcp = FNone, dl_type = FNone,
     nw_src = FNone, nw_dst = FNone, nw_proto = FInt 6, tp_src = FNone, tp_dst = FNone\<rparr>"
  by (simp_all add: flow_key_def flow_to_tuple_def tuple_of_dict_def http_flow_def tcp_flow_def make_wildcard_flow_def dict_getitem_def
      opt_mac_field_def)

lemma demo_covers:
  "shim_covers (flow_key http_flow) (frame_tuple demo_eth demo_ip 1234 80)"
  "shim_covers (flow_key tcp_flow) (frame_tuple demo_eth demo_ip 1234 80)"
  by (simp_all add: demo_keys shim_covers_def item_fields_def packet_fields_def frame_tuple_def demo_ip_def)

lemma demo_table: "sh_table demo_shim = []"
  by (simp add: demo_shim_def shim_init_def shim_register_machine_def send_data_basic_def)

lemma new_states:
  "new_state env ''Noop'' = Inr NoopS" "new_state env ''Drop'' = Inr DropS" "new_state env ''TriggerAll'' = Inr TriggerAllS"
  "new_state env ''More'' = Inr (MoreS (PvInt 2) 0 0 0)" "new_state env ''Encrypt'' = Inr EncryptS"
  by (simp_all add: new_state_def)

lemma installable_plain:
  "installable env ''Noop'' ps" "installable env ''Drop'' ps" "installable env ''TriggerAll'' ps"
  by (simp_all add: installable_def new_element_def new_states elem_init_def)

text \<open>The example shim with one element installed on the web flow.\<close>

definition demo_with :: "elem_state \<Rightarrow> shim" where
  "demo_with st = demo_shim\<lparr>sh_objs := [(2, \<lparr>el_ed = 2, el_file = None, el_state = st\<rparr>)], sh_table := table_for (flow_key http_flow) [2]\<rparr>"

lemma demo_with_own: "own_ip (demo_with st)"
  using demo_own_ip by (simp add: demo_with_def own_ip_def)

lemma demo_handles:
  obtains flow where "extract_flow demo_eth = Inr flow" "get_function_handles_from_flow flow (demo_with st) = Inr (Some [2])"
proof -
  obtain flow where f: "extract_flow demo_eth = Inr flow" "convert_flow 0 flow = Inr (Some (frame_tuple demo_eth demo_ip 1234 80))"
    using extract_flow_ip [OF demo_frame] by blast
  have "reverse_key (flow_key http_flow) \<noteq> flow_key http_flow"
    by (simp add: demo_keys reverse_key_def get_reverse_flow_def)
  with handles_table_for [of "demo_with st" "flow_key http_flow" "[2]" flow, OF _ _ _ flow_key_plain [OF demo_flows(1)] f(2) packet_frame_tuple]
    demo_covers(1) f(1) show thesis
    by (intro that) (simp_all add: demo_with_def entered_def)
qed

lemma demo_install: "handle_msg demo_elem_env demo_shim (install_json 2 http_flow ''Noop'' []) = Inr (demo_with NoopS)"
  using handle_install [OF demo_flows(1), of demo_elem_env "''Noop''" 2 _ "[]" demo_shim] push_table_for [of "flow_key http_flow" 2 "[]"]
  by (simp add: new_element_def new_states elem_init_def demo_with_def table_for_def demo_shim_def shim_init_def
      shim_register_machine_def send_data_basic_def)

lemma demo_json: "json_ok fr (install_json 2 http_flow ''Noop'' [])"
  by (simp add: install_json_def http_flow_def make_wildcard_flow_def pval_of_fval_def ascii_def)

lemma demo_event:
  "decode demo_elem_env 7 (Some (dumps fr (install_json 2 http_flow ''Noop'' []) @ [CHR 0x0A])) ''x'' demo_shim =
     Inr (fwd_pkt (Frames [''x'']) (calc_triggers 7 (demo_with NoopS)))"
proof -
  have t: "decode_msg_and_call demo_elem_env (dumps fr (install_json 2 http_flow ''Noop'' []) @ [CHR 0x0A]) demo_shim = Inr (demo_with NoopS)"
    using decode_dumps [of "[install_json 2 http_flow ''Noop'' []]" fr "[]" demo_elem_env demo_shim] demo_json demo_install by simp
  obtain flow where f: "extract_flow demo_eth = Inr flow" "get_function_handles_from_flow flow (demo_with NoopS) = Inr (Some [2])"
    by (rule demo_handles)
  have "run_chain (process_pkt demo_elem_env 7) [2] (Frames [''x'']) None (calc_triggers 7 (demo_with NoopS)) =
      Inr (calc_triggers 7 (demo_with NoopS), Some (Frames [''x'']))"
    by (simp add: demo_with_def dict_getitem_def process_pkt_def data_truthy_def data_len_def calc_triggers_def send_data_basic_def Let_def)
  with demux_ip [OF demo_parse(1) demo_frame demo_with_own [of NoopS], where now = 7 and buf = "''x''"] f
  have "demux demo_elem_env 7 ''x'' (demo_with NoopS) = Inr (fwd_pkt (Frames [''x'']) (calc_triggers 7 (demo_with NoopS)))"
    by auto
  with t show ?thesis by (simp add: decode_def)
qed

section \<open>Properties\<close>

lemma more_installed:
  "\<exists>el el1 w1. new_element env ''More'' fd = Inr el \<and>
     elem_init env el (PvDict [(''file_name'', PvStr s), (''inflation_rate'', PvInt (int n))]) w = Inr (el1, w1) \<and>
     el_state el1 = MoreS (PvInt (int n)) 0 0 0 \<and> el_file el1 = Some (s @ dump_int fd) \<and> w_fwd w1 = w_fwd w" if "2 \<le> n"
  using that
  by (simp add: new_element_def new_states elem_init_def more_init_def open_log_def open_file_def log_filename_def pv_getitem_def dict_getitem_def Let_def
      pv_truthy_def int_ge_def pv_rat_def)

lemma concat_replicate_mult: "concat (replicate m (replicate n x)) = replicate (m * n) x"
  by (induction m) (auto simp: replicate_add)

lemma chain_twice:
  assumes "map_of (sh_objs sh) fd = Some el" and "process el buf (sh_world sh) = Inr (el1, w1, Some b1)" and "data_truthy b1"
    and "process el1 b1 w1 = Inr (el2, w2, Some b2)" and "data_truthy b2"
  shows "run_chain process [fd, fd] buf None sh = Inr (sh\<lparr>sh_objs := AList.update fd el2 (sh_objs sh), sh_world := w2\<rparr>, Some b2)"
  using assms by (simp add: dict_getitem_def)

lemma calc_triggers_fields [simp]:
  "sh_objs (calc_triggers now sh) = sh_objs sh" "w_fwd (sh_world (calc_triggers now sh)) = w_fwd (sh_world sh)"
  by (simp_all add: calc_triggers_def send_data_basic_def)

text \<open>
  C37. A flow space that is its own reverse (one that names only the protocol, say) has every instance entered twice:
  the element \<^verbatim>\<open>More\<close>, asked to multiply the packets by \<open>n\<close>, sends \<open>n * n\<close> copies of each.
\<close>

theorem symmetric_flow_doubles:
  assumes "app_flow flow" and "reverse_key (flow_key flow) = flow_key flow" and "sh_table sh = []" and "own_ip sh"
    and "ee_ethernet env (Frame buf) = Inr eth" and "ip_frame eth ip sport dport"
    and "shim_covers (flow_key flow) (frame_tuple eth ip sport dport)" and "2 \<le> n"
  shows "\<exists>sh1 sh2. handle_msg env sh (install_json fd flow ''More'' [(''file_name'', PvStr s), (''inflation_rate'', PvInt (int n))]) = Inr sh1 \<and>
    demux env now buf sh1 = Inr sh2 \<and> w_fwd (sh_world sh2) = w_fwd (sh_world sh) @ replicate (n * n) buf"
proof -
  let ?ps = "[(''file_name'', PvStr s), (''inflation_rate'', PvInt (int n))]"
  obtain el el1 w1 where el: "new_element env ''More'' fd = Inr el" "elem_init env el (PvDict ?ps) (sh_world sh) = Inr (el1, w1)"
    and el1: "el_state el1 = MoreS (PvInt (int n)) 0 0 0" "el_file el1 = Some (s @ dump_int fd)" "w_fwd w1 = w_fwd (sh_world sh)"
    using more_installed [OF assms(8)] by blast
  define sh1 where "sh1 = sh\<lparr>sh_objs := AList.update fd el1 (sh_objs sh), sh_table := table_for (flow_key flow) [fd], sh_world := w1\<rparr>"
  have inst: "handle_msg env sh (install_json fd flow ''More'' ?ps) = Inr sh1"
    using handle_install [OF assms(1) el] push_table_for [of "flow_key flow" fd "[]"]
    by (simp add: sh1_def assms(3) table_for_def)
  have own: "own_ip sh1" using assms(4) by (simp add: own_ip_def sh1_def)
  obtain fl where fl: "convert_flow 0 fl = Inr (Some (frame_tuple eth ip sport dport))"
    and d: "demux env now buf sh1 =
      rbind (get_function_handles_from_flow fl sh1) (\<lambda>handles.
      case handles of
        None \<Rightarrow> Inr sh1
      | Some fds \<Rightarrow> rbind (run_chain (process_pkt env now) fds (Frames [buf]) None (calc_triggers now sh1)) (\<lambda>(sh2, processed).
          case processed of None \<Rightarrow> Inr sh2 | Some b \<Rightarrow> Inr (fwd_pkt b sh2)))"
    using demux_ip [OF assms(5,6) own, of now] by blast
  have handles: "get_function_handles_from_flow fl sh1 = Inr (Some [fd, fd])"
    using handles_table_for [of sh1 "flow_key flow" "[fd]" fl, OF _ _ _ flow_key_plain [OF assms(1)] fl packet_frame_tuple] assms(2,7)
    by (simp add: sh1_def entered_def update_keys)
  have ok: "frame_ok env buf" by (rule parsed_frame_ok [OF assms(5,6)])
  let ?sh = "calc_triggers now sh1"
  obtain w2 where s1: "process_pkt env now el1 (Frames [buf]) (sh_world ?sh) =
      Inr (el1\<lparr>el_state := MoreS (PvInt (int n)) 1 0 0\<rparr>, w2, Some (Frames (replicate n buf)))"
    using more_step [OF el1(1,2) assms(8), of "[buf]" env now] ok concat_replicate_mult [of n 1 buf] by auto
  obtain el3 w3 where s2: "process_pkt env now (el1\<lparr>el_state := MoreS (PvInt (int n)) 1 0 0\<rparr>) (Frames (replicate n buf)) w2 =
      Inr (el3, w3, Some (Frames (replicate (n * n) buf)))"
    using more_step [of "el1\<lparr>el_state := MoreS (PvInt (int n)) 1 0 0\<rparr>" n 1 0 0 _ "replicate n buf" env now w2] ok el1(2) assms(8)
    by (auto simp: concat_replicate_mult)
  have fwd: "w_fwd w3 = w_fwd (sh_world sh)"
    using process_effect [OF s1] process_effect [OF s2] el1(3) by (simp add: elem_effect_def sh1_def)
  have truthy: "data_truthy (Frames (replicate n buf))" "data_truthy (Frames (replicate (n * n) buf))"
    using assms(8) by (simp_all add: data_truthy_def data_len_def)
  have "map_of (sh_objs ?sh) fd = Some el1" by (simp add: sh1_def)
  from chain_twice [of ?sh, OF this s1 truthy(1) s2 truthy(2)] handles d inst fwd show ?thesis
    by (simp add: fwd_pkt_def)
qed

theorem symmetric_flow_doubles_witness:
  "\<exists>sh1 sh2. handle_msg demo_elem_env demo_shim
      (install_json 2 tcp_flow ''More'' [(''file_name'', PvStr ''log''), (''inflation_rate'', PvInt (int 2))]) = Inr sh1 \<and>
    demux demo_elem_env 7 ''x'' sh1 = Inr sh2 \<and> w_fwd (sh_world sh2) = w_fwd (sh_world demo_shim) @ replicate (2 * 2) ''x''"
proof -
  have "reverse_key (flow_key tcp_flow) = flow_key tcp_flow"
    by (simp add: demo_keys reverse_key_def get_reverse_flow_def)
  from symmetric_flow_doubles [OF demo_flows(2) this demo_table demo_own_ip demo_parse(1) demo_frame demo_covers(2), of 2] show ?thesis
    by blast
qed

text \<open>
  Stopping one instance ends its flows: the table keeps the descriptor, the lookup finds no object for it and gives up the
  whole chain, so frames of the flow are neither processed by the other instances nor forwarded.
\<close>

lemma stop_ends_flow:
  assumes "get_function_handles_from_flow flow sh = Inr (Some fds)" and "fd \<in> set fds" and "map_of (sh_objs sh) fd = Some el"
    and "elem_shutdown el = Inr True"
  shows "\<exists>sh'. handle_msg env sh (PvDict [(''type'', PvStr ''stop''), (''fd'', PvInt fd)]) = Inr sh' \<and>
    get_function_handles_from_flow flow sh' = Inr None"
proof -
  let ?sh = "sh\<lparr>sh_objs := AList.delete fd (sh_objs sh)\<rparr>"
  have "handle_msg env sh (PvDict [(''type'', PvStr ''stop''), (''fd'', PvInt fd)]) = Inr ?sh"
    using assms(3,4)
    by (simp add: handle_msg_def pv_getitem_def dict_getitem_def exposed_stop_function_def pv_to_int_def)
  moreover have "lookup_flow (sh_table sh) flow = Inr (Some fds)" "fds \<noteq> []"
    using assms(1) by (auto simp: get_function_handles_from_flow_def rbind_def split: sum.splits option.splits if_splits)
  moreover have "\<not> list_all (has_key (sh_objs ?sh)) fds" using assms(2) by (auto simp: list_all_iff)
  ultimately show ?thesis by (intro exI [of _ ?sh]) (simp add: get_function_handles_from_flow_def)
qed

lemma stop_ends_flow_example:
  "\<exists>flow sh'. extract_flow demo_eth = Inr flow \<and> get_function_handles_from_flow flow (demo_with NoopS) = Inr (Some [2]) \<and>
    handle_msg demo_elem_env (demo_with NoopS) (PvDict [(''type'', PvStr ''stop''), (''fd'', PvInt 2)]) = Inr sh' \<and>
    get_function_handles_from_flow flow sh' = Inr None"
proof -
  obtain flow where f: "extract_flow demo_eth = Inr flow" "get_function_handles_from_flow flow (demo_with NoopS) = Inr (Some [2])"
    by (rule demo_handles)
  from stop_ends_flow [OF f(2), of 2 "\<lparr>el_ed = 2, el_file = None, el_state = NoopS\<rparr>" demo_elem_env] f show ?thesis
    by (auto simp: demo_with_def elem_shutdown_def)
qed

text \<open>The elements that parse their argument as one frame.\<close>

fun parses_frame :: "elem_state \<Rightarrow> bool" where
  "parses_frame (ConstantS _) = True"
| "parses_frame (CompressS _ _) = True"
| "parses_frame EncryptS = True"
| "parses_frame IDSS = True"
| "parses_frame LoadBalancerS = True"
| "parses_frame StatefulFirewallS = True"
| "parses_frame (DnsDpiS _) = True"
| "parses_frame (P0fS _) = True"
| "parses_frame (BloomFilterS _ _) = True"
| "parses_frame _ = False"

lemma parses_frame_raises:
  assumes "parses_frame (el_state el)" and "ee_ethernet env (Frames fs) = Inl e"
  shows "process_pkt env now el (Frames fs) w = Inl e"
  using assms
  by (cases "el_state el")
     (auto simp: process_pkt_def constant_process_def compress_process_def dummy_process_def elem_extract_flow_def dnsdpi_process_def
       p0f_process_def bloom_process_def)

text \<open>
  C36. The shim hands every chain a list of frames.  If the library that parses frames raises when it is given a list (it takes a string),
  then a chain whose first instance is one of the nine elements that parse their argument (encryption, the
  firewall, the intrusion detection and the load balancer of the enterprise policy among them) never processes a frame: \<^verbatim>\<open>demux\<close> raises,
  and no handler in the capture loop catches it.
\<close>

theorem parsing_chain_raises:
  assumes "\<And>fs. ee_ethernet env (Frames fs) = Inl e" and "ee_ethernet env (Frame buf) = Inr eth" and "ip_frame eth ip sport dport"
    and "own_ip sh" and "extract_flow eth = Inr flow" and "get_function_handles_from_flow flow sh = Inr (Some (fd # fds))"
    and "map_of (sh_objs sh) fd = Some el" and "parses_frame (el_state el)"
  shows "demux env now buf sh = Inl e"
proof -
  have "run_chain (process_pkt env now) (fd # fds) (Frames [buf]) None (calc_triggers now sh) = Inl e"
    using assms(7) parses_frame_raises [OF assms(8) assms(1)] by (simp add: dict_getitem_def)
  with demux_ip [OF assms(2-4), of now] assms(5,6) show ?thesis by auto
qed

theorem parsing_chain_raises_witness:
  "demux demo_elem_env 7 ''x'' (demo_with EncryptS) = Inl TypeError"
proof -
  obtain flow where f: "extract_flow demo_eth = Inr flow" "get_function_handles_from_flow flow (demo_with EncryptS) = Inr (Some [2])"
    by (rule demo_handles)
  show ?thesis
    by (rule parsing_chain_raises [OF demo_parse(2) demo_parse(1) demo_frame demo_with_own f, of "\<lparr>el_ed = 2, el_file = None, el_state = EncryptS\<rparr>"])
       (simp_all add: demo_with_def)
qed

text \<open>
  C8. Whatever text arrives from the controller and whatever frames are captured, as long as nothing raises, the
  state stays well-formed: the table's keys are flow tuples of plain values with at least one descriptor each, without repetition,
  and every element object is stored under its own descriptor.
\<close>

theorem shim_stays_ok:
  assumes "rfoldM (\<lambda>sh (now, received, buf). decode env now received buf sh) (shim_init mac ip) events = Inr sh'"
  shows "shim_ok sh'"
  using assms
proof (rule rfoldM_invariant)
  show "shim_ok (shim_init mac ip)"
    by (simp add: shim_ok_def shim_init_def shim_register_machine_def send_data_basic_def table_ok_def)
next
  fix s s' :: shim and x
  assume "shim_ok s" and "(case x of (now, received, buf) \<Rightarrow> decode env now received buf s) = Inr s'"
  then show "shim_ok s'" using decode_step by (auto split: prod.splits)
qed

theorem shim_stays_ok_witness:
  "\<exists>sh'. rfoldM (\<lambda>sh (now, received, buf). decode demo_elem_env now received buf sh) (shim_init 5 ''10.0.0.5'')
      [(7, Some (dumps (\<lambda>_. []) (install_json 2 http_flow ''Noop'' []) @ [CHR 0x0A]), ''x'')] = Inr sh' \<and> shim_ok sh' \<and>
    w_fwd (sh_world sh') = [''x'']"
proof -
  let ?ev = "[(7, Some (dumps (\<lambda>_. []) (install_json 2 http_flow ''Noop'' []) @ [CHR 0x0A]), ''x'')]"
  have run: "rfoldM (\<lambda>sh (now, received, buf). decode demo_elem_env now received buf sh) (shim_init 5 ''10.0.0.5'') ?ev =
      Inr (fwd_pkt (Frames [''x'']) (calc_triggers 7 (demo_with NoopS)))"
    using demo_event by (simp add: demo_shim_def)
  from shim_stays_ok [OF run] run show ?thesis
    by (simp add: fwd_pkt_def demo_with_def demo_shim_def shim_init_def shim_register_machine_def send_data_basic_def)
qed

lemma report_steps:
  assumes "rfoldM (\<lambda>sh (now, received, buf). decode env now received buf sh) sh events = Inr sh'" and "shim_ok sh"
  shows "TRIGGER_INTERVAL * of_nat (reports sh') \<le> TRIGGER_INTERVAL * of_nat (reports sh) + (sh_trigger_time sh' - sh_trigger_time sh) \<and>
    (reports sh' = reports sh \<and> sh_trigger_time sh' = sh_trigger_time sh \<or> sh_trigger_time sh' \<in> fst ` set events)"
  using assms
proof (induction events arbitrary: sh)
  case Nil
  then show ?case by simp
next
  case (Cons ev events)
  obtain now received buf where ev: "ev = (now, received, buf)" by (cases ev) auto
  obtain sh1 where d: "decode env now received buf sh = Inr sh1"
    and rest: "rfoldM (\<lambda>sh (now, received, buf). decode env now received buf sh) sh1 events = Inr sh'"
    using Cons.prems(1) by (auto simp: ev rbind_eq_Inr)
  have step: "report_step now sh sh1" "shim_ok sh1" using decode_step [OF d Cons.prems(2)] by auto
  from step(1) Cons.IH [OF rest step(2)] show ?case
    by (auto simp: report_step_def ev algebra_simps)
qed

text \<open>
  C32. The shim's own load reports are at least 500 seconds apart: over any run of messages and frames, 500 seconds
  times the number of reports sent is at most the time from the last report before the run to the last one in it.
\<close>

theorem report_rate:
  assumes "rfoldM (\<lambda>sh (now, received, buf). decode env now received buf sh) sh events = Inr sh'" and "shim_ok sh"
  shows "500 * of_nat (reports sh') \<le> 500 * of_nat (reports sh) + (sh_trigger_time sh' - sh_trigger_time sh) \<and>
    (reports sh' = reports sh \<or> sh_trigger_time sh' \<in> fst ` set events)"
  using report_steps [OF assms] by (auto simp: TRIGGER_INTERVAL_def)

theorem report_rate_witness:
  "\<exists>sh'. rfoldM (\<lambda>sh (now, received, buf). decode demo_elem_env now received buf sh) (demo_with NoopS) [(600, None, ''x'')] = Inr sh' \<and>
    500 * of_nat (reports sh') \<le> 500 * of_nat (reports (demo_with NoopS)) + (sh_trigger_time sh' - sh_trigger_time (demo_with NoopS)) \<and>
    reports sh' = reports (demo_with NoopS) + 1"
proof -
  obtain flow where f: "extract_flow demo_eth = Inr flow" "get_function_handles_from_flow flow (demo_with NoopS) = Inr (Some [2])"
    by (rule demo_handles)
  have "run_chain (process_pkt demo_elem_env 600) [2] (Frames [''x'']) None (calc_triggers 600 (demo_with NoopS)) =
      Inr (calc_triggers 600 (demo_with NoopS), Some (Frames [''x'']))"
    by (simp add: demo_with_def dict_getitem_def process_pkt_def data_truthy_def data_len_def calc_triggers_def send_data_basic_def Let_def)
  with demux_ip [OF demo_parse(1) demo_frame demo_with_own [of NoopS], where now = 600 and buf = "''x''"] f
  have run: "rfoldM (\<lambda>sh (now, received, buf). decode demo_elem_env now received buf sh) (demo_with NoopS) [(600, None, ''x'')] =
      Inr (fwd_pkt (Frames [''x'']) (calc_triggers 600 (demo_with NoopS)))"
    by (auto simp: decode_def)
  have ok: "shim_ok (demo_with NoopS)"
    using table_for_ok [OF flow_key_plain [OF demo_flows(1)], of "[2]"]
    by (auto simp: shim_ok_def demo_with_def table_for_def entered_def)
  have "reports (fwd_pkt (Frames [''x'']) (calc_triggers 600 (demo_with NoopS))) = reports (demo_with NoopS) + 1"
    by (simp add: reports_def fwd_pkt_def calc_triggers_def send_data_basic_def is_report_def demo_with_def demo_shim_def shim_init_def
        shim_register_machine_def get_active_flows_def table_for_def BUF_MAX_FLOWS_def TRIGGER_INTERVAL_def)
  with report_rate [OF run ok] run show ?thesis by blast
qed

end
