(* ===== verification/Path_Map.thy ===== *)
theory Path_Map
  imports Slick_Prelude "HOL-Library.Extended_Nat"
begin

text \<open>
  Shortest paths between switches (\<^verbatim>\<open>l2_multi_slick.py\<close>): the path map \<^verbatim>\<open>_calc_paths\<close> fills by
  Floyd-Warshall, the raw paths \<^verbatim>\<open>_get_raw_path\<close> reads off it, and the cooked paths with ports
  that \<^verbatim>\<open>_get_path\<close> builds and \<^verbatim>\<open>_check_path\<close> checks.

  A switch is its datapath id: the program keeps one \<^verbatim>\<open>Switch\<close> object per id.  The two-level
  default dictionaries are dictionaries keyed by the pair of switches; a pair without an entry
  reads as the default.
\<close>

section \<open>Adjacency and path maps\<close>

type_synonym dpid = int
type_synonym adjacency = "(dpid, (dpid, int option) dict) dict"
type_synonym path_entry = "nat option \<times> dpid option"
type_synonym path_map = "(dpid \<times> dpid, path_entry) dict"

definition adj_row :: "adjacency \<Rightarrow> dpid \<Rightarrow> (dpid, int option) dict" where
  "adj_row adjacency sw = (case map_of adjacency sw of None \<Rightarrow> [] | Some row \<Rightarrow> row)"

definition adj :: "adjacency \<Rightarrow> dpid \<Rightarrow> dpid \<Rightarrow> int option" where
  "adj adjacency sw1 sw2 = (case map_of (adj_row adjacency sw1) sw2 of None \<Rightarrow> None | Some port \<Rightarrow> port)"

definition pm_get :: "path_map \<Rightarrow> dpid \<Rightarrow> dpid \<Rightarrow> path_entry" where
  "pm_get pm i j = (case map_of pm (i, j) of None \<Rightarrow> (None, None) | Some e \<Rightarrow> e)"

definition pm_set :: "dpid \<Rightarrow> dpid \<Rightarrow> path_entry \<Rightarrow> path_map \<Rightarrow> path_map" where
  "pm_set i j e pm = AList.update (i, j) e pm"

lemma pm_get_set [simp]: "pm_get (pm_set i j e pm) a b = (if a = i \<and> b = j then e else pm_get pm a b)"
  by (simp add: pm_get_def pm_set_def)

lemma pm_get_Nil [simp]: "pm_get [] a b = (None, None)"
  by (simp add: pm_get_def)

section \<open>Floyd-Warshall\<close>

text \<open>The two loop nests of \<^verbatim>\<open>_calc_paths\<close>.\<close>

definition calc_row :: "adjacency \<Rightarrow> path_map \<Rightarrow> dpid \<Rightarrow> path_map" where
  "calc_row adjacency pm k =
     pm_set k k (Some 0, None)
       (foldl (\<lambda>pm (j, port). case port of None \<Rightarrow> pm | Some _ \<Rightarrow> pm_set k j (Some 1, None) pm)
          pm (adj_row adjacency k))"

definition calc_relax :: "dpid \<Rightarrow> path_map \<Rightarrow> dpid \<times> dpid \<Rightarrow> path_map" where
  "calc_relax k pm ij =
     (case ij of (i, j) \<Rightarrow>
        (case fst (pm_get pm i k) of
           None \<Rightarrow> pm
         | Some dik \<Rightarrow>
             (case fst (pm_get pm k j) of
                None \<Rightarrow> pm
              | Some dkj \<Rightarrow>
                  (let ikj_dist = dik + dkj in
                   case fst (pm_get pm i j) of
                     None \<Rightarrow> pm_set i j (Some ikj_dist, Some k) pm
                   | Some dij \<Rightarrow> if ikj_dist < dij then pm_set i j (Some ikj_dist, Some k) pm else pm))))"

definition calc_phase :: "dpid list \<Rightarrow> path_map \<Rightarrow> dpid \<Rightarrow> path_map" where
  "calc_phase sws pm k = foldl (\<lambda>pm i. foldl (\<lambda>pm j. calc_relax k pm (i, j)) pm sws) pm sws"

definition calc_paths :: "dpid list \<Rightarrow> adjacency \<Rightarrow> path_map" where
  "calc_paths sws adjacency = foldl (calc_phase sws) (foldl (calc_row adjacency) [] sws) sws"

section \<open>Raw and cooked paths\<close>

text \<open>
  \<^verbatim>\<open>_get_raw_path\<close> recurses through the intermediate switches; whether the recursion ends
  depends on the map.  The outer option is non-termination, the result may be an exception
  (adding a list to \<^verbatim>\<open>None\<close>), and the inner option is the \<^verbatim>\<open>None\<close> of the code.
\<close>

partial_function (option) raw_path :: "path_map \<Rightarrow> dpid \<Rightarrow> dpid \<Rightarrow> dpid list option res option" where
  "raw_path pm src dst =
     (if src = dst then Some (Inr (Some []))
      else (case fst (pm_get pm src dst) of
              None \<Rightarrow> Some (Inr None)
            | Some d \<Rightarrow>
                (case snd (pm_get pm src dst) of
                   None \<Rightarrow> Some (Inr (Some []))
                 | Some intermediate \<Rightarrow>
                     Option.bind (raw_path pm src intermediate) (\<lambda>a.
                       case a of
                         Inl e \<Rightarrow> Some (Inl e)
                       | Inr None \<Rightarrow> Some (Inl TypeError)
                       | Inr (Some p) \<Rightarrow>
                           Option.bind (raw_path pm intermediate dst) (\<lambda>b.
                             case b of
                               Inl e \<Rightarrow> Some (Inl e)
                             | Inr None \<Rightarrow> Some (Inl TypeError)
                             | Inr (Some q) \<Rightarrow> Some (Inr (Some (p @ [intermediate] @ q))))))))"

text \<open>The path map is filled when it is found empty.\<close>

definition ensure_paths :: "dpid list \<Rightarrow> adjacency \<Rightarrow> path_map \<Rightarrow> path_map" where
  "ensure_paths sws adjacency pm = (if pm = [] then calc_paths sws adjacency else pm)"

declare raw_path.simps [code]

definition get_raw_path ::
    "dpid list \<Rightarrow> adjacency \<Rightarrow> path_map \<Rightarrow> dpid \<Rightarrow> dpid \<Rightarrow> dpid list option res option" where
  "get_raw_path sws adjacency pm src dst = raw_path (ensure_paths sws adjacency pm) src dst"

type_synonym hop = "dpid \<times> int option \<times> int option"

definition check_path :: "adjacency \<Rightarrow> hop list \<Rightarrow> bool" where
  "check_path adjacency p =
     list_all (\<lambda>((sw1, in1, out1), (sw2, in2, out2)).
        \<not> (adj adjacency sw1 sw2 \<noteq> out1) \<and> \<not> (adj adjacency sw2 sw1 \<noteq> in2))
       (zip (butlast p) (tl p))"

text \<open>The loop that adds the ports, with the port the next switch is entered through.\<close>

fun cook :: "adjacency \<Rightarrow> dpid list \<Rightarrow> int option \<Rightarrow> dpid \<Rightarrow> int option \<Rightarrow> hop list" where
  "cook adjacency (s1 # s2 # path) in_port dst final_port =
     (s1, in_port, adj adjacency s1 s2) # cook adjacency (s2 # path) (adj adjacency s2 s1) dst final_port"
| "cook adjacency path in_port dst final_port = [(dst, in_port, final_port)]"

definition get_path ::
    "dpid list \<Rightarrow> adjacency \<Rightarrow> path_map \<Rightarrow> dpid \<Rightarrow> dpid \<Rightarrow> int option \<Rightarrow> int option \<Rightarrow> hop list option res option" where
  "get_path sws adjacency pm src dst first_port final_port =
     (let finish = (\<lambda>path.
        let r = cook adjacency path first_port dst final_port
        in if check_path adjacency r then Inr (Some r) else Inl AssertionError)
      in if src = dst then Some (finish [src])
         else map_option (\<lambda>raw.
                case raw of
                  Inl e \<Rightarrow> Inl e
                | Inr None \<Rightarrow> Inr None
                | Inr (Some path) \<Rightarrow> finish ([src] @ path @ [dst]))
              (get_raw_path sws adjacency pm src dst))"

section \<open>Walks and distances\<close>

text \<open>The graph: an edge is a known port between two switches.\<close>

definition edge :: "adjacency \<Rightarrow> dpid \<Rightarrow> dpid \<Rightarrow> bool" where
  "edge adjacency a b \<longleftrightarrow> adj adjacency a b \<noteq> None"

definition walk :: "('v \<Rightarrow> 'v \<Rightarrow> bool) \<Rightarrow> 'v \<Rightarrow> 'v list \<Rightarrow> 'v \<Rightarrow> bool" where
  "walk E i p j \<longleftrightarrow> successively E (i # p @ [j])"

lemma walk_Nil [simp]: "walk E i [] j \<longleftrightarrow> E i j"
  by (simp add: walk_def)

lemma walk_Cons [simp]: "walk E i (k # p) j \<longleftrightarrow> E i k \<and> walk E k p j"
  by (simp add: walk_def)

lemma walk_append_iff: "walk E i (p @ k # q) j \<longleftrightarrow> walk E i p k \<and> walk E k q j"
  by (induction p arbitrary: i) auto

abbreviation dist :: "path_map \<Rightarrow> dpid \<Rightarrow> dpid \<Rightarrow> enat" where
  "dist pm i j \<equiv> case_option \<infinity> enat (fst (pm_get pm i j))"

lemma dist_finite: "dist pm i j \<le> enat n \<longleftrightarrow> (\<exists>d \<le> n. fst (pm_get pm i j) = Some d)"
  by (cases "fst (pm_get pm i j)") auto

subsection \<open>Relaxation only improves\<close>

definition improves :: "path_map \<Rightarrow> path_map \<Rightarrow> bool" where
  "improves pm pm' \<longleftrightarrow> (\<forall>i j. dist pm' i j \<le> dist pm i j)"

lemma improves_refl [simp]: "improves pm pm"
  by (simp add: improves_def)

lemma improves_trans: "improves a b \<Longrightarrow> improves b c \<Longrightarrow> improves a c"
  unfolding improves_def by (meson order_trans)

lemma improves_relax: "improves pm (calc_relax k pm ij)"
  by (auto simp: improves_def calc_relax_def Let_def split: prod.splits option.splits)

lemma relax_bound: "dist (calc_relax k pm (i, j)) i j \<le> dist pm i k + dist pm k j"
  by (auto simp: calc_relax_def Let_def split: option.splits)

lemma foldl_improves:
  "(\<And>pm x. improves pm (f pm x)) \<Longrightarrow> improves pm (foldl f pm xs)"
  by (induction xs arbitrary: pm) (auto intro: improves_trans)

text \<open>In a fold of improving steps, the bound one step establishes survives to the end, and the
  state the step starts from is itself an improvement.\<close>

lemma foldl_reaches:
  assumes "\<And>pm x. improves pm (f pm x)" and "x \<in> set xs"
  shows "\<exists>pm'. improves pm pm' \<and> improves (f pm' x) (foldl f pm xs)"
  using assms(2)
proof (induction xs arbitrary: pm)
  case (Cons y xs)
  show ?case
  proof (cases "x = y")
    case True
    then show ?thesis using foldl_improves [of f "f pm y" xs] assms(1)
      by (intro exI [of _ pm]) auto
  next
    case False
    with Cons.prems have "x \<in> set xs" by simp
    from Cons.IH [OF this, of "f pm y"] show ?thesis
      using assms(1) improves_trans by (auto intro: exI) blast
  qed
qed simp

lemma improves_inner: "improves pm (foldl (\<lambda>pm j. calc_relax k pm (i, j)) pm sws)"
  by (rule foldl_improves) (rule improves_relax)

lemma improves_phase: "improves pm (calc_phase sws pm k)"
  unfolding calc_phase_def by (rule foldl_improves) (rule improves_inner)

lemma phase_bound:
  assumes "i \<in> set sws" and "j \<in> set sws"
  shows "dist (calc_phase sws pm k) i j \<le> dist pm i k + dist pm k j"
proof -
  let ?inner = "\<lambda>pm i. foldl (\<lambda>pm j. calc_relax k pm (i, j)) pm sws"
  obtain pm1 where pm1: "improves pm pm1" "improves (?inner pm1 i) (calc_phase sws pm k)"
    unfolding calc_phase_def using foldl_reaches [of ?inner i sws pm] improves_inner assms(1) by blast
  obtain pm2 where pm2: "improves pm1 pm2" "improves (calc_relax k pm2 (i, j)) (?inner pm1 i)"
    using foldl_reaches [of "\<lambda>pm j. calc_relax k pm (i, j)" j sws pm1] improves_relax assms(2) by blast
  have "improves pm pm2" using pm1(1) pm2(1) by (rule improves_trans)
  have "dist (calc_phase sws pm k) i j \<le> dist (calc_relax k pm2 (i, j)) i j"
    using pm1(2) pm2(2) unfolding improves_def by (meson order_trans)
  also have "\<dots> \<le> dist pm2 i k + dist pm2 k j" by (rule relax_bound)
  also have "\<dots> \<le> dist pm i k + dist pm k j"
    using \<open>improves pm pm2\<close> unfolding improves_def by (intro add_mono) auto
  finally show ?thesis .
qed

subsection \<open>Completeness: every walk is bounded\<close>

text \<open>Distances bound the length of every walk whose inner switches have been processed.\<close>

definition bounds_walks :: "adjacency \<Rightarrow> dpid set \<Rightarrow> dpid set \<Rightarrow> path_map \<Rightarrow> bool" where
  "bounds_walks adjacency S K pm \<longleftrightarrow>
     (\<forall>i \<in> S. \<forall>j \<in> S. \<forall>p. walk (edge adjacency) i p j \<and> set p \<subseteq> K \<longrightarrow> dist pm i j \<le> enat (Suc (length p)))"

lemma bounds_walks_phase:
  assumes "bounds_walks adjacency (set sws) K pm" and "k \<in> set sws"
  shows "bounds_walks adjacency (set sws) (insert k K) (calc_phase sws pm k)"
  unfolding bounds_walks_def
proof (intro ballI allI impI)
  fix i j p
  assume ij: "i \<in> set sws" "j \<in> set sws" and w: "walk (edge adjacency) i p j \<and> set p \<subseteq> insert k K"
  have old: "dist pm a b \<le> enat (Suc (length q))"
    if "a \<in> set sws" "b \<in> set sws" "walk (edge adjacency) a q b" "set q \<subseteq> K" for a b q
    using assms(1) that unfolding bounds_walks_def by blast
  show "dist (calc_phase sws pm k) i j \<le> enat (Suc (length p))"
  proof (cases "k \<in> set p")
    case False
    with w have "dist pm i j \<le> enat (Suc (length p))" by (intro old ij) auto
    then show ?thesis using improves_phase [of pm sws k] unfolding improves_def by (meson order_trans)
  next
    case True
    then obtain p1 q where p: "p = p1 @ k # q" "k \<notin> set p1" by (meson split_list_first)
    obtain p2 where p2: "walk (edge adjacency) k p2 j" "set p2 \<subseteq> K" "length p2 \<le> length q"
    proof (cases "k \<in> set q")
      case True
      then obtain q1 p2 where "q = q1 @ k # p2" "k \<notin> set p2" by (meson split_list_last)
      with w p show ?thesis by (intro that [of p2]) (auto simp: walk_append_iff)
    next
      case False
      with w p show ?thesis by (intro that [of q]) (auto simp: walk_append_iff)
    qed
    have "dist pm i k \<le> enat (Suc (length p1))"
      using w p by (intro old ij assms(2)) (auto simp: walk_append_iff)
    moreover have "dist pm k j \<le> enat (Suc (length p2))"
      using p2 by (intro old ij assms(2)) auto
    ultimately have "dist pm i k + dist pm k j \<le> enat (Suc (length p1)) + enat (Suc (length p2))"
      by (rule add_mono)
    also have "\<dots> \<le> enat (Suc (length p))" using p p2(3) by simp
    finally show ?thesis using phase_bound [OF ij, of pm k] by (meson order_trans)
  qed
qed

lemma bounds_walks_phases:
  assumes "bounds_walks adjacency (set sws) K pm" and "set ks \<subseteq> set sws"
  shows "bounds_walks adjacency (set sws) (K \<union> set ks) (foldl (calc_phase sws) pm ks)"
  using assms
proof (induction ks arbitrary: pm K)
  case (Cons k ks)
  from Cons.IH [OF bounds_walks_phase [OF Cons.prems(1)]] Cons.prems(2) show ?case by simp
qed simp

subsection \<open>The initial map\<close>

definition adj_wf :: "adjacency \<Rightarrow> bool" where
  "adj_wf adjacency \<longleftrightarrow> dict_wf adjacency \<and> (\<forall>(sw, row) \<in> set adjacency. dict_wf row)"

lemma adj_row_wf: "adj_wf adjacency \<Longrightarrow> dict_wf (adj_row adjacency k)"
  by (auto simp: adj_wf_def adj_row_def split: option.splits dest!: map_of_SomeD)

lemma calc_row_fold:
  "pm_get (foldl (\<lambda>pm (j, port). case port of None \<Rightarrow> pm | Some _ \<Rightarrow> pm_set k j (Some 1, None) pm) pm row) a b =
     (if a = k \<and> (\<exists>port. (b, Some port) \<in> set row) then (Some 1, None) else pm_get pm a b)"
  by (induction row arbitrary: pm) (auto split: option.splits if_splits)

lemma edge_row: "adj_wf adjacency \<Longrightarrow> edge adjacency a b \<longleftrightarrow> (\<exists>port. (b, Some port) \<in> set (adj_row adjacency a))"
  using adj_row_wf [of adjacency a]
  by (auto simp: edge_def adj_def split: option.splits simp flip: dict_mem_iff dest: eq_key_imp_eq_value)

lemma calc_row_get:
  "adj_wf adjacency \<Longrightarrow> pm_get (calc_row adjacency pm k) a b =
     (if a = k then (if b = k then (Some 0, None) else if edge adjacency k b then (Some 1, None) else pm_get pm a b)
      else pm_get pm a b)"
  unfolding calc_row_def pm_get_set calc_row_fold by (auto simp: edge_row)

lemma calc_rows_get:
  "adj_wf adjacency \<Longrightarrow> pm_get (foldl (calc_row adjacency) pm sws) a b =
     (if a \<in> set sws then
        (if a = b then (Some 0, None) else if edge adjacency a b then (Some 1, None) else pm_get pm a b)
      else pm_get pm a b)"
  by (induction sws arbitrary: pm) (auto simp: calc_row_get)

subsection \<open>Soundness: every entry is a walk\<close>

text \<open>Every entry between two switches is the length of a walk, zero only on the diagonal, and the
  intermediate switch of an entry splits it into two entries that are together no longer.\<close>

definition splits :: "path_map \<Rightarrow> dpid \<Rightarrow> dpid \<Rightarrow> dpid \<Rightarrow> nat \<Rightarrow> bool" where
  "splits pm i k j d \<longleftrightarrow> k \<noteq> i \<and> k \<noteq> j \<and>
     (\<exists>a b. fst (pm_get pm i k) = Some a \<and> fst (pm_get pm k j) = Some b \<and> a + b \<le> d)"

definition entry_ok :: "adjacency \<Rightarrow> dpid set \<Rightarrow> path_map \<Rightarrow> dpid \<Rightarrow> dpid \<Rightarrow> nat \<Rightarrow> dpid option \<Rightarrow> bool" where
  "entry_ok adjacency S pm i j d m \<longleftrightarrow>
     (if i = j then d = 0
      else (\<exists>p. walk (edge adjacency) i p j \<and> set p \<subseteq> S \<and> d = Suc (length p)) \<and>
        (case m of None \<Rightarrow> edge adjacency i j | Some k \<Rightarrow> k \<in> S \<and> splits pm i k j d))"

definition sound :: "adjacency \<Rightarrow> dpid set \<Rightarrow> path_map \<Rightarrow> bool" where
  "sound adjacency S pm \<longleftrightarrow> (\<forall>i \<in> S. fst (pm_get pm i i) = Some 0) \<and>
     (\<forall>i \<in> S. \<forall>j \<in> S. \<forall>d m. pm_get pm i j = (Some d, m) \<longrightarrow> entry_ok adjacency S pm i j d m)"

lemma sound_init: "adj_wf adjacency \<Longrightarrow> sound adjacency (set sws) (foldl (calc_row adjacency) [] sws)"
  unfolding sound_def entry_ok_def
  by (auto simp: calc_rows_get split: if_splits intro: exI [of _ "[]"])

lemma splits_set:
  assumes "splits pm a k b d" and "fst (pm_get pm i j) = None \<or> (\<exists>x. fst (pm_get pm i j) = Some x \<and> n \<le> x)"
  shows "splits (pm_set i j (Some n, m) pm) a k b d"
  using assms unfolding splits_def by (auto split: if_splits)

lemma entry_ok_set:
  assumes "entry_ok adjacency S pm a b d m" and "fst (pm_get pm i j) = None \<or> (\<exists>x. fst (pm_get pm i j) = Some x \<and> n \<le> x)"
  shows "entry_ok adjacency S (pm_set i j (Some n, m') pm) a b d m"
  using assms splits_set [OF _ assms(2)] unfolding entry_ok_def by (auto split: option.splits if_splits)

text \<open>What one relaxation does: nothing, or it replaces the entry by a strictly shorter split.\<close>

lemma relax_cases:
  obtains "calc_relax k pm (i, j) = pm"
  | dik dkj where "fst (pm_get pm i k) = Some dik" "fst (pm_get pm k j) = Some dkj"
      "fst (pm_get pm i j) = None \<or> (\<exists>x. fst (pm_get pm i j) = Some x \<and> dik + dkj < x)"
      "calc_relax k pm (i, j) = pm_set i j (Some (dik + dkj), Some k) pm"
proof (cases "fst (pm_get pm i k)"; cases "fst (pm_get pm k j)")
  fix dik dkj
  assume ik: "fst (pm_get pm i k) = Some dik" and kj: "fst (pm_get pm k j) = Some dkj"
  show thesis
  proof (cases "dist pm i j \<le> enat (dik + dkj)")
    case True
    with ik kj have "calc_relax k pm (i, j) = pm"
      by (auto simp: dist_finite calc_relax_def)
    then show thesis by (rule that(1))
  next
    case False
    with ik kj show thesis
      by (intro that(2)) (auto simp: calc_relax_def split: option.splits)
  qed
qed (auto simp: calc_relax_def intro: that(1))

lemma sound_relax:
  assumes "sound adjacency S pm" and "i \<in> S" "j \<in> S" "k \<in> S"
  shows "sound adjacency S (calc_relax k pm (i, j))"
proof (cases rule: relax_cases [of k pm i j])
  case 1
  with assms(1) show ?thesis by simp
next
  case (2 dik dkj)
  have diag: "fst (pm_get pm a a) = Some 0" if "a \<in> S" for a
    using assms(1) that unfolding sound_def by blast
  have ok: "entry_ok adjacency S pm a b d m" if "a \<in> S" "b \<in> S" "pm_get pm a b = (Some d, m)" for a b d m
    using assms(1) that unfolding sound_def by blast
  have ne: "i \<noteq> j" "k \<noteq> i" "k \<noteq> j" using 2 diag assms(2,3,4) by auto
  obtain p where p: "walk (edge adjacency) i p k" "set p \<subseteq> S" "dik = Suc (length p)"
    using ok [OF assms(2,4), of dik "snd (pm_get pm i k)"] 2(1) ne unfolding entry_ok_def
    by (metis prod.collapse)
  obtain q where q: "walk (edge adjacency) k q j" "set q \<subseteq> S" "dkj = Suc (length q)"
    using ok [OF assms(4,3), of dkj "snd (pm_get pm k j)"] 2(2) ne unfolding entry_ok_def
    by (metis prod.collapse)
  have le: "fst (pm_get pm i j) = None \<or> (\<exists>x. fst (pm_get pm i j) = Some x \<and> dik + dkj \<le> x)"
    using 2(3) by auto
  have new: "entry_ok adjacency S (pm_set i j (Some (dik + dkj), Some k) pm) i j (dik + dkj) (Some k)"
    using p q ne 2(1,2) assms(4) unfolding entry_ok_def splits_def
    by (auto intro!: exI [of _ "p @ k # q"] simp: walk_append_iff)
  show ?thesis
    unfolding sound_def 2(4)
    using new ne diag entry_ok_set [OF ok le] by auto
qed

lemma sound_phases:
  assumes "sound adjacency (set sws) pm" and "set ks \<subseteq> set sws"
  shows "sound adjacency (set sws) (foldl (calc_phase sws) pm ks)"
proof -
  have inner: "sound adjacency (set sws) (foldl (\<lambda>pm j. calc_relax k pm (i, j)) pm js)"
    if "sound adjacency (set sws) pm" "i \<in> set sws" "k \<in> set sws" "set js \<subseteq> set sws" for pm i k js
    using that by (induction js arbitrary: pm) (auto intro: sound_relax)
  have outer: "sound adjacency (set sws) (foldl (\<lambda>pm i. foldl (\<lambda>pm j. calc_relax k pm (i, j)) pm sws) pm is)"
    if "sound adjacency (set sws) pm" "k \<in> set sws" "set is \<subseteq> set sws" for pm k "is"
    using that by (induction "is" arbitrary: pm) (auto intro: inner)
  from assms show ?thesis
    by (induction ks arbitrary: pm) (auto simp: calc_phase_def intro: outer)
qed

lemma calc_paths_sound: "adj_wf adjacency \<Longrightarrow> sound adjacency (set sws) (calc_paths sws adjacency)"
  unfolding calc_paths_def by (intro sound_phases sound_init) auto

lemma calc_paths_bounds: "adj_wf adjacency \<Longrightarrow> bounds_walks adjacency (set sws) (set sws) (calc_paths sws adjacency)"
  unfolding calc_paths_def
  using bounds_walks_phases [of adjacency sws "{}" "foldl (calc_row adjacency) [] sws" sws]
  by (auto simp: bounds_walks_def calc_rows_get one_enat_def)

section \<open>The path map is the shortest-path table\<close>

lemma calc_paths_shortest_distance:
  assumes "adj_wf adjacency" and "i \<in> set sws" and "j \<in> set sws"
  shows "fst (pm_get (calc_paths sws adjacency) i j) =
    (if i = j then Some 0
     else if \<exists>p. walk (edge adjacency) i p j \<and> set p \<subseteq> set sws
     then Some (LEAST n. \<exists>p. walk (edge adjacency) i p j \<and> set p \<subseteq> set sws \<and> n = Suc (length p))
     else None)"
proof -
  let ?pm = "calc_paths sws adjacency"
  let ?W = "\<lambda>n. \<exists>p. walk (edge adjacency) i p j \<and> set p \<subseteq> set sws \<and> n = Suc (length p)"
  have snd: "sound adjacency (set sws) ?pm" using calc_paths_sound [OF assms(1)] .
  have upper: "\<exists>d \<le> n. fst (pm_get ?pm i j) = Some d" if "?W n" for n
    using calc_paths_bounds [OF assms(1), of sws] that assms(2,3)
    unfolding bounds_walks_def dist_finite by blast
  have lower: "?W d" if "fst (pm_get ?pm i j) = Some d" "i \<noteq> j" for d
  proof -
    have "pm_get ?pm i j = (Some d, snd (pm_get ?pm i j))" using that(1) by (metis prod.collapse)
    then have "entry_ok adjacency (set sws) ?pm i j d (snd (pm_get ?pm i j))"
      using snd assms(2,3) unfolding sound_def by blast
    then show ?thesis using that(2) by (auto simp: entry_ok_def)
  qed
  show ?thesis
  proof (cases "i = j")
    case True
    then show ?thesis using snd assms(2) unfolding sound_def by auto
  next
    case False
    show ?thesis
    proof (cases "fst (pm_get ?pm i j)")
      case None
      then have "\<not> (\<exists>p. walk (edge adjacency) i p j \<and> set p \<subseteq> set sws)" using upper by (metis option.distinct(1))
      then show ?thesis using None False by simp
    next
      case (Some d)
      have "(LEAST n. ?W n) = d"
        using lower [OF Some False] upper Some by (intro Least_equality) fastforce+
      then show ?thesis using Some False lower [OF Some False] by auto
    qed
  qed
qed

text \<open>
  C6. \<^verbatim>\<open>_calc_paths\<close> computes shortest paths: between two known switches, the recorded distance
  is \<open>0\<close> for the same switch, and otherwise \<open>d\<close> exactly when some walk over known links and
  switches has \<open>d\<close> hops and none has fewer; there is no distance exactly when there is no walk.
\<close>

theorem calc_paths_shortest:
  assumes "adj_wf adjacency" and "i \<in> set sws" and "j \<in> set sws"
  shows "fst (pm_get (calc_paths sws adjacency) i j) =
    (if i = j then Some 0
     else if \<exists>p. walk (edge adjacency) i p j \<and> set p \<subseteq> set sws
     then Some (LEAST n. \<exists>p. walk (edge adjacency) i p j \<and> set p \<subseteq> set sws \<and> n = Suc (length p))
     else None)"
  using assms by (rule calc_paths_shortest_distance)

text \<open>A small network: three switches in a line, with a fourth one apart.\<close>

definition line_adjacency :: adjacency where
  "line_adjacency = [(1, [(2, Some 10)]), (2, [(1, Some 20), (3, Some 21)]), (3, [(2, Some 30)])]"

lemma line_wf: "adj_wf line_adjacency"
  by (simp add: adj_wf_def line_adjacency_def)

lemma line_walk: "\<exists>p. walk (edge line_adjacency) 1 p 3 \<and> set p \<subseteq> set [1, 2, 3, 4]"
  by (intro exI [of _ "[2]"]) (simp add: edge_def adj_def adj_row_def line_adjacency_def)

theorem calc_paths_shortest_witness:
  "fst (pm_get (calc_paths [1, 2, 3, 4] line_adjacency) 1 3) =
     Some (LEAST n. \<exists>p. walk (edge line_adjacency) 1 p 3 \<and> set p \<subseteq> set [1, 2, 3, 4] \<and> n = Suc (length p))"
  using calc_paths_shortest [OF line_wf, of 1 "[1, 2, 3, 4]" 3] line_walk by simp

section \<open>Raw paths terminate and are shortest\<close>

lemma sound_entry:
  assumes "sound adjacency S pm" and "i \<in> S" "j \<in> S" and "fst (pm_get pm i j) = Some d"
  shows "entry_ok adjacency S pm i j d (snd (pm_get pm i j))"
  using assms unfolding sound_def by (metis prod.collapse)

lemma sound_positive:
  assumes "sound adjacency S pm" and "i \<in> S" "j \<in> S" and "fst (pm_get pm i j) = Some d" and "i \<noteq> j"
  shows "0 < d"
  using sound_entry [OF assms(1-4)] assms(5) by (auto simp: entry_ok_def)

lemma raw_path_sound:
  assumes "sound adjacency S pm" and "i \<in> S" "j \<in> S" "i \<noteq> j" and "fst (pm_get pm i j) = Some d"
  shows "\<exists>p. raw_path pm i j = Some (Inr (Some p)) \<and> walk (edge adjacency) i p j \<and> set p \<subseteq> S \<and> Suc (length p) \<le> d"
  using assms
proof (induction d arbitrary: i j rule: less_induct)
  case (less d)
  note ok = sound_entry [OF less.prems(1-3,5)]
  show ?case
  proof (cases "snd (pm_get pm i j)")
    case None
    with ok less.prems(4,5) show ?thesis
      by (subst raw_path.simps) (auto simp: entry_ok_def)
  next
    case (Some k)
    with ok less.prems(4) have k: "k \<in> S" "k \<noteq> i" "k \<noteq> j" and "splits pm i k j d"
      by (auto simp: entry_ok_def splits_def)
    then obtain a b where ab: "fst (pm_get pm i k) = Some a" "fst (pm_get pm k j) = Some b" "a + b \<le> d"
      by (auto simp: splits_def)
    have pos: "0 < a" "0 < b"
      using sound_positive [OF less.prems(1) less.prems(2) k(1) ab(1)]
        sound_positive [OF less.prems(1) k(1) less.prems(3) ab(2)] k by auto
    obtain p where p: "raw_path pm i k = Some (Inr (Some p))" "walk (edge adjacency) i p k" "set p \<subseteq> S" "Suc (length p) \<le> a"
      using less.IH [of a i k] less.prems k ab pos by auto
    obtain q where q: "raw_path pm k j = Some (Inr (Some q))" "walk (edge adjacency) k q j" "set q \<subseteq> S" "Suc (length q) \<le> b"
      using less.IH [of b k j] less.prems k ab pos by auto
    have "raw_path pm i j = Some (Inr (Some (p @ [k] @ q)))"
      using less.prems(4,5) Some p(1) q(1) by (subst raw_path.simps) simp
    with p q k ab(3) show ?thesis by (intro exI [of _ "p @ k # q"]) (auto simp: walk_append_iff)
  qed
qed

lemma raw_path_unknown: "i \<noteq> j \<Longrightarrow> fst (pm_get pm i j) = None \<Longrightarrow> raw_path pm i j = Some (Inr None)"
  by (subst raw_path.simps) simp

text \<open>
  \<^verbatim>\<open>_get_raw_path\<close> on a fresh path map returns between any two different known switches: the
  switches of a shortest walk when there is one, \<^verbatim>\<open>None\<close> when there is none, never an exception.
\<close>

lemma get_raw_path_shortest:
  assumes "adj_wf adjacency" and "i \<in> set sws" and "j \<in> set sws" and "i \<noteq> j"
  shows "(\<exists>p. get_raw_path sws adjacency [] i j = Some (Inr (Some p)) \<and> walk (edge adjacency) i p j \<and>
            set p \<subseteq> set sws \<and> (\<forall>q. walk (edge adjacency) i q j \<and> set q \<subseteq> set sws \<longrightarrow> length p \<le> length q)) \<or>
         (get_raw_path sws adjacency [] i j = Some (Inr None) \<and>
            (\<forall>q. walk (edge adjacency) i q j \<longrightarrow> \<not> set q \<subseteq> set sws))"
proof -
  let ?pm = "calc_paths sws adjacency"
  have upper: "\<exists>d \<le> Suc (length q). fst (pm_get ?pm i j) = Some d"
    if "walk (edge adjacency) i q j" "set q \<subseteq> set sws" for q
    using calc_paths_bounds [OF assms(1), of sws] that assms(2,3)
    unfolding bounds_walks_def dist_finite by blast
  show ?thesis
  proof (cases "fst (pm_get ?pm i j)")
    case None
    with upper raw_path_unknown [OF assms(4)] show ?thesis
      by (auto simp: get_raw_path_def ensure_paths_def)
  next
    case (Some d)
    with upper raw_path_sound [OF calc_paths_sound [OF assms(1)] assms(2-4)] show ?thesis
      by (fastforce simp: get_raw_path_def ensure_paths_def)
  qed
qed

text \<open>
  C7. \<^verbatim>\<open>_get_raw_path\<close> terminates: its recursion over the intermediate switches has no measure on an arbitrary map, but on the
  map \<^verbatim>\<open>_calc_paths\<close> computes it returns between any two known switches, without an exception, the switches of
  a shortest walk if there is one and \<^verbatim>\<open>None\<close> otherwise.
\<close>

theorem raw_path_terminates:
  assumes "adj_wf adjacency" and "i \<in> set sws" and "j \<in> set sws" and "i \<noteq> j"
  shows "\<exists>r. get_raw_path sws adjacency [] i j = Some (Inr r) \<and>
    (case r of
       Some p \<Rightarrow> walk (edge adjacency) i p j \<and> (\<forall>q. walk (edge adjacency) i q j \<and> set q \<subseteq> set sws \<longrightarrow> length p \<le> length q)
     | None \<Rightarrow> (\<forall>q. walk (edge adjacency) i q j \<longrightarrow> \<not> set q \<subseteq> set sws))"
  using get_raw_path_shortest [OF assms] by auto

theorem raw_path_terminates_witness:
  "\<exists>p. get_raw_path [1, 2, 3, 4] line_adjacency [] 1 3 = Some (Inr (Some p)) \<and> walk (edge line_adjacency) 1 p 3"
  using raw_path_terminates [OF line_wf, of 1 "[1, 2, 3, 4]" 3] line_walk by (auto split: option.splits)

section \<open>Cooked paths\<close>

text \<open>The hops of a cooked path and the conditions \<^verbatim>\<open>_check_path\<close> tests.\<close>

lemma cook_not_Nil [simp]: "cook adjacency path p dst q \<noteq> []"
  by (induction adjacency path p dst q rule: cook.induct) auto

lemma hd_cook:
  "path \<noteq> [] \<Longrightarrow> last path = dst \<Longrightarrow> fst (hd (cook adjacency path p dst q)) = hd path \<and>
     fst (snd (hd (cook adjacency path p dst q))) = p"
  by (induction adjacency path p dst q rule: cook.induct) auto

lemma check_path_Cons:
  "r \<noteq> [] \<Longrightarrow> check_path adjacency (a # r) \<longleftrightarrow>
     adj adjacency (fst a) (fst (hd r)) = snd (snd a) \<and> adj adjacency (fst (hd r)) (fst a) = fst (snd (hd r)) \<and>
     check_path adjacency r"
  by (cases a; cases r) (auto simp: check_path_def)

lemma cook_checked:
  "path \<noteq> [] \<Longrightarrow> last path = dst \<Longrightarrow> check_path adjacency (cook adjacency path p dst q)"
proof (induction adjacency path p dst q rule: cook.induct)
  case (1 adjacency s1 s2 path p dst q)
  then show ?case
    using hd_cook [of "s2 # path" dst adjacency "adj adjacency s2 s1" q] by (simp add: check_path_Cons)
qed (auto simp: check_path_def)

lemma map_fst_cook: "path \<noteq> [] \<Longrightarrow> last path = dst \<Longrightarrow> map fst (cook adjacency path p dst q) = path"
  by (induction adjacency path p dst q rule: cook.induct) auto

lemma last_cook: "snd (snd (last (cook adjacency path p dst q))) = q"
  by (induction adjacency path p dst q rule: cook.induct) auto

text \<open>
  \<^verbatim>\<open>_get_path\<close> returns, and its assertion never fails: between any two known switches it gives
  \<^verbatim>\<open>None\<close> when no walk connects them, and otherwise the switches of a shortest walk from the source
  to the destination, entered through the first port and left through the final port, in which
  consecutive hops are joined by the ports of a known link.
\<close>

lemma get_path_correct:
  assumes "adj_wf adjacency" and "i \<in> set sws" and "j \<in> set sws"
  shows "(\<exists>r. get_path sws adjacency [] i j p q = Some (Inr (Some r)) \<and> check_path adjacency r \<and>
            fst (hd r) = i \<and> fst (snd (hd r)) = p \<and> fst (last r) = j \<and> snd (snd (last r)) = q \<and>
            successively (edge adjacency) (map fst r) \<and>
            (\<forall>w. walk (edge adjacency) i w j \<and> set w \<subseteq> set sws \<longrightarrow> length r \<le> length w + 2)) \<or>
         (i \<noteq> j \<and> get_path sws adjacency [] i j p q = Some (Inr None) \<and>
            (\<forall>w. walk (edge adjacency) i w j \<longrightarrow> \<not> set w \<subseteq> set sws))"
proof (cases "i = j")
  case True
  then show ?thesis by (simp add: get_path_def Let_def check_path_def)
next
  case False
  from get_raw_path_shortest [OF assms False] show ?thesis
  proof
    assume "\<exists>w. get_raw_path sws adjacency [] i j = Some (Inr (Some w)) \<and> walk (edge adjacency) i w j \<and>
        set w \<subseteq> set sws \<and> (\<forall>v. walk (edge adjacency) i v j \<and> set v \<subseteq> set sws \<longrightarrow> length w \<le> length v)"
    then obtain w where w: "get_raw_path sws adjacency [] i j = Some (Inr (Some w))" "walk (edge adjacency) i w j"
        "\<forall>v. walk (edge adjacency) i v j \<and> set v \<subseteq> set sws \<longrightarrow> length w \<le> length v" by blast
    let ?path = "[i] @ w @ [j]"
    let ?r = "cook adjacency ?path p j q"
    have nodes: "map fst ?r = ?path" by (rule map_fst_cook) auto
    have "fst (last ?r) = last (map fst ?r)" by (simp add: last_map)
    then have last: "fst (last ?r) = j" unfolding nodes by simp
    have len: "length ?r = length w + 2" using arg_cong [OF nodes, of length] by simp
    have checked: "check_path adjacency ?r" by (rule cook_checked) auto
    then have "get_path sws adjacency [] i j p q = Some (Inr (Some ?r))"
      using False w(1) by (simp add: get_path_def Let_def)
    moreover have "successively (edge adjacency) (map fst ?r)" unfolding nodes using w(2) by (simp add: walk_def)
    ultimately show ?thesis
      using checked last last_cook [of adjacency ?path p j q] hd_cook [of ?path j adjacency p q] w(3) len by auto
  next
    assume "get_raw_path sws adjacency [] i j = Some (Inr None) \<and>
        (\<forall>q. walk (edge adjacency) i q j \<longrightarrow> \<not> set q \<subseteq> set sws)"
    with False show ?thesis by (simp add: get_path_def Let_def)
  qed
qed

end
