(* ===== verification/Network_Maps.thy ===== *)
theory Network_Maps
  imports Flow_Space Json
begin

text \<open>
  The controller's mappings (\<^verbatim>\<open>networkmaps.py\<close>): element descriptors to machines
  (\<^verbatim>\<open>ElementToMac\<close>), machines to IP addresses (\<^verbatim>\<open>MacToIP\<close>), flow spaces to element chains and
  instances (\<^verbatim>\<open>FlowToElementsMapping\<close>), descriptors to applications
  (\<^verbatim>\<open>ElementToApplication\<close>), sources to the instances they are bound to (\<^verbatim>\<open>FlowAffinity\<close>) and the
  migrations under way (\<^verbatim>\<open>ElementMigration\<close>).  Each class is its dictionary or a record of its
  dictionaries; a method that mutates returns the new value.
\<close>

section \<open>ElementToMac\<close>

type_synonym elem_to_mac = "(mac, int list) dict"

definition etm_add :: "elem_to_mac \<Rightarrow> mac option \<Rightarrow> int option \<Rightarrow> elem_to_mac" where
  "etm_add m machine_mac element_desc =
     (case machine_mac of
        None \<Rightarrow> m
      | Some mc \<Rightarrow>
          (case element_desc of
             Some ed \<Rightarrow>
               (let m' = ddict_touch [] mc m in AList.update mc (the (map_of m' mc) @ [ed]) m')
           | None \<Rightarrow> AList.update mc [] m))"

text \<open>\<^verbatim>\<open>remove\<close> answers \<^verbatim>\<open>None\<close>, \<^verbatim>\<open>True\<close> or \<^verbatim>\<open>False\<close>; reading the list of an unknown machine
  creates it, since the dictionary is a \<^verbatim>\<open>defaultdict\<close>.\<close>

definition etm_remove :: "elem_to_mac \<Rightarrow> mac \<Rightarrow> int option \<Rightarrow> elem_to_mac \<times> bool option" where
  "etm_remove m mac_addr element_desc =
     (case element_desc of
        None \<Rightarrow> (m, None)
      | Some ed \<Rightarrow>
          (let m' = ddict_touch [] mac_addr m; eds = the (map_of m' mac_addr)
           in if ed \<in> set eds then (AList.update mac_addr (remove1 ed eds) m', Some True)
              else (m', Some False)))"

definition etm_get :: "elem_to_mac \<Rightarrow> int \<Rightarrow> mac option" where
  "etm_get m element_desc = map_option fst (find (\<lambda>(mac_addr, eds). element_desc \<in> set eds) m)"

definition etm_get_elem_descs :: "elem_to_mac \<Rightarrow> mac \<Rightarrow> int list res" where
  "etm_get_elem_descs m mac_addr = dict_getitem m mac_addr"

text \<open>Every descriptor is on one machine, once.\<close>

definition etm_wf :: "elem_to_mac \<Rightarrow> bool" where
  "etm_wf m \<longleftrightarrow> dict_wf m \<and> (\<forall>p \<in> set m. distinct (snd p)) \<and>
     (\<forall>p \<in> set m. \<forall>q \<in> set m. fst p \<noteq> fst q \<longrightarrow> set (snd p) \<inter> set (snd q) = {})"

definition etm_descs :: "elem_to_mac \<Rightarrow> int set" where
  "etm_descs m = set (concat (map snd m))"

lemma etm_descs_iff: "dict_wf m \<Longrightarrow> ed \<in> etm_descs m \<longleftrightarrow> (\<exists>mc eds. map_of m mc = Some eds \<and> ed \<in> set eds)"
  by (force simp: etm_descs_def)

lemma etm_get_SomeD: "etm_get m ed = Some mc \<Longrightarrow> \<exists>eds. (mc, eds) \<in> set m \<and> ed \<in> set eds"
  by (auto simp: etm_get_def dest: find_in_set)

lemma etm_get_None_iff: "etm_get m ed = None \<longleftrightarrow> ed \<notin> etm_descs m"
  by (auto simp: etm_get_def etm_descs_def find_None_iff)

lemma etm_wf_iff:
  "etm_wf m \<longleftrightarrow> dict_wf m \<and> (\<forall>mc eds. map_of m mc = Some eds \<longrightarrow> distinct eds) \<and>
     (\<forall>mc mc' eds eds' ed. map_of m mc = Some eds \<longrightarrow> map_of m mc' = Some eds' \<longrightarrow> ed \<in> set eds \<longrightarrow>
        ed \<in> set eds' \<longrightarrow> mc = mc')"
proof (cases "dict_wf m")
  case True
  then show ?thesis unfolding etm_wf_def by (fastforce simp flip: dict_mem_iff)
qed (simp add: etm_wf_def)

lemma etm_get_iff:
  assumes "etm_wf m"
  shows "etm_get m ed = Some mc \<longleftrightarrow> (\<exists>eds. map_of m mc = Some eds \<and> ed \<in> set eds)"
proof
  assume "etm_get m ed = Some mc"
  with assms show "\<exists>eds. map_of m mc = Some eds \<and> ed \<in> set eds"
    by (auto simp: etm_wf_def dest!: etm_get_SomeD)
next
  assume "\<exists>eds. map_of m mc = Some eds \<and> ed \<in> set eds"
  then obtain eds where eds: "map_of m mc = Some eds" "ed \<in> set eds" by auto
  then have "ed \<in> etm_descs m" using assms by (auto simp: etm_wf_def etm_descs_iff)
  then obtain mc' where mc': "etm_get m ed = Some mc'"
    using etm_get_None_iff [of m ed] by (cases "etm_get m ed") auto
  then obtain eds' where "map_of m mc' = Some eds'" "ed \<in> set eds'"
    using assms by (auto simp: etm_wf_def dest: etm_get_SomeD)
  with eds assms have "mc' = mc" unfolding etm_wf_iff by blast
  with mc' show "etm_get m ed = Some mc" by simp
qed

lemma map_of_etm_add:
  "map_of (etm_add m (Some mc) (Some ed)) =
     (map_of m)(mc \<mapsto> (case map_of m mc of None \<Rightarrow> [] | Some eds \<Rightarrow> eds) @ [ed])"
  by (auto simp: etm_add_def Let_def map_of_ddict_touch split: option.splits)

lemma map_of_etm_reset: "map_of (etm_add m (Some mc) None) = (map_of m)(mc \<mapsto> [])"
  by (simp add: etm_add_def)

lemma etm_add_keys: "dict_wf m \<Longrightarrow> dict_wf (etm_add m mc ed)"
  by (auto simp: etm_add_def Let_def split: option.splits)

lemma map_of_etm_remove:
  "map_of (fst (etm_remove m mc (Some ed))) =
     (map_of m)(mc \<mapsto> remove1 ed (case map_of m mc of None \<Rightarrow> [] | Some eds \<Rightarrow> eds))"
  by (auto simp: etm_remove_def Let_def map_of_ddict_touch remove1_idem fun_eq_iff split: option.splits)

lemma etm_remove_keys: "dict_wf m \<Longrightarrow> dict_wf (fst (etm_remove m mc ed))"
  by (auto simp: etm_remove_def Let_def split: option.splits)

lemma etm_wf_add:
  assumes "etm_wf m" and "ed \<notin> etm_descs m"
  shows "etm_wf (etm_add m (Some mc) (Some ed))"
proof -
  have fresh: "map_of m mc' = Some eds \<Longrightarrow> ed \<notin> set eds" for mc' eds
    using assms by (auto simp: etm_wf_def etm_descs_iff)
  show ?thesis
    using assms(1) fresh etm_add_keys [of m "Some mc" "Some ed"]
    unfolding etm_wf_iff map_of_etm_add
    by (auto split: option.splits if_splits)
qed

lemma etm_wf_reset: "etm_wf m \<Longrightarrow> etm_wf (etm_add m (Some mc) None)"
  using etm_add_keys [of m "Some mc" None]
  unfolding etm_wf_iff map_of_etm_reset by (auto split: if_splits)

lemma etm_wf_remove: "etm_wf m \<Longrightarrow> etm_wf (fst (etm_remove m mc (Some ed)))"
  using etm_remove_keys [of m mc "Some ed"]
  unfolding etm_wf_iff map_of_etm_remove
  by (auto split: option.splits if_splits dest: notin_set_remove1)

section \<open>MacToIP\<close>

type_synonym mac_to_ip = "(mac, fval) dict"

definition mti_add :: "mac_to_ip \<Rightarrow> mac \<Rightarrow> fval \<Rightarrow> mac_to_ip" where
  "mti_add m machine_mac ip_addr =
     (if ip_addr \<noteq> FNone \<and> \<not> has_key m machine_mac then AList.update machine_mac ip_addr m else m)"

definition mti_get :: "mac_to_ip \<Rightarrow> mac option \<Rightarrow> fval res" where
  "mti_get m mac_addr = (case mac_addr of None \<Rightarrow> Inr FNone | Some mc \<Rightarrow> dict_getitem m mc)"

definition mti_get_all_macs :: "mac_to_ip \<Rightarrow> mac list" where
  "mti_get_all_macs m = dict_keys m"

section \<open>FlowToElementsMapping\<close>

text \<open>\<^verbatim>\<open>ElementInstance\<close> of \<^verbatim>\<open>NetworkModel.py\<close>.\<close>

record element_instance =
  ei_name :: string
  ei_app_desc :: int
  ei_elem_desc :: int
  ei_location :: mac
  ei_flowspace_desc :: int

record flow_to_elems =
  flow_to_element_mapping :: "(flow_tuple, string list) dict"
  flow_to_element_instance_mapping :: "(flow_tuple, element_instance list) dict"
  flow_to_id :: "(flow_tuple, int) dict"
  flowspace_id :: int

definition fte_init :: flow_to_elems where
  "fte_init = \<lparr>flow_to_element_mapping = [], flow_to_element_instance_mapping = [], flow_to_id = [],
     flowspace_id = 0\<rparr>"

text \<open>\<^verbatim>\<open>get_unique_flowspace_desc\<close> takes a flow dictionary from an application or a flow tuple.\<close>

datatype flow_arg = FlowTupleArg flow_tuple | FlowDictArg flow_dict

definition get_unique_flowspace_desc :: "flow_to_elems \<Rightarrow> flow_arg \<Rightarrow> (flow_to_elems \<times> int) res" where
  "get_unique_flowspace_desc fm flow =
     (case flow of
        FlowTupleArg f \<Rightarrow> rbind (dict_getitem (flow_to_id fm) f) (\<lambda>i. Inr (fm, i))
      | FlowDictArg d \<Rightarrow>
          rbind (flow_to_tuple FNone d) (\<lambda>f.
          let fm' = (if has_key (flow_to_id fm) f then fm
                     else fm\<lparr>flowspace_id := flowspace_id fm + 1,
                             flow_to_id := AList.update f (flowspace_id fm + 1) (flow_to_id fm)\<rparr>)
          in rbind (dict_getitem (flow_to_id fm') f) (\<lambda>i. Inr (fm', i))))"

definition fte_get_flowspace :: "flow_to_elems \<Rightarrow> int \<Rightarrow> flow_tuple option" where
  "fte_get_flowspace fm flowspace_desc =
     map_option fst (find (\<lambda>(flowspace, fd). flowspace_desc = fd) (flow_to_id fm))"

definition add_element :: "flow_to_elems \<Rightarrow> fval \<Rightarrow> flow_dict \<Rightarrow> element_instance \<Rightarrow> flow_to_elems res" where
  "add_element fm inport flow element_instance =
     rbind (flow_to_tuple inport flow) (\<lambda>f.
     let element_name = ei_name element_instance in
     case map_of (flow_to_element_mapping fm) f of
       None \<Rightarrow>
         Inr (fm\<lparr>flow_to_element_mapping := AList.update f [element_name] (flow_to_element_mapping fm)\<rparr>)
     | Some names \<Rightarrow>
         if element_name \<notin> set names
         then Inr (fm\<lparr>flow_to_element_mapping :=
                        AList.update f (names @ [element_name]) (flow_to_element_mapping fm)\<rparr>)
         else Inr fm)"

definition add_element_instance ::
    "flow_to_elems \<Rightarrow> fval \<Rightarrow> flow_dict \<Rightarrow> element_instance \<Rightarrow> flow_to_elems res" where
  "add_element_instance fm inport flow element_instance =
     rbind (flow_to_tuple inport flow) (\<lambda>f.
     case map_of (flow_to_element_instance_mapping fm) f of
       None \<Rightarrow>
         Inr (fm\<lparr>flow_to_element_instance_mapping :=
                  AList.update f [element_instance] (flow_to_element_instance_mapping fm)\<rparr>)
     | Some insts \<Rightarrow>
         Inr (fm\<lparr>flow_to_element_instance_mapping :=
                  AList.update f (insts @ [element_instance]) (flow_to_element_instance_mapping fm)\<rparr>))"

text \<open>\<^verbatim>\<open>for index, x in enumerate(L): if P(x): del L[index]\<close>.\<close>

function del_while_iterating :: "('a \<Rightarrow> bool) \<Rightarrow> nat \<Rightarrow> 'a list \<Rightarrow> 'a list" where
  "del_while_iterating P i xs =
     (if i < length xs then
        (if P (xs ! i) then del_while_iterating P (Suc i) (take i xs @ drop (Suc i) xs)
         else del_while_iterating P (Suc i) xs)
      else xs)"
  by pat_completeness auto
termination
  by (relation "measure (\<lambda>(P, i, xs). length xs - i)") auto

declare del_while_iterating.simps [simp del]

definition remove_element_instance :: "flow_to_elems \<Rightarrow> int \<Rightarrow> flow_to_elems" where
  "remove_element_instance fm ed =
     fm\<lparr>flow_to_element_instance_mapping :=
          map (\<lambda>(flow, insts). (flow, del_while_iterating (\<lambda>e_inst. ei_elem_desc e_inst = ed) 0 insts))
            (flow_to_element_instance_mapping fm)\<rparr>"

definition remove_flow :: "flow_to_elems \<Rightarrow> fval \<Rightarrow> flow_dict \<Rightarrow> (flow_to_elems \<times> bool) res" where
  "remove_flow fm inport flow =
     rbind (flow_to_tuple_strict inport flow) (\<lambda>f.
     if has_key (flow_to_element_mapping fm) f
     then rbind (dict_delitem (flow_to_element_instance_mapping fm) f) (\<lambda>insts.
          Inr (fm\<lparr>flow_to_element_mapping := AList.delete f (flow_to_element_mapping fm),
                  flow_to_element_instance_mapping := insts\<rparr>, True))
     else Inr (fm, False))"

definition lookup_elements :: "flow_to_elems \<Rightarrow> fval \<Rightarrow> ('a) ofp_match_scheme \<Rightarrow> string list res" where
  "lookup_elements fm inport flow =
     rbind (get_flow_tuple inport flow) (\<lambda>ft.
     rbind (rfind (\<lambda>(item, names). flowtuple_equals item ft) (flow_to_element_mapping fm)) (\<lambda>r.
     case r of None \<Rightarrow> Inr [] | Some (item, names) \<Rightarrow> Inr names))"

definition lookup_element_instances ::
    "flow_to_elems \<Rightarrow> fval \<Rightarrow> ('a) ofp_match_scheme \<Rightarrow> element_instance list res" where
  "lookup_element_instances fm inport flow =
     rbind (get_flow_tuple inport flow) (\<lambda>ft.
     rbind (rfind (\<lambda>(item, insts). flowtuple_equals item ft) (flow_to_element_instance_mapping fm)) (\<lambda>r.
     case r of None \<Rightarrow> Inr [] | Some (item, insts) \<Rightarrow> Inr insts))"

text \<open>\<^verbatim>\<open>get\<close>: one replica set per element name of the chain, in the order of the chain.\<close>

fun replica_sets_loop :: "string list \<Rightarrow> element_instance list \<Rightarrow> int list list" where
  "replica_sets_loop [] insts = []"
| "replica_sets_loop (e_name # names) insts =
     foldl (\<lambda>rs elem_inst. if ei_name elem_inst = e_name then rs @ [ei_elem_desc elem_inst] else rs) [] insts
     # replica_sets_loop names insts"

definition fte_get :: "flow_to_elems \<Rightarrow> fval \<Rightarrow> ('a) ofp_match_scheme \<Rightarrow> int list list res" where
  "fte_get fm inport flow =
     rbind (lookup_elements fm inport flow) (\<lambda>element_names.
     rbind (lookup_element_instances fm inport flow) (\<lambda>element_instances.
     Inr (replica_sets_loop element_names element_instances)))"

text \<open>\<^verbatim>\<open>get_matching_flow\<close> builds the tuple from the match as it is, \<^verbatim>\<open>EthAddr\<close>s included.\<close>

definition raw_flow_tuple :: "('a) ofp_match_scheme \<Rightarrow> flow_tuple" where
  "raw_flow_tuple m =
     \<lparr>in_port = in_port m, dl_src = dl_src m, dl_dst = dl_dst m, dl_vlan = dl_vlan m,
      dl_vlan_pcp = dl_vlan_pcp m, dl_type = dl_type m, nw_src = nw_src m, nw_dst = nw_dst m,
      nw_proto = nw_proto m, tp_src = tp_src m, tp_dst = tp_dst m\<rparr>"

definition get_matching_flow :: "flow_to_elems \<Rightarrow> ('a) ofp_match_scheme \<Rightarrow> flow_tuple option res" where
  "get_matching_flow fm in_flow =
     (let ft = raw_flow_tuple in_flow in
      rbind (rfind (\<lambda>item. flowtuple_equals item ft) (dict_keys (flow_to_element_mapping fm))) (\<lambda>r.
      case r of
        Some item \<Rightarrow> Inr (Some item)
      | None \<Rightarrow> rfind (\<lambda>item. flowtuple_equals item ft) (dict_keys (flow_to_id fm))))"

definition dict_of_tuple :: "flow_tuple \<Rightarrow> flow_dict" where
  "dict_of_tuple f =
     [(''dl_src'', dl_src f), (''dl_dst'', dl_dst f), (''dl_vlan'', dl_vlan f),
      (''dl_vlan_pcp'', dl_vlan_pcp f), (''dl_type'', dl_type f), (''nw_src'', nw_src f),
      (''nw_dst'', nw_dst f), (''nw_proto'', nw_proto f), (''tp_src'', tp_src f), (''tp_dst'', tp_dst f)]"

definition get_element_flow :: "flow_to_elems \<Rightarrow> int \<Rightarrow> flow_dict option" where
  "get_element_flow fm ed =
     map_option (\<lambda>(flowtuple, insts). dict_of_tuple flowtuple)
       (find (\<lambda>(flowtuple, insts). \<exists>e_inst \<in> set insts. ei_elem_desc e_inst = ed)
          (flow_to_element_instance_mapping fm))"

section \<open>ElementToApplication\<close>

type_synonym params = "(string, pval) dict"

record app_entry =
  ae_application_object :: int
  ae_app_desc :: int
  ae_parameter :: params
  ae_controller_param :: params

type_synonym elem_to_app = "(int, app_entry) dict"

definition eta_update :: "elem_to_app \<Rightarrow> int \<Rightarrow> int \<Rightarrow> int \<Rightarrow> params \<Rightarrow> params \<Rightarrow> elem_to_app" where
  "eta_update m ed application_object app_desc parameter controller_param =
     (if \<not> has_key m ed
      then AList.update ed \<lparr>ae_application_object = application_object, ae_app_desc = app_desc,
             ae_parameter = parameter, ae_controller_param = controller_param\<rparr> m
      else m)"

definition eta_remove :: "elem_to_app \<Rightarrow> int \<Rightarrow> elem_to_app res" where
  "eta_remove m ed =
     (if has_key m ed then Inr (AList.delete ed m) else Inl (SlickException InstanceNotFound))"

definition eta_get_elem_parameters :: "elem_to_app \<Rightarrow> int \<Rightarrow> params res" where
  "eta_get_elem_parameters m ed =
     (case map_of m ed of Some e \<Rightarrow> Inr (ae_parameter e) | None \<Rightarrow> Inl (SlickException InstanceNotFound))"

definition eta_get_app_handle :: "elem_to_app \<Rightarrow> int \<Rightarrow> int res" where
  "eta_get_app_handle m ed =
     (case map_of m ed of
        Some e \<Rightarrow> Inr (ae_application_object e) | None \<Rightarrow> Inl (SlickException InstanceNotFound))"

definition eta_get_app_desc :: "elem_to_app \<Rightarrow> int \<Rightarrow> int res" where
  "eta_get_app_desc m ed = rbind (dict_getitem m ed) (\<lambda>e. Inr (ae_app_desc e))"

definition eta_contains_app :: "elem_to_app \<Rightarrow> int \<Rightarrow> bool" where
  "eta_contains_app m app_desc = list_ex (\<lambda>(ed, app). ae_app_desc app = app_desc) m"

definition eta_get_app_descs :: "elem_to_app \<Rightarrow> int set" where
  "eta_get_app_descs m = set (map (\<lambda>(ed, app). ae_app_desc app) m)"

definition eta_get_controller_params :: "elem_to_app \<Rightarrow> int \<Rightarrow> params res" where
  "eta_get_controller_params m ed =
     (case map_of m ed of
        Some e \<Rightarrow> Inr (ae_controller_param e) | None \<Rightarrow> Inl (SlickException InstanceNotFound))"

section \<open>FlowAffinity\<close>

type_synonym flow_affinity = "(fval, int list) dict"

definition add_flow_affinity :: "flow_affinity \<Rightarrow> ('a) flow_tuple_scheme \<Rightarrow> int \<Rightarrow> flow_affinity" where
  "add_flow_affinity m flow ed =
     (let src_ip = nw_src flow in
      case map_of m src_ip of
        Some eds \<Rightarrow> AList.update src_ip (eds @ [ed]) m
      | None \<Rightarrow> AList.update src_ip [ed] m)"

definition affinity_get_element_descs :: "flow_affinity \<Rightarrow> ('a) flow_tuple_scheme \<Rightarrow> int list" where
  "affinity_get_element_descs m flow =
     (case map_of m (nw_src flow) of Some eds \<Rightarrow> eds | None \<Rightarrow> [])"

definition remove_flow_affinity ::
    "flow_affinity \<Rightarrow> ('a) flow_tuple_scheme \<Rightarrow> int \<Rightarrow> flow_affinity res" where
  "remove_flow_affinity m flow ed =
     (let src_ip = nw_src flow in
      rbind (dict_getitem m src_ip) (\<lambda>eds.
      if length eds > 1
      then (if ed \<in> set eds then Inr (AList.update src_ip (remove1 ed eds) m) else Inl ValueError)
      else Inr (AList.delete src_ip m)))"

text \<open>\<^verbatim>\<open>update_flow_affinity\<close> compares the list of a source with one descriptor: Python's \<^verbatim>\<open>==\<close> on a
  list and a number is \<^verbatim>\<open>False\<close>.  (Were it not, the dictionary's key, an address, has no
  \<^verbatim>\<open>nw_src\<close>.)\<close>

definition list_eq_int :: "int list \<Rightarrow> int \<Rightarrow> bool" where
  "list_eq_int eds ed = False"

definition update_flow_affinity :: "flow_affinity \<Rightarrow> int \<Rightarrow> int \<Rightarrow> flow_affinity res" where
  "update_flow_affinity m old_ed new_ed =
     rfoldM (\<lambda>m' (flow, ed). if list_eq_int ed old_ed then Inl AttributeError else Inr m') m m"

section \<open>ElementMigration and PivotElementInstances\<close>

type_synonym elem_migration = "(int, int) dict"

definition init_migration :: "elem_migration \<Rightarrow> int \<Rightarrow> int \<Rightarrow> elem_migration" where
  "init_migration m old_ed new_ed = AList.update old_ed new_ed m"

definition end_migration :: "elem_migration \<Rightarrow> int \<Rightarrow> elem_migration res" where
  "end_migration m old_ed = dict_delitem m old_ed"

definition is_migrating :: "elem_migration \<Rightarrow> int \<Rightarrow> bool option" where
  "is_migrating m ed = (if has_key m ed then Some True else None)"

definition replace_migrating_elements :: "elem_migration \<Rightarrow> int list list \<Rightarrow> int list list" where
  "replace_migrating_elements m replica_sets =
     foldl (\<lambda>rs ed. map (\<lambda>replicas. if ed \<in> set replicas then remove1 ed replicas else replicas) rs)
       replica_sets (dict_keys m)"

definition is_pivot_element_instance :: "int list \<Rightarrow> int \<Rightarrow> bool" where
  "is_pivot_element_instance pivot_elem_descs ed = (if ed \<in> set pivot_elem_descs then True else False)"

section \<open>Laws of the element location map\<close>

lemma etm_remove_answer:
  assumes "etm_wf m" and "map_of m mc = Some eds"
  shows "snd (etm_remove m mc (Some ed)) = Some (ed \<in> set eds)"
  using assms by (auto simp: etm_remove_def ddict_touch_def Let_def)

lemma etm_descs_add: "etm_wf m \<Longrightarrow> etm_descs (etm_add m (Some mc) (Some ed)) = insert ed (etm_descs m)"
  using etm_add_keys [of m "Some mc" "Some ed"]
  by (fastforce simp: etm_wf_def etm_descs_iff map_of_etm_add split: option.splits if_splits)

section \<open>Flow space descriptors\<close>

definition fte_ids_wf :: "flow_to_elems \<Rightarrow> bool" where
  "fte_ids_wf fm \<longleftrightarrow> dict_wf (flow_to_id fm) \<and> distinct (map snd (flow_to_id fm)) \<and>
     (\<forall>i \<in> set (map snd (flow_to_id fm)). 0 < i \<and> i \<le> flowspace_id fm) \<and> 0 \<le> flowspace_id fm"

lemma get_flowspace_iff:
  assumes "fte_ids_wf fm"
  shows "fte_get_flowspace fm i = Some f \<longleftrightarrow> map_of (flow_to_id fm) f = Some i"
proof
  assume "fte_get_flowspace fm i = Some f"
  with assms show "map_of (flow_to_id fm) f = Some i"
    by (auto simp: fte_get_flowspace_def fte_ids_wf_def dest!: find_in_set)
next
  assume "map_of (flow_to_id fm) f = Some i"
  then have mem: "(f, i) \<in> set (flow_to_id fm)" by (rule map_of_SomeD)
  have "y = (f, i)" if "y \<in> set (flow_to_id fm)" "snd y = i" for y
    using assms that mem by (auto simp: fte_ids_wf_def distinct_map inj_on_def)
  then have "find (\<lambda>(flowspace, fd). i = fd) (flow_to_id fm) = Some (f, i)"
    by (intro find_unique [OF mem]) auto
  then show "fte_get_flowspace fm i = Some f" by (simp add: fte_get_flowspace_def)
qed

lemma fresh_id_wf:
  assumes "fte_ids_wf fm" and "map_of (flow_to_id fm) f = None"
  shows "fte_ids_wf (fm\<lparr>flowspace_id := flowspace_id fm + 1,
           flow_to_id := AList.update f (flowspace_id fm + 1) (flow_to_id fm)\<rparr>)"
  using assms by (auto simp: fte_ids_wf_def update_fresh map_of_eq_None_iff)

lemma get_unique_flowspace_desc_ok:
  assumes "fte_ids_wf fm" and "flow_to_tuple FNone d = Inr f"
  shows "\<exists>fm' i. get_unique_flowspace_desc fm (FlowDictArg d) = Inr (fm', i) \<and> fte_ids_wf fm' \<and>
     map_of (flow_to_id fm') = (map_of (flow_to_id fm))(f \<mapsto> i) \<and>
     (\<forall>j. map_of (flow_to_id fm) f = Some j \<longrightarrow> i = j \<and> fm' = fm) \<and>
     (map_of (flow_to_id fm) f = None \<longrightarrow> i = flowspace_id fm + 1 \<and> flowspace_id fm' = i)"
proof (cases "map_of (flow_to_id fm) f")
  case None
  with assms show ?thesis
    by (auto simp: get_unique_flowspace_desc_def Let_def fresh_id_wf dict_getitem_def)
next
  case (Some j)
  with assms show ?thesis
    by (auto simp: get_unique_flowspace_desc_def Let_def dict_getitem_def)
qed

text \<open>
  C30. Flow space descriptors: asking for the descriptor of a flow dictionary always succeeds on
  a valid flow, keeps the table injective, gives back the same descriptor for the same flow
  space, leaves every other flow space's descriptor as it was, and \<^verbatim>\<open>get_flowspace\<close> is its
  inverse.
\<close>

theorem flowspace_desc_roundtrip:
  assumes "fte_ids_wf fm" and "valid_flow d"
  shows "\<exists>fm' i f. get_unique_flowspace_desc fm (FlowDictArg d) = Inr (fm', i) \<and>
     flow_to_tuple FNone d = Inr f \<and> fte_ids_wf fm' \<and> fte_get_flowspace fm' i = Some f \<and>
     get_unique_flowspace_desc fm' (FlowDictArg d) = Inr (fm', i) \<and>
     get_unique_flowspace_desc fm' (FlowTupleArg f) = Inr (fm', i) \<and>
     (\<forall>f' j. fte_get_flowspace fm j = Some f' \<longrightarrow> fte_get_flowspace fm' j = Some f')"
proof -
  obtain f where f: "flow_to_tuple FNone d = Inr f"
    using flow_to_tuple_valid [OF assms(2)] by blast
  obtain fm' i where new: "get_unique_flowspace_desc fm (FlowDictArg d) = Inr (fm', i)"
      "fte_ids_wf fm'" "map_of (flow_to_id fm') = (map_of (flow_to_id fm))(f \<mapsto> i)"
      "\<forall>j. map_of (flow_to_id fm) f = Some j \<longrightarrow> i = j \<and> fm' = fm"
    using get_unique_flowspace_desc_ok [OF assms(1) f] by blast
  have again: "get_unique_flowspace_desc fm' (FlowDictArg d) = Inr (fm', i)"
    using get_unique_flowspace_desc_ok [OF new(2) f] new(3) by auto
  have tuple: "get_unique_flowspace_desc fm' (FlowTupleArg f) = Inr (fm', i)"
    using new(3) by (simp add: get_unique_flowspace_desc_def dict_getitem_def)
  have keep: "fte_get_flowspace fm' j = Some f'" if "fte_get_flowspace fm j = Some f'" for j f'
    using that new(3,4) by (auto simp: get_flowspace_iff assms(1) new(2))
  have "fte_get_flowspace fm' i = Some f" using new(3) by (simp add: get_flowspace_iff new(2))
  with f new(1,2) again tuple keep show ?thesis by blast
qed

lemma fte_init_wf: "fte_ids_wf fte_init"
  by (simp add: fte_ids_wf_def fte_init_def)

theorem flowspace_desc_roundtrip_witness:
  "\<exists>fm' i f. get_unique_flowspace_desc fte_init (FlowDictArg make_wildcard_flow) = Inr (fm', i) \<and>
     flow_to_tuple FNone make_wildcard_flow = Inr f \<and> fte_ids_wf fm' \<and> fte_get_flowspace fm' i = Some f \<and>
     get_unique_flowspace_desc fm' (FlowDictArg make_wildcard_flow) = Inr (fm', i) \<and>
     get_unique_flowspace_desc fm' (FlowTupleArg f) = Inr (fm', i)"
  using flowspace_desc_roundtrip [OF fte_init_wf valid_wildcard_flow] by blast

section \<open>Element chains of a flow space\<close>

text \<open>Placing an instance records its name and itself under the same flow tuple
  (\<^verbatim>\<open>NetworkModel.add_placement\<close>).\<close>

definition record_instance :: "flow_dict \<Rightarrow> flow_to_elems \<Rightarrow> element_instance \<Rightarrow> flow_to_elems res" where
  "record_instance flow fm e = rbind (add_element fm FNone flow e) (\<lambda>fm'. add_element_instance fm' FNone flow e)"

definition dedup :: "'a list \<Rightarrow> 'a list" where
  "dedup xs = foldl (\<lambda>ys x. if x \<in> set ys then ys else ys @ [x]) [] xs"

lemma dedup_Nil [simp]: "dedup [] = []"
  by (simp add: dedup_def)

lemma set_dedup [simp]: "set (dedup xs) = set xs"
  by (induction xs rule: rev_induct) (auto simp: dedup_def)

lemma distinct_dedup [simp]: "distinct (dedup xs)"
  by (induction xs rule: rev_induct) (auto simp: dedup_def)

lemma dedup_snoc: "dedup (xs @ [x]) = (if x \<in> set xs then dedup xs else dedup xs @ [x])"
  using set_dedup [of xs] by (auto simp: dedup_def)

lemma dedup_distinct: "distinct xs \<Longrightarrow> dedup xs = xs"
  by (induction xs rule: rev_induct) (auto simp: dedup_snoc)


abbreviation chain_of :: "flow_to_elems \<Rightarrow> flow_tuple \<Rightarrow> string list" where
  "chain_of fm f \<equiv> case_option [] id (map_of (flow_to_element_mapping fm) f)"

abbreviation insts_of :: "flow_to_elems \<Rightarrow> flow_tuple \<Rightarrow> element_instance list" where
  "insts_of fm f \<equiv> case_option [] id (map_of (flow_to_element_instance_mapping fm) f)"

lemma Nil_dedup_iff [simp]: "dedup xs = [] \<longleftrightarrow> xs = []" "[] = dedup xs \<longleftrightarrow> xs = []"
  using set_dedup [of xs] by (auto simp del: set_dedup)

lemma record_instance_eq:
  assumes "flow_to_tuple FNone d = Inr f" and "insts_of fm f = is" and "chain_of fm f = dedup (map ei_name is)"
  shows "\<exists>fm'. record_instance d fm e = Inr fm' \<and>
     map_of (flow_to_element_instance_mapping fm') = (map_of (flow_to_element_instance_mapping fm))(f \<mapsto> is @ [e]) \<and>
     map_of (flow_to_element_mapping fm') = (map_of (flow_to_element_mapping fm))(f \<mapsto> dedup (map ei_name (is @ [e]))) \<and>
     flow_to_id fm' = flow_to_id fm \<and> flowspace_id fm' = flowspace_id fm"
  using assms set_dedup [of "map ei_name is"]
  by (auto simp: record_instance_def add_element_def add_element_instance_def Let_def dedup_snoc fun_eq_iff
        split: option.splits)

lemma record_chain:
  assumes "flow_to_tuple FNone d = Inr f" and "map_of (flow_to_element_mapping fm) f = None"
    and "map_of (flow_to_element_instance_mapping fm) f = None" and "is \<noteq> []"
  shows "\<exists>fm'. rfoldM (record_instance d) fm is = Inr fm' \<and>
     map_of (flow_to_element_instance_mapping fm') = (map_of (flow_to_element_instance_mapping fm))(f \<mapsto> is) \<and>
     map_of (flow_to_element_mapping fm') = (map_of (flow_to_element_mapping fm))(f \<mapsto> dedup (map ei_name is))"
  using assms(4)
proof (induction "is" rule: rev_induct)
  case Nil
  then show ?case by simp
next
  case (snoc e "is")
  have "\<exists>fm'. rfoldM (record_instance d) fm is = Inr fm' \<and> insts_of fm' f = is \<and> chain_of fm' f = dedup (map ei_name is) \<and>
     (\<forall>g. g \<noteq> f \<longrightarrow> map_of (flow_to_element_instance_mapping fm') g = map_of (flow_to_element_instance_mapping fm) g \<and>
       map_of (flow_to_element_mapping fm') g = map_of (flow_to_element_mapping fm) g)"
    using snoc.IH assms(2,3) by (cases "is = []") (auto 0 3 simp: fun_eq_iff)
  then obtain fm1 where fm1: "rfoldM (record_instance d) fm is = Inr fm1" "insts_of fm1 f = is"
      "chain_of fm1 f = dedup (map ei_name is)"
      "\<forall>g. g \<noteq> f \<longrightarrow> map_of (flow_to_element_instance_mapping fm1) g = map_of (flow_to_element_instance_mapping fm) g \<and>
       map_of (flow_to_element_mapping fm1) g = map_of (flow_to_element_mapping fm) g"
    by blast
  then show ?case
    using record_instance_eq [OF assms(1) fm1(2,3), of e]
    by (auto simp: rfoldM_append fun_eq_iff)
qed

text \<open>The answer of the lookup where exactly one flow space covers the packet.\<close>

lemma rfind_covers:
  assumes "dict_wf m" and "map_of m f = Some v" and "covers f ft"
    and "\<And>g. has_key m g \<Longrightarrow> matchable g ft \<and> (covers g ft \<longrightarrow> g = f)"
  shows "rfind (\<lambda>(item, v). flowtuple_equals item ft) m = Inr (Some (f, v))"
proof -
  have key: "has_key m (fst p)" if "p \<in> set m" for p
    using that unfolding map_of_eq_None_iff by simp
  have "rfind (\<lambda>(item, v). flowtuple_equals item ft) m = Inr (find (\<lambda>(item, v). covers item ft) m)"
    using assms(4) key by (intro rfind_pure) (auto simp: flowtuple_equals_covers)
  also have "find (\<lambda>(item, v). covers item ft) m = Some (f, v)"
  proof (rule find_unique)
    show "(f, v) \<in> set m" using assms(2) by (rule map_of_SomeD)
    show "case (f, v) of (item, v) \<Rightarrow> covers item ft" using assms(3) by simp
    fix y assume "y \<in> set m" and "case y of (item, v) \<Rightarrow> covers item ft"
    moreover obtain g w where y: "y = (g, w)" by (cases y)
    ultimately have mem: "(g, w) \<in> set m" and "covers g ft" by auto
    then have "g = f" using assms(4) key [OF mem] by (metis fst_conv)
    with mem assms(1,2) y show "y = (f, v)" by auto
  qed
  finally show ?thesis .
qed

lemma replica_sets_loop_map:
  "replica_sets_loop names insts =
     map (\<lambda>n. map ei_elem_desc (filter (\<lambda>e. ei_name e = n) insts)) names"
proof -
  have "foldl (\<lambda>rs e. if ei_name e = n then rs @ [ei_elem_desc e] else rs) acc insts =
        acc @ map ei_elem_desc (filter (\<lambda>e. ei_name e = n) insts)" for n acc
    by (induction insts arbitrary: acc) auto
  then show ?thesis by (induction names) auto
qed

definition fte_wf :: "flow_to_elems \<Rightarrow> bool" where
  "fte_wf fm \<longleftrightarrow> dict_wf (flow_to_element_mapping fm) \<and> dict_wf (flow_to_element_instance_mapping fm)"

lemma record_instance_wf: "fte_wf fm \<Longrightarrow> record_instance d fm e = Inr fm' \<Longrightarrow> fte_wf fm'"
  by (auto simp: record_instance_def add_element_def add_element_instance_def Let_def rbind_eq_Inr fte_wf_def
      split: option.splits if_splits)

lemma record_chain_wf: "fte_wf fm \<Longrightarrow> rfoldM (record_instance d) fm is = Inr fm' \<Longrightarrow> fte_wf fm'"
  by (rule rfoldM_invariant [where I = fte_wf]) (auto dest: record_instance_wf)


text \<open>
  C16. The chain of a flow space: after the instances of a chain are recorded for a flow space
  that had none, looking a packet up that only this flow space covers gives one replica set per
  element name, in the order in which the names first appear in the chain, each holding exactly
  the descriptors of the instances of that name, in order of creation.
\<close>

theorem chain_lookup:
  assumes "fte_wf fm" and "flow_to_tuple FNone d = Inr f"
    and "map_of (flow_to_element_mapping fm) f = None"
    and "map_of (flow_to_element_instance_mapping fm) f = None"
    and "get_flow_tuple p pkt = Inr ft" and "matchable f ft" and "covers f ft"
    and "\<forall>g \<in> set (dict_keys (flow_to_element_mapping fm)) \<union> set (dict_keys (flow_to_element_instance_mapping fm)).
           matchable g ft \<and> \<not> covers g ft"
    and "is \<noteq> []"
  shows "\<exists>fm'. rfoldM (record_instance d) fm is = Inr fm' \<and> fte_wf fm' \<and>
     fte_get fm' p pkt =
       Inr (map (\<lambda>n. map ei_elem_desc (filter (\<lambda>e. ei_name e = n) is)) (dedup (map ei_name is)))"
proof -
  obtain fm' where fm': "rfoldM (record_instance d) fm is = Inr fm'"
      "map_of (flow_to_element_instance_mapping fm') = (map_of (flow_to_element_instance_mapping fm))(f \<mapsto> is)"
      "map_of (flow_to_element_mapping fm') = (map_of (flow_to_element_mapping fm))(f \<mapsto> dedup (map ei_name is))"
    using record_chain [OF assms(2,3,4,9)] by blast
  have wf: "fte_wf fm'" using record_chain_wf [OF assms(1) fm'(1)] .
  have only: "matchable g ft \<and> (covers g ft \<longrightarrow> g = f)"
    if "has_key (flow_to_element_mapping fm') g \<or> has_key (flow_to_element_instance_mapping fm') g" for g
    using that assms(6,8) unfolding fm'(2,3) set_dict_keys by (auto split: if_splits)
  have "rfind (\<lambda>(item, v). flowtuple_equals item ft) (flow_to_element_mapping fm') =
      Inr (Some (f, dedup (map ei_name is)))"
  proof (rule rfind_covers)
    show "dict_wf (flow_to_element_mapping fm')" using wf by (simp add: fte_wf_def)
    show "covers f ft" by (rule assms(7))
    show "map_of (flow_to_element_mapping fm') f = Some (dedup (map ei_name is))" unfolding fm'(3) by simp
    show "matchable g ft \<and> (covers g ft \<longrightarrow> g = f)" if "has_key (flow_to_element_mapping fm') g" for g
      using only that by blast
  qed
  moreover have "rfind (\<lambda>(item, v). flowtuple_equals item ft) (flow_to_element_instance_mapping fm') =
      Inr (Some (f, is))"
  proof (rule rfind_covers)
    show "dict_wf (flow_to_element_instance_mapping fm')" using wf by (simp add: fte_wf_def)
    show "covers f ft" by (rule assms(7))
    show "map_of (flow_to_element_instance_mapping fm') f = Some (is)" unfolding fm'(2) by simp
    show "matchable g ft \<and> (covers g ft \<longrightarrow> g = f)" if "has_key (flow_to_element_instance_mapping fm') g" for g
      using only that by blast
  qed
  ultimately show ?thesis
    using fm'(1) wf assms(5)
    by (simp add: fte_get_def lookup_elements_def lookup_element_instances_def replica_sets_loop_map)
qed

text \<open>A concrete packet and chain: web traffic through a logger, a load balancer and its replica.\<close>

definition web_flow :: flow_dict where
  "web_flow = AList.update ''tp_dst'' (FInt 80) make_wildcard_flow"

definition web_tuple :: flow_tuple where
  "web_tuple = \<lparr>in_port = FNone, dl_src = FNone, dl_dst = FNone, dl_vlan = FNone, dl_vlan_pcp = FNone,
     dl_type = FNone, nw_src = FNone, nw_dst = FNone, nw_proto = FNone, tp_src = FNone, tp_dst = FInt 80\<rparr>"

definition web_packet :: ofp_match where
  "web_packet = \<lparr>in_port = FInt 1, dl_src = FNone, dl_dst = FNone, dl_vlan = FInt 65535, dl_vlan_pcp = FInt 0,
     dl_type = FInt 2048, nw_src = FIP 167772161, nw_dst = FIP 167772162, nw_proto = FInt 6,
     tp_src = FInt 4000, tp_dst = FInt 80, nw_tos = FInt 0\<rparr>"

definition web_chain :: "element_instance list" where
  "web_chain = [\<lparr>ei_name = ''Logger'', ei_app_desc = 1, ei_elem_desc = 11, ei_location = MacInt 1, ei_flowspace_desc = 1\<rparr>,
     \<lparr>ei_name = ''LoadBalancer'', ei_app_desc = 1, ei_elem_desc = 12, ei_location = MacInt 2, ei_flowspace_desc = 1\<rparr>,
     \<lparr>ei_name = ''Logger'', ei_app_desc = 1, ei_elem_desc = 13, ei_location = MacInt 3, ei_flowspace_desc = 1\<rparr>]"

lemmas web_defs = web_flow_def web_tuple_def web_packet_def web_chain_def

lemma web_flow_tuple: "flow_to_tuple FNone web_flow = Inr web_tuple"
  by (simp add: web_defs make_wildcard_flow_def flow_to_tuple_def tuple_of_dict_def dict_getitem_def opt_mac_field_def)

lemma web_packet_tuple:
  "get_flow_tuple FNone web_packet =
     Inr \<lparr>in_port = FNone, dl_src = FNone, dl_dst = FNone, dl_vlan = FInt 65535, dl_vlan_pcp = FInt 0,
       dl_type = FInt 2048, nw_src = FIP 167772161, nw_dst = FIP 167772162, nw_proto = FInt 6,
       tp_src = FInt 4000, tp_dst = FInt 80\<rparr>"
  by (simp add: web_defs get_flow_tuple_def match_mac_def truthy_def)

lemma fte_init_maps [simp]:
  "flow_to_element_mapping fte_init = []" "flow_to_element_instance_mapping fte_init = []"
  by (simp_all add: fte_init_def)

lemma web_chain_names: "dedup (map ei_name web_chain) = [''Logger'', ''LoadBalancer'']" "web_chain \<noteq> []"
  by (simp_all add: web_chain_def dedup_def)

lemma web_chain_sets:
  "map (\<lambda>n. map ei_elem_desc (filter (\<lambda>e. ei_name e = n) web_chain)) [''Logger'', ''LoadBalancer''] = [[11, 13], [12]]"
  by (simp add: web_chain_def)

theorem chain_lookup_witness:
  "\<exists>fm'. rfoldM (record_instance web_flow) fte_init web_chain = Inr fm' \<and> fte_wf fm' \<and>
     fte_get fm' FNone web_packet = Inr [[11, 13], [12]]"
  using chain_lookup [OF _ web_flow_tuple _ _ web_packet_tuple, of fte_init web_chain]
  unfolding web_chain_names(1) web_chain_sets
  by (simp add: fte_wf_def covers_def matchable_def fields_of_def web_tuple_def web_chain_names(2))

section \<open>Removal and migration\<close>

text \<open>Where a descriptor occurs at most once in the list, the loop that deletes while it
  enumerates is the filter it was meant to be.\<close>

lemma del_while_iterating_filter:
  assumes "length (filter P xs) \<le> 1" and "filter P (take i xs) = []"
  shows "del_while_iterating P i xs = filter (\<lambda>x. \<not> P x) xs"
  using assms
proof (induction P i xs rule: del_while_iterating.induct)
  case (1 P i xs)
  have split: "filter P xs = filter P (take i xs) @ filter P (drop i xs)"
    by (metis append_take_drop_id filter_append)
  show ?case
  proof (cases "i < length xs")
    case True
    have xs: "xs = take i xs @ xs ! i # drop (Suc i) xs" using True by (rule id_take_nth_drop)
    show ?thesis
    proof (cases "P (xs ! i)")
      case hit: True
      let ?ys = "take i xs @ drop (Suc i) xs"
      have "filter P xs = filter P (take i xs) @ [xs ! i] @ filter P (drop (Suc i) xs)"
        using xs hit by (metis append_Cons append_Nil filter.simps(2) filter_append)
      with "1.prems" have none: "filter P ?ys = []" by simp
      have "del_while_iterating P i xs = del_while_iterating P (Suc i) ?ys"
        using True hit by (subst del_while_iterating.simps) simp
      also have "\<dots> = filter (\<lambda>x. \<not> P x) ?ys"
        using True hit none by (intro "1.IH"(1)) (auto simp: filter_empty_conv dest: in_set_takeD)
      also have "\<dots> = filter (\<lambda>x. \<not> P x) xs"
        by (subst (3) xs) (simp add: hit)
      finally show ?thesis .
    next
      case miss: False
      have "del_while_iterating P i xs = del_while_iterating P (Suc i) xs"
        using True miss by (subst del_while_iterating.simps) simp
      also have "\<dots> = filter (\<lambda>x. \<not> P x) xs"
        using True miss "1.prems" by (intro "1.IH"(2)) (auto simp: take_Suc_conv_app_nth)
      finally show ?thesis .
    qed
  next
    case False
    then have "del_while_iterating P i xs = xs" by (subst del_while_iterating.simps) simp
    moreover have "\<forall>x \<in> set xs. \<not> P x" using "1.prems"(2) False by (simp add: filter_empty_conv)
    ultimately show ?thesis by simp
  qed
qed

lemma filter_desc_once: "distinct (map ei_elem_desc insts) \<Longrightarrow> length (filter (\<lambda>e. ei_elem_desc e = ed) insts) \<le> 1"
  by (induction insts) (auto simp: filter_empty_conv image_iff)

text \<open>
  Removing an element instance: when no flow space lists a descriptor twice, removing the
  descriptor leaves, for every flow space, exactly the instances with other descriptors, in
  their order; the names of the chain stay.
\<close>

lemma remove_element_instance_filter:
  assumes "\<forall>(flow, insts) \<in> set (flow_to_element_instance_mapping fm). distinct (map ei_elem_desc insts)"
  shows "flow_to_element_instance_mapping (remove_element_instance fm ed) =
           map (\<lambda>(flow, insts). (flow, filter (\<lambda>e. ei_elem_desc e \<noteq> ed) insts)) (flow_to_element_instance_mapping fm)
       \<and> flow_to_element_mapping (remove_element_instance fm ed) = flow_to_element_mapping fm"
proof -
  have "del_while_iterating (\<lambda>e. ei_elem_desc e = ed) 0 insts = filter (\<lambda>e. ei_elem_desc e \<noteq> ed) insts"
    if "(flow, insts) \<in> set (flow_to_element_instance_mapping fm)" for flow insts
    using assms that by (intro del_while_iterating_filter filter_desc_once) auto
  then show ?thesis unfolding remove_element_instance_def by auto
qed

lemma remove_element_instance_filter_example:
  "insts_of (remove_element_instance
     (fte_init\<lparr>flow_to_element_instance_mapping := [(web_tuple, web_chain)]\<rparr>) 11) web_tuple = drop 1 web_chain"
  using remove_element_instance_filter [of "fte_init\<lparr>flow_to_element_instance_mapping := [(web_tuple, web_chain)]\<rparr>" 11]
  by (simp add: web_chain_def)

lemma replace_migrating_step:
  "(\<forall>r \<in> set rs. distinct r) \<Longrightarrow>
   map (\<lambda>replicas. if ed \<in> set replicas then remove1 ed replicas else replicas) rs =
   map (filter (\<lambda>e. e \<noteq> ed)) rs"
  by (auto simp: distinct_remove1_removeAll removeAll_filter_not_eq intro!: filter_True [symmetric] filter_cong)

lemma replace_migrating_filter:
  "(\<forall>r \<in> set rs. distinct r) \<Longrightarrow>
   foldl (\<lambda>rs ed. map (\<lambda>replicas. if ed \<in> set replicas then remove1 ed replicas else replicas) rs) rs eds =
   map (filter (\<lambda>e. e \<notin> set eds)) rs"
proof (induction eds arbitrary: rs)
  case Nil
  then show ?case by simp
next
  case (Cons ed eds)
  then show ?case by (auto simp: replace_migrating_step intro: filter_cong)
qed

text \<open>
  Migration: on replica sets without repetitions, \<^verbatim>\<open>replace_migrating_elements\<close> keeps exactly the
  replicas that are not migrating, in their order, so that no new flow is assigned to an
  instance that is being replaced.
\<close>

lemma replace_migrating_elements_filter:
  assumes "\<forall>r \<in> set replica_sets. distinct r"
  shows "replace_migrating_elements m replica_sets =
    map (filter (\<lambda>ed. is_migrating m ed \<noteq> Some True)) replica_sets"
  using replace_migrating_filter [OF assms, of "dict_keys m"]
  unfolding replace_migrating_elements_def is_migrating_def set_dict_keys by (simp add: domIff)

lemma replace_migrating_elements_filter_example:
  "replace_migrating_elements (init_migration [] 12 14) [[11], [12, 13]] = [[11], [13]]"
  using replace_migrating_elements_filter [of "[[11], [12, 13]]" "init_migration [] 12 14"]
  by (simp add: init_migration_def is_migrating_def)

lemma etm_get_add:
  assumes "etm_wf m" and "etm_get m ed = None"
  shows "etm_get (etm_add m (Some mc) (Some ed)) = (etm_get m)(ed \<mapsto> mc)"
proof
  fix e
  let ?m = "etm_add m (Some mc) (Some ed)"
  have fresh: "ed \<notin> etm_descs m" using assms(2) by (simp add: etm_get_None_iff)
  have wf: "etm_wf ?m" using etm_wf_add [OF assms(1) fresh] .
  show "etm_get ?m e = ((etm_get m)(ed \<mapsto> mc)) e"
  proof (rule option.expand)
    show "(etm_get ?m e = None) = (((etm_get m)(ed \<mapsto> mc)) e = None)"
      by (auto simp: etm_get_None_iff etm_descs_add assms(1))
  next
    assume "etm_get ?m e \<noteq> None"
    then obtain mc' where mc': "etm_get ?m e = Some mc'" by auto
    then have "((etm_get m)(ed \<mapsto> mc)) e = Some mc'"
      using fresh assms(1) unfolding etm_get_iff [OF wf] map_of_etm_add
      by (auto simp: etm_get_iff etm_wf_def etm_descs_iff split: if_splits option.splits)
    with mc' show "the (etm_get ?m e) = the (((etm_get m)(ed \<mapsto> mc)) e)" by simp
  qed
qed

lemma etm_get_remove:
  assumes "etm_wf m" and "etm_get m ed = Some mc"
  shows "etm_get (fst (etm_remove m mc (Some ed))) = (etm_get m)(ed := None)"
proof
  fix e
  let ?m = "fst (etm_remove m mc (Some ed))"
  have wf: "etm_wf ?m" by (rule etm_wf_remove [OF assms(1)])
  obtain eds where eds: "map_of m mc = Some eds" "ed \<in> set eds" using assms by (auto simp: etm_get_iff)
  then have once: "set (remove1 ed eds) = set eds - {ed}" using assms(1) by (auto simp: etm_wf_iff)
  have only: "map_of m mc' = Some xs \<Longrightarrow> ed \<in> set xs \<Longrightarrow> mc' = mc" for mc' xs
    using eds assms(1) unfolding etm_wf_iff by blast
  have "(\<exists>ys. map_of ?m x = Some ys \<and> e \<in> set ys) \<longleftrightarrow> e \<noteq> ed \<and> (\<exists>ys. map_of m x = Some ys \<and> e \<in> set ys)" for x
  proof (cases "x = mc")
    case True
    have "map_of ?m mc = Some (remove1 ed eds)" by (simp add: map_of_etm_remove eds(1))
    then show ?thesis unfolding True using once eds(1) by simp blast
  next
    case False
    then have "map_of ?m x = map_of m x" by (simp add: map_of_etm_remove)
    with False only [of x] show ?thesis by metis
  qed
  then have "etm_get ?m e = Some x \<longleftrightarrow> ((etm_get m)(ed := None)) e = Some x" for x
    using etm_get_iff [OF wf, of e x] etm_get_iff [OF assms(1), of e x] by simp
  then show "etm_get ?m e = ((etm_get m)(ed := None)) e" by (metis not_None_eq)
qed

text \<open>
  Element locations: a descriptor added to a machine is found there and every other
  descriptor stays where it was, the table keeps one machine per descriptor, and removing the
  descriptor again succeeds and restores every location.
\<close>

lemma element_location:
  assumes "etm_wf m" and "etm_get m ed = None"
  shows "etm_wf (etm_add m (Some mc) (Some ed)) \<and>
     etm_get (etm_add m (Some mc) (Some ed)) = (etm_get m)(ed \<mapsto> mc) \<and>
     (\<exists>m'. etm_remove (etm_add m (Some mc) (Some ed)) mc (Some ed) = (m', Some True) \<and>
        etm_wf m' \<and> etm_get m' = etm_get m)"
proof -
  let ?m = "etm_add m (Some mc) (Some ed)"
  have wf: "etm_wf ?m" using assms by (intro etm_wf_add) (simp_all add: etm_get_None_iff)
  have get: "etm_get ?m = (etm_get m)(ed \<mapsto> mc)" by (rule etm_get_add [OF assms])
  obtain m' where m': "etm_remove ?m mc (Some ed) = (m', Some True)"
    by (auto simp: etm_remove_def Let_def ddict_touch_def map_of_etm_add)
  have "etm_get m' = etm_get m" using etm_get_remove [OF wf, of ed mc] m' get assms(2) by (simp add: fun_upd_idem)
  with wf get m' etm_wf_remove [OF wf, of mc ed] show ?thesis by auto
qed

lemma element_location_example:
  "etm_wf (etm_add [(MacInt 1, [4]), (MacInt 2, [])] (Some (MacInt 2)) (Some 5)) \<and>
   etm_get (etm_add [(MacInt 1, [4]), (MacInt 2, [])] (Some (MacInt 2)) (Some 5)) 5 = Some (MacInt 2) \<and>
   etm_get (etm_add [(MacInt 1, [4]), (MacInt 2, [])] (Some (MacInt 2)) (Some 5)) 4 = Some (MacInt 1)"
  using element_location [of "[(MacInt 1, [4]), (MacInt 2, [])]" 5 "MacInt 2"]
  by (simp add: etm_wf_def etm_get_def)

section \<open>Error paths\<close>

text \<open>
  \<^verbatim>\<open>remove_flow\<close> cannot remove a flow space that leaves a MAC address open: it converts the
  addresses without a test for \<^verbatim>\<open>None\<close>, so that every such call raises \<^verbatim>\<open>TypeError\<close>, whatever is
  recorded.
\<close>

lemma remove_flow_wildcard_error:
  assumes "map_of flow ''dl_src'' = Some FNone \<or>
    (map_of flow ''dl_dst'' = Some FNone \<and> (\<exists>s. map_of flow ''dl_src'' = Some (FStr s) \<and> length s = 6))"
  shows "remove_flow fm p flow = Inl TypeError"
  using assms
  by (auto simp: remove_flow_def flow_to_tuple_strict_def dict_getitem_def mac_field_to_int_def mac_to_int_def)

lemma remove_flow_wildcard_error_example: "remove_flow fte_init FNone make_wildcard_flow = Inl TypeError"
  using remove_flow_wildcard_error [of make_wildcard_flow fte_init FNone] by (simp add: make_wildcard_flow_def)

text \<open>
  \<^verbatim>\<open>get_matching_flow\<close> compares the packet's \<^verbatim>\<open>EthAddr\<close> objects with the numbers of the flow
  space: as soon as the first recorded flow space fixes the source MAC (and leaves the port
  open), the lookup of any packet with a source MAC raises \<^verbatim>\<open>TypeError\<close>.
\<close>

lemma get_matching_flow_mac_error:
  assumes "flow_to_element_mapping fm = (item, names) # rest" and "in_port item = FNone"
    and "dl_src item = FInt n" and "dl_src pkt = FEth e"
  shows "get_matching_flow fm pkt = Inl TypeError"
  using assms
  by (simp add: get_matching_flow_def raw_flow_tuple_def flowtuple_equals_def field_matches_def rand_def
      py_eq_def eth_eq_def)

lemma get_matching_flow_mac_error_example:
  "get_matching_flow (fte_init\<lparr>flow_to_element_mapping := [(web_tuple\<lparr>dl_src := FInt 5\<rparr>, [''Logger''])]\<rparr>)
     (web_packet\<lparr>dl_src := FEth (replicate 6 CHR 0x05)\<rparr>) = Inl TypeError"
  by (rule get_matching_flow_mac_error [where item = "web_tuple\<lparr>dl_src := FInt 5\<rparr>" and n = 5])
    (simp_all add: web_tuple_def)

end
