(* ===== verification/L2_State.thy ===== *)
theory L2_State
  imports Path_Map Network_Maps
begin

text \<open>
  The forwarding component's state and the handlers that need no other component
  (\<^verbatim>\<open>l2_multi_slick.py\<close>): the known switches, their links, the learned hosts, the path map that
  is recomputed on demand, and the paths waiting for their barrier replies.
\<close>

section \<open>State\<close>

text \<open>A \<^verbatim>\<open>Switch\<close>: whether it has a connection, its ports, and when it connected.\<close>

record l2_switch =
  sw_connected :: bool
  sw_ports :: "int list option"
  sw_connected_at :: "int option"

text \<open>A discovered link: \<^verbatim>\<open>(dpid1, port1, dpid2, port2)\<close>.\<close>

type_synonym link = "dpid \<times> int \<times> dpid \<times> int"

definition flip_link :: "link \<Rightarrow> link" where
  "flip_link l = (case l of (dpid1, port1, dpid2, port2) \<Rightarrow> (dpid2, port2, dpid1, port1))"

text \<open>The OpenFlow messages the component sends.\<close>

datatype of_msg =
    FlowMod ofp_match "int option" bool
  | FlowDelete
  | BarrierRequest int
  | PacketOutTable string
  | PacketOutFlood "int option" int
  | PacketOutDrop int int
  | PacketOutUnreachable "int option"

record waiting_path =
  wp_expires_at :: int
  wp_path :: "hop list"
  wp_first_switch :: dpid
  wp_xids :: "(dpid \<times> int) list"
  wp_packet :: "string option"

record flow_matrix =
  fm_flow :: flow_tuple
  flow_tm :: "(dpid \<times> dpid, int option) dict"
  fm_flowspace_desc :: int

text \<open>A \<^verbatim>\<open>WaitingPath\<close> object is an index into the list of those created.\<close>

record l2_state =
  l2_switches :: "(dpid, l2_switch) dict"
  l2_adjacency :: adjacency
  l2_mac_map :: "(string, dpid \<times> int) dict"
  l2_path_map :: path_map
  l2_waiting_paths :: "(dpid \<times> int, nat) dict"
  l2_wp_objects :: "waiting_path list"
  l2_middleboxes :: "dpid list"
  l2_flow_matrices :: "flow_matrix list"
  l2_rules_installed :: int
  l2_next_xid :: int
  l2_sent :: "(dpid \<times> of_msg) list"
  l2_installed :: "nat list"

definition FLOOD_HOLDDOWN :: int where "FLOOD_HOLDDOWN = 5"

definition PATH_SETUP_TIME :: int where "PATH_SETUP_TIME = 4"

definition l2_init :: l2_state where
  "l2_init = \<lparr>l2_switches = [], l2_adjacency = [], l2_mac_map = [], l2_path_map = [], l2_waiting_paths = [],
     l2_wp_objects = [], l2_middleboxes = [], l2_flow_matrices = [], l2_rules_installed = 0, l2_next_xid = 1,
     l2_sent = [], l2_installed = []\<rparr>"

definition send_to :: "dpid \<Rightarrow> of_msg \<Rightarrow> l2_state \<Rightarrow> l2_state" where
  "send_to sw msg s = s\<lparr>l2_sent := l2_sent s @ [(sw, msg)]\<rparr>"

section \<open>Switches\<close>

definition sw_disconnect :: "l2_switch \<Rightarrow> l2_switch" where
  "sw_disconnect sw = (if sw_connected sw then sw\<lparr>sw_connected := False\<rparr> else sw)"

definition sw_connect :: "int \<Rightarrow> int list \<Rightarrow> l2_switch \<Rightarrow> l2_switch" where
  "sw_connect now ports sw =
     (let sw1 = (case sw_ports sw of None \<Rightarrow> sw\<lparr>sw_ports := Some ports\<rparr> | Some _ \<Rightarrow> sw)
      in (sw_disconnect sw1)\<lparr>sw_connected := True, sw_connected_at := Some now\<rparr>)"

definition is_holding_down :: "int \<Rightarrow> l2_switch \<Rightarrow> bool" where
  "is_holding_down now sw =
     (case sw_connected_at sw of None \<Rightarrow> True | Some t \<Rightarrow> if now - t > FLOOD_HOLDDOWN then False else True)"

definition l2_handle_ConnectionUp :: "int \<Rightarrow> dpid \<Rightarrow> int list \<Rightarrow> l2_state \<Rightarrow> l2_state" where
  "l2_handle_ConnectionUp now dpid ports s =
     (case map_of (l2_switches s) dpid of
        None \<Rightarrow>
          s\<lparr>l2_switches := AList.update dpid
              (sw_connect now ports \<lparr>sw_connected = False, sw_ports = None, sw_connected_at = None\<rparr>) (l2_switches s)\<rparr>
      | Some sw \<Rightarrow> s\<lparr>l2_switches := AList.update dpid (sw_connect now ports sw) (l2_switches s)\<rparr>)"

definition l2_handle_ConnectionDown :: "dpid \<Rightarrow> l2_state \<Rightarrow> l2_state" where
  "l2_handle_ConnectionDown dpid s =
     (case map_of (l2_switches s) dpid of
        None \<Rightarrow> s
      | Some sw \<Rightarrow> s\<lparr>l2_switches := AList.update dpid (sw_disconnect sw) (l2_switches s)\<rparr>)"

section \<open>Links\<close>

definition adj_set :: "dpid \<Rightarrow> dpid \<Rightarrow> int option \<Rightarrow> adjacency \<Rightarrow> adjacency" where
  "adj_set a b port m = AList.update a (AList.update b port (adj_row m a)) m"

definition adj_del :: "dpid \<Rightarrow> dpid \<Rightarrow> adjacency \<Rightarrow> adjacency" where
  "adj_del a b m = (if has_key (adj_row m a) b then AList.update a (AList.delete b (adj_row m a)) m else m)"

text \<open>The search for another link between two switches after one went down.\<close>

fun find_other_link :: "link list \<Rightarrow> link list \<Rightarrow> dpid \<Rightarrow> dpid \<Rightarrow> link option" where
  "find_other_link links [] d1 d2 = None"
| "find_other_link links (ll # rest) d1 d2 =
     (case ll of (dpid1, port1, dpid2, port2) \<Rightarrow>
        if dpid1 = d1 \<and> dpid2 = d2 then
          (if flip_link ll \<in> set links then Some ll else find_other_link links rest d1 d2)
        else find_other_link links rest d1 d2)"

text \<open>\<^verbatim>\<open>_handle_LinkEvent\<close>; \<open>links\<close> is the adjacency of the discovery component at the time.\<close>

definition l2_handle_LinkEvent :: "link list \<Rightarrow> link \<Rightarrow> bool \<Rightarrow> l2_state \<Rightarrow> l2_state res" where
  "l2_handle_LinkEvent links l removed s =
     (case l of (dpid1, port1, dpid2, port2) \<Rightarrow>
      rbind (dict_getitem (l2_switches s) dpid1) (\<lambda>_.
      rbind (dict_getitem (l2_switches s) dpid2) (\<lambda>_.
      let s1 = foldl (\<lambda>s (sw, sobj). if sw_connected sobj then send_to sw FlowDelete s else s) s (l2_switches s);
          s2 = s1\<lparr>l2_path_map := []\<rparr>;
          m = l2_adjacency s2
      in if removed then
           (let m1 = adj_del dpid1 dpid2 m;
                m2 = adj_del dpid2 dpid1 m1
            in case find_other_link links links dpid1 dpid2 of
                 None \<Rightarrow> Inr (s2\<lparr>l2_adjacency := m2\<rparr>)
               | Some (_, p1, _, p2) \<Rightarrow>
                   Inr (s2\<lparr>l2_adjacency := adj_set dpid2 dpid1 (Some p2) (adj_set dpid1 dpid2 (Some p1) m2)\<rparr>))
         else
           (let m1 = (case adj m dpid1 dpid2 of
                        None \<Rightarrow>
                          if flip_link l \<in> set links
                          then adj_set dpid2 dpid1 (Some port2) (adj_set dpid1 dpid2 (Some port1) m)
                          else m
                      | Some _ \<Rightarrow> m);
                bad_macs = filter (\<lambda>mac. map_of (l2_mac_map s2) mac = Some (dpid1, port1) \<or>
                                         map_of (l2_mac_map s2) mac = Some (dpid2, port2))
                             (dict_keys (l2_mac_map s2))
            in Inr (s2\<lparr>l2_adjacency := m1,
                       l2_mac_map := foldl (\<lambda>mm mac. AList.delete mac mm) (l2_mac_map s2) bad_macs\<rparr>)))))"

section \<open>Waiting paths\<close>

definition wp_expired :: "int \<Rightarrow> waiting_path \<Rightarrow> bool" where
  "wp_expired now wp \<longleftrightarrow> now \<ge> wp_expires_at wp"

text \<open>\<^verbatim>\<open>expire_waiting_paths\<close>: the objects still referred to, and for each expired one its entries.\<close>

definition expire_waiting_paths :: "int \<Rightarrow> l2_state \<Rightarrow> l2_state" where
  "expire_waiting_paths now s =
     (let packets = remdups (map snd (l2_waiting_paths s))
      in s\<lparr>l2_waiting_paths :=
            foldl (\<lambda>w p. if wp_expired now (l2_wp_objects s ! p)
                         then foldl (\<lambda>w entry. AList.delete entry w) w (wp_xids (l2_wp_objects s ! p)) else w)
              (l2_waiting_paths s) packets\<rparr>)"

definition new_waiting_path :: "int \<Rightarrow> hop list \<Rightarrow> string option \<Rightarrow> l2_state \<Rightarrow> (l2_state \<times> nat) res" where
  "new_waiting_path now path packet s =
     (case path of
        [] \<Rightarrow> Inl IndexError
      | (sw, _, _) # _ \<Rightarrow>
          (let wp = \<lparr>wp_expires_at = now + PATH_SETUP_TIME, wp_path = path, wp_first_switch = sw, wp_xids = [],
                     wp_packet = packet\<rparr>;
               s1 = s\<lparr>l2_wp_objects := l2_wp_objects s @ [wp]\<rparr>
           in Inr (if length (l2_waiting_paths s1) > 1000 then expire_waiting_paths now s1 else s1,
                   length (l2_wp_objects s))))"

definition add_xid :: "nat \<Rightarrow> dpid \<Rightarrow> int \<Rightarrow> l2_state \<Rightarrow> l2_state" where
  "add_xid p dpid xid s =
     s\<lparr>l2_wp_objects := (l2_wp_objects s)[p := (l2_wp_objects s ! p)\<lparr>wp_xids :=
          (if (dpid, xid) \<in> set (wp_xids (l2_wp_objects s ! p)) then wp_xids (l2_wp_objects s ! p)
           else wp_xids (l2_wp_objects s ! p) @ [(dpid, xid)])\<rparr>],
       l2_waiting_paths := AList.update (dpid, xid) p (l2_waiting_paths s)\<rparr>"

definition wp_notify :: "nat \<Rightarrow> dpid \<Rightarrow> int \<Rightarrow> l2_state \<Rightarrow> l2_state" where
  "wp_notify p dpid xid s =
     (let wp = l2_wp_objects s ! p;
          wp' = wp\<lparr>wp_xids := filter (\<lambda>e. e \<noteq> (dpid, xid)) (wp_xids wp)\<rparr>;
          s1 = s\<lparr>l2_wp_objects := (l2_wp_objects s)[p := wp']\<rparr>
      in if wp_xids wp' = [] then
           (let s2 = (case wp_packet wp' of
                        None \<Rightarrow> s1
                      | Some data \<Rightarrow> send_to (wp_first_switch wp') (PacketOutTable data) s1)
            in s2\<lparr>l2_installed := l2_installed s2 @ [p]\<rparr>)
         else s1)"

definition l2_handle_BarrierIn :: "dpid \<Rightarrow> int \<Rightarrow> l2_state \<Rightarrow> l2_state" where
  "l2_handle_BarrierIn dpid xid s =
     (case map_of (l2_waiting_paths s) (dpid, xid) of
        None \<Rightarrow> s
      | Some p \<Rightarrow> wp_notify p dpid xid (s\<lparr>l2_waiting_paths := AList.delete (dpid, xid) (l2_waiting_paths s)\<rparr>))"

text \<open>\<^verbatim>\<open>_install\<close> and \<^verbatim>\<open>_install_path\<close>: a flow entry and a barrier request for every hop.  Sending on a
  switch without a connection raises.\<close>

definition install_rule :: "dpid \<Rightarrow> int option \<Rightarrow> int option \<Rightarrow> ofp_match \<Rightarrow> l2_state \<Rightarrow> (l2_state \<times> ofp_match) res" where
  "install_rule sw inport outport match s =
     (let match' = match\<lparr>in_port := (case inport of None \<Rightarrow> FNone | Some p \<Rightarrow> FInt p)\<rparr>;
          s1 = (if nw_proto match' = FInt 1 then s\<lparr>l2_rules_installed := l2_rules_installed s + 1\<rparr> else s)
      in case map_of (l2_switches s) sw of
           Some sobj \<Rightarrow>
             if sw_connected sobj then Inr (send_to sw (FlowMod match' outport True) s1, match') else Inl AttributeError
         | None \<Rightarrow> Inl AttributeError)"

definition l2_install_path ::
    "int \<Rightarrow> hop list \<Rightarrow> ofp_match \<Rightarrow> string option \<Rightarrow> l2_state \<Rightarrow> (l2_state \<times> ofp_match) res" where
  "l2_install_path now p match packet_in s =
     rbind (new_waiting_path now p packet_in s) (\<lambda>(s1, wp).
     rfoldM (\<lambda>(s, match) (sw, inport, outport).
        rbind (install_rule sw inport outport match s) (\<lambda>(s', match').
        let xid = l2_next_xid s';
            s2 = (send_to sw (BarrierRequest xid) s')\<lparr>l2_next_xid := xid + 1\<rparr>
        in Inr (add_xid wp sw xid s2, match'))) (s1, match) p)"

section \<open>The link table\<close>

lemma adj_set_get [simp]: "adj (adj_set a b p m) x y = (if x = a \<and> y = b then p else adj m x y)"
  by (auto simp: adj_set_def adj_def adj_row_def)

lemma adj_del_get [simp]: "adj (adj_del a b m) x y = (if x = a \<and> y = b then None else adj m x y)"
  by (auto simp: adj_del_def adj_def adj_row_def split: option.splits)

lemma adj_wf_iff: "adj_wf m \<longleftrightarrow> dict_wf m \<and> (\<forall>a. dict_wf (adj_row m a))"
proof
  assume "adj_wf m"
  then show "dict_wf m \<and> (\<forall>a. dict_wf (adj_row m a))" using adj_row_wf by (auto simp: adj_wf_def)
next
  assume wf: "dict_wf m \<and> (\<forall>a. dict_wf (adj_row m a))"
  have "dict_wf row" if "(a, row) \<in> set m" for a row
    using wf that map_of_is_SomeI [of m a row] by (auto simp: adj_row_def dest!: spec [of _ a])
  with wf show "adj_wf m" by (auto simp: adj_wf_def)
qed

lemma adj_row_update: "adj_row (AList.update a row m) x = (if x = a then row else adj_row m x)"
  by (simp add: adj_row_def)

lemma adj_wf_set: "adj_wf m \<Longrightarrow> adj_wf (adj_set a b p m)"
  by (simp add: adj_wf_iff adj_set_def adj_row_update)

lemma adj_wf_del: "adj_wf m \<Longrightarrow> adj_wf (adj_del a b m)"
  by (simp add: adj_wf_iff adj_del_def adj_row_update)

lemma find_other_link_Some:
  "find_other_link links ls d1 d2 = Some ll \<Longrightarrow> set ls \<subseteq> set links \<Longrightarrow>
   \<exists>p q. ll = (d1, p, d2, q) \<and> (d1, p, d2, q) \<in> set links \<and> (d2, q, d1, p) \<in> set links"
  by (induction ls) (auto simp: flip_link_def split: prod.splits if_splits)

lemma find_other_link_None:
  "find_other_link links ls d1 d2 = None \<Longrightarrow> (d1, p, d2, q) \<in> set ls \<Longrightarrow> (d2, q, d1, p) \<notin> set links"
  by (induction ls) (auto simp: flip_link_def split: prod.splits if_splits)

text \<open>
  The invariant of the forwarding state: links are known in both directions and only between
  known switches, and the path map, when filled, was computed from the present links.
\<close>

definition closed_on :: "dpid set \<Rightarrow> adjacency \<Rightarrow> bool" where
  "closed_on S m \<longleftrightarrow> (\<forall>a b. edge m a b \<longrightarrow> a \<in> S \<and> b \<in> S)"

definition paths_current :: "l2_state \<Rightarrow> bool" where
  "paths_current s \<longleftrightarrow> l2_path_map s = [] \<or>
     (\<exists>S. set S \<subseteq> set (dict_keys (l2_switches s)) \<and> closed_on (set S) (l2_adjacency s) \<and>
        l2_path_map s = calc_paths S (l2_adjacency s))"

definition l2_wf :: "l2_state \<Rightarrow> bool" where
  "l2_wf s \<longleftrightarrow> dict_wf (l2_switches s) \<and> dict_wf (l2_mac_map s) \<and> adj_wf (l2_adjacency s) \<and>
     (\<forall>a b. edge (l2_adjacency s) a b \<longrightarrow> edge (l2_adjacency s) b a) \<and>
     closed_on (set (dict_keys (l2_switches s))) (l2_adjacency s) \<and> paths_current s"

lemma l2_wf_init: "l2_wf l2_init"
  by (simp add: l2_wf_def l2_init_def adj_wf_def edge_def adj_def adj_row_def closed_on_def paths_current_def)

lemma send_loop:
  "foldl (\<lambda>s (sw, sobj). if sw_connected sobj then send_to sw FlowDelete s else s) s sws =
     s\<lparr>l2_sent := l2_sent s @ map (\<lambda>(sw, sobj). (sw, FlowDelete)) (filter (\<lambda>(sw, sobj). sw_connected sobj) sws)\<rparr>"
  by (induction sws arbitrary: s) (auto simp: send_to_def)

lemma foldl_delete:
  "map_of (foldl (\<lambda>m k. AList.delete k m) m ks) = (\<lambda>k. if k \<in> set ks then None else map_of m k)"
  by (induction ks arbitrary: m) (auto simp: fun_eq_iff)

lemma foldl_delete_wf: "dict_wf m \<Longrightarrow> dict_wf (foldl (\<lambda>m k. AList.delete k m) m ks)"
  by (induction ks arbitrary: m) auto

text \<open>Cutting and joining a pair of switches, in either direction.\<close>

definition pair_is :: "'a \<Rightarrow> 'a \<Rightarrow> 'a \<Rightarrow> 'a \<Rightarrow> bool" where
  "pair_is a b x y \<longleftrightarrow> x = a \<and> y = b \<or> x = b \<and> y = a"

lemma pair_is_sym: "pair_is a b x y \<longleftrightarrow> pair_is a b y x"
  by (auto simp: pair_is_def)

lemma pair_is_refl [simp]: "pair_is a b a b"
  by (simp add: pair_is_def)

lemma if_cut: "(if P then u else if Q then u else v) = (if Q \<or> P then u else v)"
  by simp

lemma if_join: "(if P then Some q else if Q then Some p else v) \<noteq> None \<longleftrightarrow> (Q \<or> P) \<or> v \<noteq> None"
  by simp

lemma adj_cut: "adj (adj_del b a (adj_del a b m)) x y = (if pair_is a b x y then None else adj m x y)"
  unfolding pair_is_def adj_del_get by (rule if_cut)

lemma edge_cut: "edge (adj_del b a (adj_del a b m)) x y \<longleftrightarrow> \<not> pair_is a b x y \<and> edge m x y"
  unfolding edge_def adj_cut by (metis (full_types))

lemma adj_join: "\<not> pair_is a b x y \<Longrightarrow> adj (adj_set b a (Some q) (adj_set a b (Some p) m)) x y = adj m x y"
  unfolding pair_is_def adj_set_get by (metis (full_types))

lemma edge_join: "edge (adj_set b a (Some q) (adj_set a b (Some p) m)) x y \<longleftrightarrow> pair_is a b x y \<or> edge m x y"
  unfolding pair_is_def edge_def adj_set_get by (rule if_join)

lemma l2_wf_relink:
  assumes "l2_wf s" and "l2_switches s' = l2_switches s" and "l2_path_map s' = []" and "dict_wf (l2_mac_map s')"
    and "adj_wf (l2_adjacency s')" and "\<And>x y. edge (l2_adjacency s') x y \<longleftrightarrow> P x y"
    and "\<And>x y. P x y \<Longrightarrow> P y x \<and> x \<in> set (dict_keys (l2_switches s))"
  shows "l2_wf s'"
  using assms unfolding l2_wf_def closed_on_def paths_current_def by metis

lemma link_event_effect:
  assumes "l2_wf s" and "has_key (l2_switches s) d1" and "has_key (l2_switches s) d2"
  shows "\<exists>s'. l2_handle_LinkEvent links (d1, p1, d2, p2) removed s = Inr s' \<and> l2_wf s' \<and> l2_path_map s' = [] \<and>
    (\<forall>a b. \<not> pair_is d1 d2 a b \<longrightarrow> adj (l2_adjacency s') a b = adj (l2_adjacency s) a b) \<and>
    (removed \<longrightarrow> l2_mac_map s' = l2_mac_map s \<and>
       (edge (l2_adjacency s') d1 d2 \<longleftrightarrow> (\<exists>p q. (d1, p, d2, q) \<in> set links \<and> (d2, q, d1, p) \<in> set links))) \<and>
    (\<not> removed \<longrightarrow>
       (edge (l2_adjacency s') d1 d2 \<longleftrightarrow> edge (l2_adjacency s) d1 d2 \<or> (d2, p2, d1, p1) \<in> set links) \<and>
       (\<forall>mac. map_of (l2_mac_map s') mac =
          (if map_of (l2_mac_map s) mac \<in> {Some (d1, p1), Some (d2, p2)} then None else map_of (l2_mac_map s) mac)))"
proof -
  have known: "d1 \<in> set (dict_keys (l2_switches s))" "d2 \<in> set (dict_keys (l2_switches s))"
    using assms(2,3) unfolding set_dict_keys by auto
  have sw: "dict_getitem (l2_switches s) d1 = Inr (the (map_of (l2_switches s) d1))"
    "dict_getitem (l2_switches s) d2 = Inr (the (map_of (l2_switches s) d2))"
    using assms(2,3) by auto
  note simps = l2_handle_LinkEvent_def send_loop sw
  have wf: "dict_wf (l2_mac_map s)" "adj_wf (l2_adjacency s)"
    and sym: "edge (l2_adjacency s) x y \<Longrightarrow> edge (l2_adjacency s) y x \<and> x \<in> set (dict_keys (l2_switches s))" for x y
    using assms(1) unfolding l2_wf_def closed_on_def by blast+
  have pair: "pair_is d1 d2 x y \<Longrightarrow> pair_is d1 d2 y x \<and> x \<in> set (dict_keys (l2_switches s))" for x y
    using known unfolding pair_is_def by blast
  let ?cut = "adj_del d2 d1 (adj_del d1 d2 (l2_adjacency s))"
  consider "removed" "find_other_link links links d1 d2 = None"
    | p q where "removed" "find_other_link links links d1 d2 = Some (d1, p, d2, q)"
        "(d1, p, d2, q) \<in> set links" "(d2, q, d1, p) \<in> set links"
    | "\<not> removed"
    using find_other_link_Some [of links links d1 d2] by (metis not_None_eq order_refl)
  then show ?thesis
  proof cases
    case 1
    then obtain s' where s': "l2_handle_LinkEvent links (d1, p1, d2, p2) removed s = Inr s'"
        "l2_adjacency s' = ?cut" "l2_switches s' = l2_switches s" "l2_path_map s' = []" "l2_mac_map s' = l2_mac_map s"
      by (simp add: simps Let_def)
    have edges: "edge (l2_adjacency s') x y \<longleftrightarrow> \<not> pair_is d1 d2 x y \<and> edge (l2_adjacency s) x y" for x y
      unfolding s'(2) by (rule edge_cut)
    have "l2_wf s'"
    proof (rule l2_wf_relink [OF assms(1) s'(3,4) _ _ edges])
      show "dict_wf (l2_mac_map s')" "adj_wf (l2_adjacency s')" using wf by (simp_all add: s' adj_wf_del)
    qed (use sym pair in blast)
    moreover have "adj (l2_adjacency s') a b = adj (l2_adjacency s) a b" if "\<not> pair_is d1 d2 a b" for a b
      using that by (simp only: s'(2) adj_cut if_False)
    moreover have "\<not> edge (l2_adjacency s') d1 d2" by (simp only: edges pair_is_refl simp_thms)
    ultimately show ?thesis using s'(1,4,5) 1(1) find_other_link_None [OF 1(2)] by blast
  next
    case 2
    let ?join = "adj_set d2 d1 (Some q) (adj_set d1 d2 (Some p) ?cut)"
    from 2 obtain s' where s': "l2_handle_LinkEvent links (d1, p1, d2, p2) removed s = Inr s'"
        "l2_adjacency s' = ?join" "l2_switches s' = l2_switches s" "l2_path_map s' = []" "l2_mac_map s' = l2_mac_map s"
      by (simp add: simps Let_def)
    have edges: "edge (l2_adjacency s') x y \<longleftrightarrow> pair_is d1 d2 x y \<or> edge (l2_adjacency s) x y" for x y
      unfolding s'(2) edge_join edge_cut by blast
    have "l2_wf s'"
    proof (rule l2_wf_relink [OF assms(1) s'(3,4) _ _ edges])
      show "dict_wf (l2_mac_map s')" "adj_wf (l2_adjacency s')" using wf by (simp_all add: s' adj_wf_del adj_wf_set)
    qed (use sym pair in blast)
    moreover have "adj (l2_adjacency s') a b = adj (l2_adjacency s) a b" if "\<not> pair_is d1 d2 a b" for a b
      unfolding s'(2) adj_join [OF that] adj_cut using that by (simp only: if_False)
    moreover have "edge (l2_adjacency s') d1 d2" by (simp only: edges pair_is_refl simp_thms)
    ultimately show ?thesis using s'(1,4,5) 2(1,3,4) by blast
  next
    case 3
    let ?bad = "filter (\<lambda>mac. map_of (l2_mac_map s) mac = Some (d1, p1) \<or> map_of (l2_mac_map s) mac = Some (d2, p2))
        (dict_keys (l2_mac_map s))"
    let ?macs = "foldl (\<lambda>m k. AList.delete k m) (l2_mac_map s) ?bad"
    let ?join = "adj_set d2 d1 (Some p2) (adj_set d1 d2 (Some p1) (l2_adjacency s))"
    let ?new = "if adj (l2_adjacency s) d1 d2 = None \<and> (d2, p2, d1, p1) \<in> set links then ?join else l2_adjacency s"
    have macs: "map_of ?macs mac =
       (if map_of (l2_mac_map s) mac \<in> {Some (d1, p1), Some (d2, p2)} then None else map_of (l2_mac_map s) mac)" for mac
      unfolding foldl_delete set_filter set_dict_keys by (auto simp: domIff)
    from 3 obtain s' where s': "l2_handle_LinkEvent links (d1, p1, d2, p2) removed s = Inr s'"
        "l2_adjacency s' = ?new" "l2_switches s' = l2_switches s" "l2_path_map s' = []" "l2_mac_map s' = ?macs"
      by (cases "adj (l2_adjacency s) d1 d2") (simp_all add: simps Let_def flip_link_def)
    have edges: "edge (l2_adjacency s') x y \<longleftrightarrow> edge (l2_adjacency s) x y \<or> (pair_is d1 d2 x y \<and> (d2, p2, d1, p1) \<in> set links \<and> \<not> edge (l2_adjacency s) d1 d2)" for x y
    proof (cases "adj (l2_adjacency s) d1 d2 = None \<and> (d2, p2, d1, p1) \<in> set links")
      case True
      then have "\<not> edge (l2_adjacency s) d1 d2" by (simp add: edge_def)
      with True show ?thesis unfolding s'(2) edge_join if_P [OF True] by blast
    next
      case False
      then have "\<not> ((d2, p2, d1, p1) \<in> set links \<and> \<not> edge (l2_adjacency s) d1 d2)" by (auto simp: edge_def)
      then show ?thesis unfolding s'(2) if_not_P [OF False] by blast
    qed
    have "l2_wf s'"
    proof (rule l2_wf_relink [OF assms(1) s'(3,4) _ _ edges])
      show "dict_wf (l2_mac_map s')" "adj_wf (l2_adjacency s')"
        using wf by (simp_all add: s' adj_wf_set foldl_delete_wf)
    qed (use sym pair in blast)
    moreover have "adj (l2_adjacency s') a b = adj (l2_adjacency s) a b" if "\<not> pair_is d1 d2 a b" for a b
      using adj_join [OF that] unfolding s'(2) by presburger
    moreover have "edge (l2_adjacency s') d1 d2 \<longleftrightarrow> edge (l2_adjacency s) d1 d2 \<or> (d2, p2, d1, p1) \<in> set links"
      using edges [of d1 d2] pair_is_refl [of d1 d2] by blast
    ultimately show ?thesis using s'(1,4) 3 macs unfolding s'(5) [symmetric] by blast
  qed
qed

text \<open>
  C13. Link events: between known switches the handler never raises and keeps the invariant (links
  in both directions, between known switches, no stale path map).  No other pair of switches is
  affected.  After a removal the two switches are linked exactly when the discovery component
  still knows a link between them in both directions; after an addition, when they were linked
  or the new link is known in both directions, and no host remains learned at either of its
  ports while every other host stays.
\<close>

theorem link_event:
  assumes "l2_wf s" and "has_key (l2_switches s) d1" and "has_key (l2_switches s) d2"
  shows "\<exists>s'. l2_handle_LinkEvent links (d1, p1, d2, p2) removed s = Inr s' \<and> l2_wf s' \<and> l2_path_map s' = [] \<and>
    (\<forall>a b. \<not> pair_is d1 d2 a b \<longrightarrow> adj (l2_adjacency s') a b = adj (l2_adjacency s) a b) \<and>
    (removed \<longrightarrow> l2_mac_map s' = l2_mac_map s \<and>
       (edge (l2_adjacency s') d1 d2 \<longleftrightarrow> (\<exists>p q. (d1, p, d2, q) \<in> set links \<and> (d2, q, d1, p) \<in> set links))) \<and>
    (\<not> removed \<longrightarrow>
       (edge (l2_adjacency s') d1 d2 \<longleftrightarrow> edge (l2_adjacency s) d1 d2 \<or> (d2, p2, d1, p1) \<in> set links) \<and>
       (\<forall>mac. map_of (l2_mac_map s') mac =
          (if map_of (l2_mac_map s) mac \<in> {Some (d1, p1), Some (d2, p2)} then None else map_of (l2_mac_map s) mac)))"
  by (rule link_event_effect [OF assms])

definition pair_state :: l2_state where
  "pair_state = l2_init\<lparr>l2_switches := [(1, \<lparr>sw_connected = True, sw_ports = Some [1, 2], sw_connected_at = Some 0\<rparr>),
     (2, \<lparr>sw_connected = True, sw_ports = Some [1, 2], sw_connected_at = Some 0\<rparr>)],
     l2_mac_map := [(''host'', (1, 2)), (''wrong'', (1, 1))]\<rparr>"

lemma pair_state_wf: "l2_wf pair_state"
  by (simp add: l2_wf_def pair_state_def l2_init_def adj_wf_def edge_def adj_def adj_row_def closed_on_def paths_current_def)

lemma pair_state_facts:
  "map_of (l2_switches pair_state) 1 = Some \<lparr>sw_connected = True, sw_ports = Some [1, 2], sw_connected_at = Some 0\<rparr>"
  "map_of (l2_switches pair_state) 2 = Some \<lparr>sw_connected = True, sw_ports = Some [1, 2], sw_connected_at = Some 0\<rparr>"
  "map_of (l2_mac_map pair_state) = [''host'' \<mapsto> (1, 2), ''wrong'' \<mapsto> (1, 1)]"
  by (auto simp: pair_state_def)

theorem link_event_witness:
  "\<exists>s'. l2_handle_LinkEvent [(2, 1, 1, 1)] (1, 1, 2, 1) False pair_state = Inr s' \<and> l2_wf s' \<and>
     edge (l2_adjacency s') 1 2 \<and> map_of (l2_mac_map s') ''wrong'' = None \<and> map_of (l2_mac_map s') ''host'' = Some (1, 2)"
  using link_event [OF pair_state_wf, of 1 2 "[(2, 1, 1, 1)]" 1 1 False]
  unfolding pair_state_facts by auto

text \<open>The invariant under the events of links and switches.\<close>

lemma link_event_keeps:
  assumes "l2_wf s" and "l2_handle_LinkEvent links l removed s = Inr s'"
  shows "l2_wf s'" and "l2_switches s' = l2_switches s" and "map_of (l2_mac_map s') \<subseteq>\<^sub>m map_of (l2_mac_map s)"
    and "l2_wp_objects s' = l2_wp_objects s \<and> l2_waiting_paths s' = l2_waiting_paths s \<and> l2_installed s' = l2_installed s"
proof -
  obtain d1 p1 d2 p2 where l: "l = (d1, p1, d2, p2)" by (cases l)
  have known: "has_key (l2_switches s) d1" "has_key (l2_switches s) d2"
    using assms(2) by (auto simp: l l2_handle_LinkEvent_def rbind_eq_Inr)
  from link_event_effect [OF assms(1) known, of links p1 p2 removed] assms(2)
  show "l2_wf s'" "map_of (l2_mac_map s') \<subseteq>\<^sub>m map_of (l2_mac_map s)"
    by (cases removed; auto simp: l map_le_def)+
  show "l2_switches s' = l2_switches s"
      "l2_wp_objects s' = l2_wp_objects s \<and> l2_waiting_paths s' = l2_waiting_paths s \<and> l2_installed s' = l2_installed s"
    using assms(2) by (auto simp: l l2_handle_LinkEvent_def rbind_eq_Inr send_loop Let_def split: if_splits option.splits)
qed

lemma switch_events_keep:
  assumes "l2_wf s"
  shows "l2_wf (l2_handle_ConnectionUp now sw ports s)" and "l2_wf (l2_handle_ConnectionDown sw s)"
proof -
  have "l2_wf (s\<lparr>l2_switches := AList.update sw v (l2_switches s)\<rparr>)" for v
    using assms unfolding l2_wf_def paths_current_def closed_on_def set_dict_keys by auto
  then show "l2_wf (l2_handle_ConnectionUp now sw ports s)" "l2_wf (l2_handle_ConnectionDown sw s)"
    using assms by (auto simp: l2_handle_ConnectionUp_def l2_handle_ConnectionDown_def split: option.splits)
qed

section \<open>Paths on a reachable state\<close>

definition l2_get_path ::
    "l2_state \<Rightarrow> dpid \<Rightarrow> dpid \<Rightarrow> int option \<Rightarrow> int option \<Rightarrow> l2_state \<times> hop list option res" where
  "l2_get_path s src dst first_port final_port =
     (let sws = dict_keys (l2_switches s);
          s' = (if src = dst then s
                else s\<lparr>l2_path_map := ensure_paths sws (l2_adjacency s) (l2_path_map s)\<rparr>)
      in (s', case get_path sws (l2_adjacency s) (l2_path_map s) src dst first_port final_port of
                None \<Rightarrow> Inl RuntimeError
              | Some r \<Rightarrow> r))"

text \<open>Switches that joined after the path map was computed have no links, hence no entries.\<close>

definition outside :: "dpid set \<Rightarrow> path_map \<Rightarrow> bool" where
  "outside S pm \<longleftrightarrow> (\<forall>a b. \<not> (a \<in> S \<and> b \<in> S) \<longrightarrow> fst (pm_get pm a b) = None)"

lemma relax_outside: "outside S pm \<Longrightarrow> i \<in> S \<Longrightarrow> j \<in> S \<Longrightarrow> outside S (calc_relax k pm (i, j))"
  by (cases rule: relax_cases [of k pm i j]) (auto simp: outside_def)

lemma inner_outside:
  "outside (set S) pm \<Longrightarrow> i \<in> set S \<Longrightarrow> outside (set S) (foldl (\<lambda>pm j. calc_relax k pm (i, j)) pm S)"
  by (rule foldl_invariant [where P = "outside (set S)"]) (auto intro: relax_outside)

lemma phase_outside: "outside (set S) pm \<Longrightarrow> outside (set S) (calc_phase S pm k)"
  unfolding calc_phase_def
  by (rule foldl_invariant [where P = "outside (set S)"]) (auto intro: inner_outside)

lemma calc_paths_outside:
  assumes "adj_wf m" and "closed_on (set S) m"
  shows "outside (set S) (calc_paths S m)"
  unfolding calc_paths_def
proof (rule foldl_invariant [where P = "outside (set S)"])
  show "outside (set S) (foldl (calc_row m) [] S)"
    using assms by (auto simp: outside_def calc_rows_get closed_on_def)
qed (rule phase_outside)

lemma closed_walk: "closed_on S m \<Longrightarrow> walk (edge m) i p j \<Longrightarrow> i \<in> S \<and> j \<in> S \<and> set p \<subseteq> S"
proof (induction p arbitrary: i)
  case Nil
  then show ?case by (simp add: closed_on_def)
next
  case (Cons k p)
  from Cons.IH [of k] Cons.prems show ?case by (auto simp: closed_on_def)
qed

lemma ensure_paths_current:
  assumes "l2_wf s"
  shows "\<exists>S. set S \<subseteq> set (dict_keys (l2_switches s)) \<and> closed_on (set S) (l2_adjacency s) \<and>
     ensure_paths (dict_keys (l2_switches s)) (l2_adjacency s) (l2_path_map s) = calc_paths S (l2_adjacency s)"
proof (cases "l2_path_map s = []")
  case True
  with assms show ?thesis
    by (intro exI [of _ "dict_keys (l2_switches s)"]) (simp add: l2_wf_def ensure_paths_def)
next
  case False
  with assms show ?thesis unfolding l2_wf_def paths_current_def ensure_paths_def by auto
qed

lemma get_path_not_Nil: "get_path sws m pm i j p q = Some (Inr (Some r)) \<Longrightarrow> r \<noteq> []"
  by (cases "i = j"; cases "get_raw_path sws m pm i j"; cases "the (get_raw_path sws m pm i j)")
    (auto simp: get_path_def Let_def split: if_splits option.splits)

lemma connected_walk:
  "r \<noteq> [] \<Longrightarrow> successively E (map fst r) \<Longrightarrow> fst (hd r) = fst (last r) \<or> (\<exists>w. walk E (fst (hd r)) w (fst (last r)))"
proof (cases r)
  case (Cons a r')
  assume path: "successively E (map fst r)"
  show ?thesis
  proof (cases "r' = []")
    case False
    have "map fst r = fst a # map fst (butlast r') @ [fst (last r')]"
      using Cons False by (metis append_butlast_last_id list.simps(8,9) map_append)
    with path Cons False have "walk E (fst a) (map fst (butlast r')) (fst (last r'))"
      by (simp add: walk_def)
    with Cons False show ?thesis by auto
  qed (simp add: Cons)
qed simp

lemma l2_wf_calc:
  assumes "l2_wf s"
  shows "l2_wf (s\<lparr>l2_path_map := calc_paths (dict_keys (l2_switches s)) (l2_adjacency s)\<rparr>)"
proof -
  have "paths_current (s\<lparr>l2_path_map := calc_paths (dict_keys (l2_switches s)) (l2_adjacency s)\<rparr>)"
    unfolding paths_current_def using assms
    by (intro disjI2 exI [of _ "dict_keys (l2_switches s)"]) (simp add: l2_wf_def)
  with assms show ?thesis by (simp add: l2_wf_def)
qed

text \<open>The path a request for one may be answered with: \<^verbatim>\<open>None\<close> exactly when no sequence of links
  connects the two switches; otherwise hops that pass the check, from the source entered through the
  first port to the destination left through the final port, and no sequence of links is shorter.\<close>

definition best_path :: "adjacency \<Rightarrow> dpid \<Rightarrow> dpid \<Rightarrow> int option \<Rightarrow> int option \<Rightarrow> hop list option \<Rightarrow> bool" where
  "best_path m i j p q r \<longleftrightarrow> (r = None \<longleftrightarrow> i \<noteq> j \<and> (\<nexists>w. walk (edge m) i w j)) \<and>
    (\<forall>hops. r = Some hops \<longrightarrow> check_path m hops \<and> successively (edge m) (map fst hops) \<and>
       fst (hd hops) = i \<and> fst (snd (hd hops)) = p \<and> fst (last hops) = j \<and> snd (snd (last hops)) = q \<and>
       (\<forall>w. walk (edge m) i w j \<longrightarrow> length hops \<le> length w + 2))"

text \<open>
  In every state that satisfies the forwarding invariant, \<^verbatim>\<open>_get_path\<close> between two known switches
  returns without an exception and keeps the invariant, even when switches joined after the path map
  was computed.
\<close>

lemma l2_get_path_spec:
  assumes "l2_wf s" and "has_key (l2_switches s) i" and "has_key (l2_switches s) j"
  shows "\<exists>s' r. l2_get_path s i j p q = (s', Inr r) \<and> l2_wf s' \<and>
    l2_switches s' = l2_switches s \<and> l2_adjacency s' = l2_adjacency s \<and> best_path (l2_adjacency s) i j p q r"
proof -
  let ?m = "l2_adjacency s" and ?sws = "dict_keys (l2_switches s)"
  have m: "adj_wf ?m" using assms(1) by (simp add: l2_wf_def)
  obtain S where S: "set S \<subseteq> set ?sws" "closed_on (set S) ?m"
      "ensure_paths ?sws ?m (l2_path_map s) = calc_paths S ?m"
    using ensure_paths_current [OF assms(1)] by blast
  have keep: "l2_wf (s\<lparr>l2_path_map := calc_paths S ?m\<rparr>)"
    using assms(1) S unfolding l2_wf_def paths_current_def by auto
  show ?thesis
  proof (cases "i \<in> set S \<and> j \<in> set S")
    case True
    have same: "get_path ?sws ?m (l2_path_map s) i j p q = get_path S ?m [] i j p q"
      by (simp add: get_path_def get_raw_path_def S(3)) (simp add: ensure_paths_def)
    have walks: "walk (edge ?m) i w j \<Longrightarrow> set w \<subseteq> set S" for w
      using closed_walk [OF S(2)] by blast
    let ?s' = "fst (l2_get_path s i j p q)"
    have s': "l2_wf ?s'" "l2_switches ?s' = l2_switches s" "l2_adjacency ?s' = l2_adjacency s"
      using keep assms(1) by (simp_all add: l2_get_path_def Let_def S(3))
    have answer: "l2_get_path s i j p q = (?s', Inr r)" if "get_path S ?m [] i j p q = Some (Inr r)" for r
      using that same by (simp add: l2_get_path_def Let_def)
    from True have "i \<in> set S" "j \<in> set S" by auto
    from get_path_correct [OF m this, of p q] show ?thesis
    proof (elim disjE)
      assume "\<exists>r. get_path S ?m [] i j p q = Some (Inr (Some r)) \<and> check_path ?m r \<and> fst (hd r) = i \<and>
        fst (snd (hd r)) = p \<and> fst (last r) = j \<and> snd (snd (last r)) = q \<and> successively (edge ?m) (map fst r) \<and>
        (\<forall>w. walk (edge ?m) i w j \<and> set w \<subseteq> set S \<longrightarrow> length r \<le> length w + 2)"
      then obtain r where r: "get_path S ?m [] i j p q = Some (Inr (Some r))" "check_path ?m r" "fst (hd r) = i"
        "fst (snd (hd r)) = p" "fst (last r) = j" "snd (snd (last r)) = q" "successively (edge ?m) (map fst r)"
        "\<forall>w. walk (edge ?m) i w j \<and> set w \<subseteq> set S \<longrightarrow> length r \<le> length w + 2" by blast
      have r_ne: "r \<noteq> []" using get_path_not_Nil [OF r(1)] .
      have "i = j \<or> (\<exists>w. walk (edge ?m) i w j)" using connected_walk [OF _ r(7)] r(3,5) r_ne by blast
      with r walks s' show ?thesis
        by (intro exI [of _ ?s'] exI [of _ "Some r"] conjI answer [OF r(1)]) (auto simp: best_path_def)
    next
      assume none: "i \<noteq> j \<and> get_path S ?m [] i j p q = Some (Inr None) \<and>
        (\<forall>w. walk (edge ?m) i w j \<longrightarrow> \<not> set w \<subseteq> set S)"
      with walks s' show ?thesis
        by (intro exI [of _ ?s'] exI [of _ None] conjI answer) (auto simp: best_path_def)
    qed
  next
    case False
    show ?thesis
    proof (cases "i = j")
      case True
      then show ?thesis using assms(1)
        by (auto simp: l2_get_path_def get_path_def Let_def check_path_def best_path_def)
    next
      case ne: False
      have none: "\<nexists>w. walk (edge ?m) i w j" using False closed_walk [OF S(2)] by blast
      have "raw_path (calc_paths S ?m) i j = Some (Inr None)"
        using calc_paths_outside [OF m S(2)] False ne unfolding outside_def by (intro raw_path_unknown) blast+
      then show ?thesis
        using ne none keep by (simp add: l2_get_path_def get_path_def get_raw_path_def S(3) Let_def best_path_def)
    qed
  qed
qed

section \<open>Waiting paths as a state machine\<close>

text \<open>
  The steps that concern waiting paths, with two histories: the barrier replies received so far
  and the barriers each waiting path was created with.
\<close>

type_synonym wp_config = "l2_state \<times> (dpid \<times> int) set \<times> (nat \<Rightarrow> (dpid \<times> int) set)"

inductive wp_step :: "wp_config \<Rightarrow> wp_config \<Rightarrow> bool" where
  wp_install:
    "l2_install_path now path match packet s = Inr (s', match') \<Longrightarrow>
     wp_step (s, R, A) (s', R, A(length (l2_wp_objects s) := set (wp_xids (l2_wp_objects s' ! length (l2_wp_objects s)))))"
| wp_barrier: "wp_step (s, R, A) (l2_handle_BarrierIn d x s, insert (d, x) R, A)"
| wp_expire: "wp_step (s, R, A) (expire_waiting_paths now s, R, A)"

text \<open>An entry of the table names a path that still waits for it; the barriers a path no longer
  waits for were received; a path is installed once, when it waits for nothing.\<close>

definition wp_table :: "l2_state \<Rightarrow> bool" where
  "wp_table s \<longleftrightarrow> (\<forall>e p. map_of (l2_waiting_paths s) e = Some p \<longrightarrow>
     p < length (l2_wp_objects s) \<and> e \<in> set (wp_xids (l2_wp_objects s ! p)))"

definition wp_inv :: "wp_config \<Rightarrow> bool" where
  "wp_inv c \<longleftrightarrow> (case c of (s, R, A) \<Rightarrow> wp_table s \<and>
     (\<forall>p < length (l2_wp_objects s). A p - set (wp_xids (l2_wp_objects s ! p)) \<subseteq> R) \<and>
     (\<forall>p \<in> set (l2_installed s). p < length (l2_wp_objects s) \<and> wp_xids (l2_wp_objects s ! p) = []) \<and>
     distinct (l2_installed s))"

text \<open>Expiry only drops entries.\<close>

lemma foldl_drops:
  assumes "\<And>w q. map_of (f w q) e = Some p \<Longrightarrow> map_of w e = Some p"
  shows "map_of (foldl f w qs) e = Some p \<Longrightarrow> map_of w e = Some p"
proof (induction qs arbitrary: w)
  case (Cons q qs)
  then have "map_of (foldl f (f w q) qs) e = Some p" by (simp only: foldl_Cons)
  then show ?case by (rule assms [OF Cons.IH])
qed (simp only: foldl_Nil)

lemma expire_entries:
  assumes "map_of (l2_waiting_paths (expire_waiting_paths now s)) e = Some p"
  shows "map_of (l2_waiting_paths s) e = Some p"
proof (rule foldl_drops)
  show "map_of (foldl (\<lambda>w p. if wp_expired now (l2_wp_objects s ! p)
      then foldl (\<lambda>w entry. AList.delete entry w) w (wp_xids (l2_wp_objects s ! p)) else w)
     (l2_waiting_paths s) (remdups (map snd (l2_waiting_paths s)))) e = Some p"
    using assms by (simp add: expire_waiting_paths_def Let_def)
qed (simp add: foldl_delete split: if_splits)

lemma expire_rest [simp]:
  "l2_wp_objects (expire_waiting_paths now s) = l2_wp_objects s"
  "l2_installed (expire_waiting_paths now s) = l2_installed s"
  "l2_sent (expire_waiting_paths now s) = l2_sent s"
  "l2_next_xid (expire_waiting_paths now s) = l2_next_xid s"
  "l2_switches (expire_waiting_paths now s) = l2_switches s"
  by (simp_all add: expire_waiting_paths_def Let_def)

lemma expire_table: "wp_table s \<Longrightarrow> wp_table (expire_waiting_paths now s)"
  unfolding wp_table_def expire_rest using expire_entries by blast

lemma send_to_rest [simp]:
  "l2_wp_objects (send_to sw msg s) = l2_wp_objects s" "l2_installed (send_to sw msg s) = l2_installed s"
  "l2_waiting_paths (send_to sw msg s) = l2_waiting_paths s" "l2_next_xid (send_to sw msg s) = l2_next_xid s"
  "l2_switches (send_to sw msg s) = l2_switches s" "l2_sent (send_to sw msg s) = l2_sent s @ [(sw, msg)]"
  by (simp_all add: send_to_def)

text \<open>While a path is being installed, only the new object and its entries change.\<close>

definition wp_installing :: "l2_state \<Rightarrow> l2_state \<times> ofp_match \<Rightarrow> bool" where
  "wp_installing s c \<longleftrightarrow> (case c of (s', m) \<Rightarrow> wp_table s' \<and> l2_installed s' = l2_installed s \<and>
     length (l2_wp_objects s') = Suc (length (l2_wp_objects s)) \<and>
     (\<forall>q < length (l2_wp_objects s). l2_wp_objects s' ! q = l2_wp_objects s ! q))"

lemma install_rule_rest:
  "install_rule sw p q m s = Inr (s', m') \<Longrightarrow> l2_wp_objects s' = l2_wp_objects s \<and> l2_installed s' = l2_installed s \<and>
     l2_waiting_paths s' = l2_waiting_paths s \<and> l2_next_xid s' = l2_next_xid s \<and> l2_switches s' = l2_switches s"
  by (auto simp: install_rule_def Let_def split: option.splits if_splits)

lemma add_xid_table:
  "wp_table s \<Longrightarrow> p < length (l2_wp_objects s) \<Longrightarrow> wp_table (add_xid p d x s)"
  by (auto simp: wp_table_def add_xid_def nth_list_update)

lemma wp_installing_step:
  assumes "wp_installing s (s1, m)" and "install_rule sw p q m s1 = Inr (s2, m')"
    and "s3 = add_xid (length (l2_wp_objects s)) sw x ((send_to sw msg s2)\<lparr>l2_next_xid := n\<rparr>)"
  shows "wp_installing s (s3, m'')"
proof -
  have "wp_table ((send_to sw msg s2)\<lparr>l2_next_xid := n\<rparr>)"
    using assms(1) install_rule_rest [OF assms(2)] by (auto simp: wp_installing_def wp_table_def)
  from add_xid_table [OF this, of "length (l2_wp_objects s)" sw x] show ?thesis
    using assms(1,3) install_rule_rest [OF assms(2)] by (auto simp: wp_installing_def add_xid_def nth_append)
qed

lemma install_path_installing:
  assumes "l2_install_path now path m packet s = Inr (s', m')" and "wp_table s"
  shows "wp_installing s (s', m')"
proof -
  obtain s1 where s1: "new_waiting_path now path packet s = Inr (s1, length (l2_wp_objects s))"
      and fold: "rfoldM (\<lambda>(s2, match) (sw, inport, outport).
        rbind (install_rule sw inport outport match s2) (\<lambda>(s', match').
        let xid = l2_next_xid s';
            s2 = (send_to sw (BarrierRequest xid) s')\<lparr>l2_next_xid := xid + 1\<rparr>
        in Inr (add_xid (length (l2_wp_objects s)) sw xid s2, match'))) (s1, m) path = Inr (s', m')"
    using assms(1) by (auto simp: l2_install_path_def rbind_eq_Inr new_waiting_path_def Let_def split: list.splits)
  have "wp_table (s\<lparr>l2_wp_objects := l2_wp_objects s @ [wp]\<rparr>)" for wp
    using assms(2) by (fastforce simp: wp_table_def nth_append)
  then have "wp_installing s (s1, m)"
    using s1 by (auto simp: new_waiting_path_def Let_def wp_installing_def expire_table nth_append split: list.splits)
  with fold show ?thesis
    by (rule rfoldM_invariant) (auto simp: rbind_eq_Inr Let_def intro: wp_installing_step)
qed

lemma wp_inv_install:
  assumes "wp_inv (s, R, A)" and "l2_install_path now path m packet s = Inr (s', m')"
  shows "wp_inv (s', R, A(length (l2_wp_objects s) := set (wp_xids (l2_wp_objects s' ! length (l2_wp_objects s)))))"
proof -
  have "wp_installing s (s', m')" using assms by (intro install_path_installing) (auto simp: wp_inv_def)
  with assms(1) show ?thesis by (auto simp: wp_inv_def wp_installing_def less_Suc_eq)
qed

lemma wp_inv_barrier:
  assumes "wp_inv (s, R, A)"
  shows "wp_inv (l2_handle_BarrierIn d x s, insert (d, x) R, A)"
proof (cases "map_of (l2_waiting_paths s) (d, x)")
  case None
  with assms show ?thesis by (auto simp: l2_handle_BarrierIn_def wp_inv_def)
next
  case (Some p)
  with assms have p: "p < length (l2_wp_objects s)" "(d, x) \<in> set (wp_xids (l2_wp_objects s ! p))"
    by (auto simp: wp_inv_def wp_table_def)
  with assms have fresh: "p \<notin> set (l2_installed s)" by (auto simp: wp_inv_def)
  let ?s = "l2_handle_BarrierIn d x s"
  let ?xids = "filter (\<lambda>e. e \<noteq> (d, x)) (wp_xids (l2_wp_objects s ! p))"
  have objs: "l2_wp_objects ?s = (l2_wp_objects s)[p := (l2_wp_objects s ! p)\<lparr>wp_xids := ?xids\<rparr>]"
    "l2_waiting_paths ?s = AList.delete (d, x) (l2_waiting_paths s)"
    "l2_installed ?s = (if ?xids = [] then l2_installed s @ [p] else l2_installed s)"
    using Some by (auto simp: l2_handle_BarrierIn_def wp_notify_def Let_def split: option.splits)
  have "wp_table ?s"
    using assms p unfolding wp_inv_def wp_table_def objs by (auto simp: nth_list_update split: if_splits)
  moreover have "A q - set (wp_xids (l2_wp_objects ?s ! q)) \<subseteq> insert (d, x) R" if "q < length (l2_wp_objects ?s)" for q
    using assms that p unfolding wp_inv_def objs by (auto simp: nth_list_update)
  moreover have "\<forall>q \<in> set (l2_installed ?s). q < length (l2_wp_objects ?s) \<and> wp_xids (l2_wp_objects ?s ! q) = []"
    using assms p fresh unfolding wp_inv_def objs by (auto simp: nth_list_update)
  moreover have "distinct (l2_installed ?s)" using assms fresh unfolding wp_inv_def objs by auto
  ultimately show ?thesis by (simp add: wp_inv_def)
qed

lemma wp_inv_step: "wp_step c c' \<Longrightarrow> wp_inv c \<Longrightarrow> wp_inv c'"
proof (induction rule: wp_step.induct)
  case wp_install
  then show ?case by (rule wp_inv_install [rotated])
next
  case wp_barrier
  then show ?case by (rule wp_inv_barrier)
next
  case wp_expire
  then show ?case by (auto simp: wp_inv_def expire_table)
qed

lemma wp_inv_reachable: "wp_step\<^sup>*\<^sup>* c c' \<Longrightarrow> wp_inv c \<Longrightarrow> wp_inv c'"
  by (induction rule: rtranclp_induct) (auto intro: wp_inv_step)


text \<open>Liveness: the path that was just installed waits for one barrier per hop, and answering
  them in any order completes it.\<close>

definition wp_ready :: "nat \<Rightarrow> l2_state \<Rightarrow> bool" where
  "wp_ready n s \<longleftrightarrow> n < length (l2_wp_objects s) \<and> distinct (wp_xids (l2_wp_objects s ! n)) \<and>
     (\<forall>e \<in> set (wp_xids (l2_wp_objects s ! n)). map_of (l2_waiting_paths s) e = Some n \<and> snd e < l2_next_xid s)"

lemma install_fold_ready:
  assumes "rfoldM (\<lambda>(s2, match) (sw, inport, outport).
        rbind (install_rule sw inport outport match s2) (\<lambda>(s', match').
        let xid = l2_next_xid s';
            s2 = (send_to sw (BarrierRequest xid) s')\<lparr>l2_next_xid := xid + 1\<rparr>
        in Inr (add_xid n sw xid s2, match'))) (s1, m) path = Inr (s', m')" and "wp_ready n s1"
  shows "wp_ready n s' \<and> l2_installed s' = l2_installed s1 \<and>
     map fst (wp_xids (l2_wp_objects s' ! n)) = map fst (wp_xids (l2_wp_objects s1 ! n)) @ map fst path \<and>
     wp_packet (l2_wp_objects s' ! n) = wp_packet (l2_wp_objects s1 ! n) \<and>
     wp_first_switch (l2_wp_objects s' ! n) = wp_first_switch (l2_wp_objects s1 ! n)"
  using assms
proof (induction path arbitrary: s1 m)
  case Nil
  then show ?case by simp
next
  case (Cons hop path)
  obtain sw p q where hop: "hop = (sw, p, q)" by (cases hop)
  from Cons.prems(1) obtain s2 m2 where rule: "install_rule sw p q m s1 = Inr (s2, m2)"
    by (auto simp: hop rbind_eq_Inr)
  let ?x = "l2_next_xid s2"
  let ?s3 = "add_xid n sw ?x ((send_to sw (BarrierRequest ?x) s2)\<lparr>l2_next_xid := ?x + 1\<rparr>)"
  note same = install_rule_rest [OF rule]
  have fresh: "(sw, ?x) \<notin> set (wp_xids (l2_wp_objects s1 ! n))"
    using Cons.prems(2) same by (auto simp: wp_ready_def)
  have "wp_ready n ?s3"
    using Cons.prems(2) fresh same by (auto simp: wp_ready_def add_xid_def intro: less_trans)
  from Cons.IH [OF _ this, of m2] Cons.prems(1) rule show ?case
    using Cons.prems(2) fresh same by (auto simp: hop Let_def add_xid_def wp_ready_def)
qed

lemma install_path_ready:
  assumes "l2_install_path now path m packet s = Inr (s', m')"
  shows "wp_ready (length (l2_wp_objects s)) s' \<and> l2_installed s' = l2_installed s \<and>
     map fst (wp_xids (l2_wp_objects s' ! length (l2_wp_objects s))) = map fst path \<and> path \<noteq> [] \<and>
     wp_packet (l2_wp_objects s' ! length (l2_wp_objects s)) = packet \<and>
     wp_first_switch (l2_wp_objects s' ! length (l2_wp_objects s)) = fst (hd path)"
proof -
  obtain s1 where s1: "new_waiting_path now path packet s = Inr (s1, length (l2_wp_objects s))"
      and fold: "rfoldM (\<lambda>(s2, match) (sw, inport, outport).
        rbind (install_rule sw inport outport match s2) (\<lambda>(s', match').
        let xid = l2_next_xid s';
            s2 = (send_to sw (BarrierRequest xid) s')\<lparr>l2_next_xid := xid + 1\<rparr>
        in Inr (add_xid (length (l2_wp_objects s)) sw xid s2, match'))) (s1, m) path = Inr (s', m')"
    using assms(1) by (auto simp: l2_install_path_def rbind_eq_Inr new_waiting_path_def Let_def split: list.splits)
  have obj: "l2_installed s1 = l2_installed s" "path \<noteq> []"
      "wp_xids (l2_wp_objects s1 ! length (l2_wp_objects s)) = []"
      "wp_packet (l2_wp_objects s1 ! length (l2_wp_objects s)) = packet"
      "wp_first_switch (l2_wp_objects s1 ! length (l2_wp_objects s)) = fst (hd path)"
      "length (l2_wp_objects s1) = Suc (length (l2_wp_objects s))"
    using s1 by (auto simp: new_waiting_path_def Let_def split: list.splits)
  then have "wp_ready (length (l2_wp_objects s)) s1" by (simp add: wp_ready_def)
  from install_fold_ready [OF fold this] obj show ?thesis by simp
qed

text \<open>The table entries of one path suffice for its completion.\<close>

lemma deliver_all:
  assumes "n < length (l2_wp_objects s)" and "mset ys = mset (wp_xids (l2_wp_objects s ! n))" and "distinct ys"
    and "\<forall>e \<in> set ys. map_of (l2_waiting_paths s) e = Some n" and "ys \<noteq> []"
  shows "l2_installed (foldl (\<lambda>s (d, x). l2_handle_BarrierIn d x s) s ys) = l2_installed s @ [n] \<and>
    l2_sent (foldl (\<lambda>s (d, x). l2_handle_BarrierIn d x s) s ys) = l2_sent s @
      (case wp_packet (l2_wp_objects s ! n) of None \<Rightarrow> []
       | Some data \<Rightarrow> [(wp_first_switch (l2_wp_objects s ! n), PacketOutTable data)])"
  using assms
proof (induction ys arbitrary: s)
  case Nil
  then show ?case by simp
next
  case (Cons y ys)
  obtain d x where y: "y = (d, x)" by (cases y)
  have entry: "map_of (l2_waiting_paths s) (d, x) = Some n" using Cons.prems(4) y by simp
  let ?xids = "filter (\<lambda>e. e \<noteq> (d, x)) (wp_xids (l2_wp_objects s ! n))"
  let ?s = "l2_handle_BarrierIn d x s"
  have "mset ?xids = mset (filter (\<lambda>e. e \<noteq> (d, x)) (y # ys))"
    using Cons.prems(2) by (metis mset_filter)
  also have "filter (\<lambda>e. e \<noteq> (d, x)) (y # ys) = ys"
    using Cons.prems(3) y by (auto intro: filter_True)
  finally have rest: "mset ?xids = mset ys" .
  show ?case
  proof (cases "ys = []")
    case True
    then have "?xids = []" using rest by (metis mset.simps(1) mset_zero_iff)
    with True entry Cons.prems(1) y show ?thesis
      by (auto simp: l2_handle_BarrierIn_def wp_notify_def Let_def split: option.splits)
  next
    case False
    then have "?xids \<noteq> []" using rest by (metis mset.simps(1) mset_zero_iff)
    then have s: "l2_wp_objects ?s = (l2_wp_objects s)[n := (l2_wp_objects s ! n)\<lparr>wp_xids := ?xids\<rparr>]"
        "l2_waiting_paths ?s = AList.delete (d, x) (l2_waiting_paths s)" "l2_installed ?s = l2_installed s"
        "l2_sent ?s = l2_sent s"
      using entry by (auto simp: l2_handle_BarrierIn_def wp_notify_def Let_def)
    have "\<forall>e \<in> set ys. map_of (l2_waiting_paths ?s) e = Some n"
      using Cons.prems(3,4) y by (auto simp: s(2))
    from Cons.IH [OF _ _ _ this False] rest Cons.prems(1,3) show ?thesis
      by (simp add: s y cong: option.case_cong)
  qed
qed

text \<open>
  C12. Liveness of delayed packets: when a path has been installed, it waits for one barrier for
  each of its hops, and once these replies have arrived, in whatever order, the path completes
  and its packet, if it has one, is sent out at its first switch, exactly once.
\<close>

theorem waiting_path_liveness:
  assumes "l2_install_path now path m packet s = Inr (s', m')"
    and "n = length (l2_wp_objects s)" and "mset ys = mset (wp_xids (l2_wp_objects s' ! n))"
  shows "map fst (wp_xids (l2_wp_objects s' ! n)) = map fst path \<and>
    l2_installed (foldl (\<lambda>s (d, x). l2_handle_BarrierIn d x s) s' ys) = l2_installed s @ [n] \<and>
    l2_sent (foldl (\<lambda>s (d, x). l2_handle_BarrierIn d x s) s' ys) = l2_sent s' @
      (case packet of None \<Rightarrow> [] | Some data \<Rightarrow> [(fst (hd path), PacketOutTable data)])"
proof -
  from install_path_ready [OF assms(1)] assms(2) have ready: "wp_ready n s'" "l2_installed s' = l2_installed s"
      "map fst (wp_xids (l2_wp_objects s' ! n)) = map fst path" "path \<noteq> []"
      "wp_packet (l2_wp_objects s' ! n) = packet" "wp_first_switch (l2_wp_objects s' ! n) = fst (hd path)" by auto
  have "wp_xids (l2_wp_objects s' ! n) \<noteq> []" using ready(3,4) by auto
  then have "ys \<noteq> []" using assms(3) by auto
  moreover have "distinct ys" using ready(1) assms(3) mset_eq_imp_distinct_iff unfolding wp_ready_def by blast
  moreover have "\<forall>e \<in> set ys. map_of (l2_waiting_paths s') e = Some n"
    using ready(1) mset_eq_setD [OF assms(3)] by (auto simp: wp_ready_def)
  ultimately show ?thesis
    using deliver_all [OF _ assms(3)] ready by (simp add: wp_ready_def cong: option.case_cong)
qed

text \<open>A path of one hop in the two-switch state.\<close>

definition pair_match :: ofp_match where
  "pair_match = \<lparr>in_port = FNone, dl_src = FNone, dl_dst = FNone, dl_vlan = FNone, dl_vlan_pcp = FNone, dl_type = FInt 2048,
     nw_src = FNone, nw_dst = FNone, nw_proto = FInt 6, tp_src = FNone, tp_dst = FInt 80, nw_tos = FNone\<rparr>"

lemma pair_install:
  "\<exists>s' m'. l2_install_path 0 [(1, Some 2, Some 1)] pair_match (Some ''data'') pair_state = Inr (s', m') \<and>
     wp_xids (l2_wp_objects s' ! 0) = [(1, 1)] \<and> length (l2_wp_objects pair_state) = 0"
  by (simp add: l2_install_path_def new_waiting_path_def install_rule_def pair_state_def l2_init_def add_xid_def
      send_to_def pair_match_def Let_def)

theorem waiting_path_liveness_witness:
  "\<exists>s' m'. l2_install_path 0 [(1, Some 2, Some 1)] pair_match (Some ''data'') pair_state = Inr (s', m') \<and>
     l2_installed (l2_handle_BarrierIn 1 1 s') = [0]"
proof -
  obtain s' m' where s': "l2_install_path 0 [(1, Some 2, Some 1)] pair_match (Some ''data'') pair_state = Inr (s', m')"
      "wp_xids (l2_wp_objects s' ! 0) = [(1, 1)]" "length (l2_wp_objects pair_state) = 0"
    using pair_install by blast
  have "l2_installed pair_state = []" by (simp add: pair_state_def l2_init_def)
  with waiting_path_liveness [OF s'(1), of 0 "[(1, 1)]"] s' show ?thesis by auto
qed


end
