(* ===== verification/Overlay_Network.thy ===== *)
theory Overlay_Network
  imports L2_State
begin

text \<open>
  The overlay between edge switches and the switches that host elements
  (\<^verbatim>\<open>overlay_network.py\<close>): hosts and their switches, the weighted overlay graph, the
  utilisation of physical links.  A directed \<^verbatim>\<open>networkx\<close> graph is the dictionary of its edges
  with their data.  The handlers read the forwarding state of \<^verbatim>\<open>l2_multi_slick\<close> and the
  location map of the controller, which they take as arguments.
\<close>

section \<open>State\<close>

record link_weight =
  hop_count :: "nat option"
  utilization :: "rat option"
  latency :: "rat option"

record vertex =
  vertex_id :: int
  v_elem_desc :: int
  v_element_name :: string

record overlay_net =
  overlay_graph_nx :: "(dpid \<times> dpid, link_weight) dict"
  overlay_graph_eds :: "vertex list"
  overlay_graph :: "(dpid, (dpid \<times> link_weight) list) dict"
  edge_switches :: "dpid list"
  element_switches :: "dpid list"
  ov_switches :: "(dpid, string) dict"
  element_machines :: "mac list"
  hosts :: "(string, dpid \<times> int) dict"
  vertex_descriptor :: int
  phy_link_utilizations :: "(link, rat) dict"
  max_phy_link_utilizations :: "(link, rat) dict"
  avg_link_utilizations :: "(link, rat list) dict"
  link_utilizations :: "(link, rat) dict"

definition overlay_init :: overlay_net where
  "overlay_init = \<lparr>overlay_graph_nx = [], overlay_graph_eds = [], overlay_graph = [], edge_switches = [],
     element_switches = [], ov_switches = [], element_machines = [], hosts = [], vertex_descriptor = 0,
     phy_link_utilizations = [], max_phy_link_utilizations = [], avg_link_utilizations = [], link_utilizations = []\<rparr>"

text \<open>\<^verbatim>\<open>Set.add\<close> and \<^verbatim>\<open>Set.remove\<close>, which raises when the member is missing.\<close>

definition set_add :: "'a \<Rightarrow> 'a list \<Rightarrow> 'a list" where
  "set_add x xs = (if x \<in> set xs then xs else xs @ [x])"

definition set_remove :: "'a \<Rightarrow> 'a list \<Rightarrow> 'a list res" where
  "set_remove x xs = (if x \<in> set xs then Inr (filter (\<lambda>y. y \<noteq> x) xs) else Inl KeyError)"

section \<open>Hosts and switches\<close>

text \<open>\<^verbatim>\<open>_handle_host_tracker_HostEvent\<close>: the controller's \<^verbatim>\<open>register_machine\<close> is called with the first
  address of the host, whether it joins or leaves.\<close>

definition handle_HostEvent ::
    "string \<Rightarrow> dpid \<Rightarrow> int \<Rightarrow> fval list \<Rightarrow> bool \<Rightarrow> overlay_net \<times> mac_to_ip \<times> elem_to_mac \<Rightarrow>
     overlay_net \<times> mac_to_ip \<times> elem_to_mac" where
  "handle_HostEvent host switch port ipAddrs leave c =
     (case c of (ov, m2i, e2m) \<Rightarrow>
      let (m2i', e2m') = (case ipAddrs of [] \<Rightarrow> (m2i, e2m)
                          | ip # _ \<Rightarrow> (mti_add m2i (MacStr host) ip, etm_add e2m (Some (MacStr host)) None));
          ov' = (if leave then
                   (if has_key (hosts ov) host then ov\<lparr>hosts := AList.delete host (hosts ov)\<rparr> else ov)
                 else
                   (if has_key (hosts ov) host then ov else ov\<lparr>hosts := AList.update host (switch, port) (hosts ov)\<rparr>))
      in (ov', m2i', e2m'))"

definition ov_handle_ConnectionUp :: "dpid \<Rightarrow> string \<Rightarrow> overlay_net \<Rightarrow> overlay_net" where
  "ov_handle_ConnectionUp dpid switch_name ov = ov\<lparr>ov_switches := AList.update dpid switch_name (ov_switches ov)\<rparr>"

definition ov_handle_ConnectionDown :: "dpid \<Rightarrow> overlay_net \<Rightarrow> overlay_net res" where
  "ov_handle_ConnectionDown dpid ov =
     rbind (dict_delitem (ov_switches ov) dpid) (\<lambda>sws. Inr (ov\<lparr>ov_switches := sws\<rparr>))"

definition handle_ElementMachineUp :: "mac \<Rightarrow> overlay_net \<Rightarrow> overlay_net" where
  "handle_ElementMachineUp mac ov = ov\<lparr>element_machines := set_add mac (element_machines ov)\<rparr>"

definition handle_ElementMachineDown :: "mac \<Rightarrow> overlay_net \<Rightarrow> overlay_net res" where
  "handle_ElementMachineDown mac ov =
     rbind (set_remove mac (element_machines ov)) (\<lambda>ms. Inr (ov\<lparr>element_machines := ms\<rparr>))"

definition get_gateway_dpids :: "dpid list" where
  "get_gateway_dpids = [1]"

text \<open>POX's discovery component: a port on no discovered link is an edge port.\<close>

definition is_edge_port :: "link list \<Rightarrow> dpid \<Rightarrow> int \<Rightarrow> bool" where
  "is_edge_port links dpid port =
     list_all (\<lambda>(dpid1, port1, dpid2, port2). \<not> (dpid1 = dpid \<and> port1 = port) \<and> \<not> (dpid2 = dpid \<and> port2 = port)) links"

text \<open>\<^verbatim>\<open>_edge_switch\<close>; \<^verbatim>\<open>None\<close> for an unknown switch is false where it is used.\<close>

definition edge_switch :: "link list \<Rightarrow> l2_state \<Rightarrow> overlay_net \<Rightarrow> dpid \<Rightarrow> bool res" where
  "edge_switch links l2 ov mac_addr =
     (if length (l2_switches l2) \<noteq> length (ov_switches ov) then Inl AssertionError
      else (case map_of (l2_switches l2) mac_addr of
              None \<Rightarrow> Inr False
            | Some switch_obj \<Rightarrow>
                if mac_addr \<in> set get_gateway_dpids then Inr True
                else (case sw_ports switch_obj of
                        None \<Rightarrow> Inl TypeError
                      | Some ports \<Rightarrow>
                          Inr (list_ex (is_edge_port links mac_addr) (filter (\<lambda>p. p < 65000) ports)))))"

definition update_edge_switches :: "link list \<Rightarrow> l2_state \<Rightarrow> overlay_net \<Rightarrow> overlay_net res" where
  "update_edge_switches links l2 ov =
     rfoldM (\<lambda>ov dpid.
        rbind (edge_switch links l2 ov dpid) (\<lambda>b.
        if b then Inr (ov\<lparr>edge_switches := set_add dpid (edge_switches ov)\<rparr>)
        else Inr (ov\<lparr>edge_switches := filter (\<lambda>d. d \<noteq> dpid) (edge_switches ov)\<rparr>)))
       ov (dict_keys (ov_switches ov))"

text \<open>The name under which a host is known: a string as it is, a number in colon form.\<close>

definition host_name :: "mac option \<Rightarrow> string res" where
  "host_name mac =
     (case mac of None \<Rightarrow> Inl TypeError | Some (MacStr s) \<Rightarrow> Inr s | Some (MacInt n) \<Rightarrow> dpid_to_str n '':'' False)"

definition get_connected_switch :: "overlay_net \<Rightarrow> mac option \<Rightarrow> dpid res" where
  "get_connected_switch ov mac =
     rbind (host_name mac) (\<lambda>mac_addr. rbind (dict_getitem (hosts ov) mac_addr) (\<lambda>(dpid, port). Inr dpid))"

definition get_all_machines :: "overlay_net \<Rightarrow> string list" where
  "get_all_machines ov = dict_keys (hosts ov)"

definition get_all_forwarding_devices :: "overlay_net \<Rightarrow> dpid list" where
  "get_all_forwarding_devices ov = dict_keys (ov_switches ov)"

section \<open>The overlay graph\<close>

text \<open>\<^verbatim>\<open>_get_hop_count\<close> reads the path map as it stands.\<close>

definition get_hop_count :: "l2_state \<Rightarrow> dpid \<Rightarrow> dpid \<Rightarrow> nat option" where
  "get_hop_count l2 dpid1 dpid2 =
     (if has_key (l2_switches l2) dpid1 \<and> has_key (l2_switches l2) dpid2
      then fst (pm_get (l2_path_map l2) dpid1 dpid2) else None)"

definition overlay_pair :: "overlay_net \<Rightarrow> dpid \<Rightarrow> dpid \<Rightarrow> bool" where
  "overlay_pair ov a b \<longleftrightarrow> (a \<in> set (edge_switches ov) \<and> b \<in> set (edge_switches ov)) \<or>
     (a \<in> set (element_switches ov) \<and> b \<in> set (element_switches ov))"

definition update_overlay_graph :: "l2_state \<Rightarrow> overlay_net \<Rightarrow> overlay_net" where
  "update_overlay_graph l2 ov =
     foldl (\<lambda>ov row.
       foldl (\<lambda>ov col.
          if overlay_pair ov row col then
            (let w = \<lparr>hop_count = get_hop_count l2 row col, utilization = None, latency = None\<rparr>;
                 g = ddict_touch [] row (overlay_graph ov)
             in ov\<lparr>overlay_graph := AList.update row (the (map_of g row) @ [(col, w)]) g,
                   overlay_graph_nx := AList.update (row, col) w (overlay_graph_nx ov)\<rparr>)
          else ov) ov (dict_keys (l2_switches l2))) ov (dict_keys (l2_switches l2))"

definition add_element_machine :: "link list \<Rightarrow> l2_state \<Rightarrow> mac \<Rightarrow> overlay_net \<Rightarrow> overlay_net res" where
  "add_element_machine links l2 node_mac ov =
     rbind (update_edge_switches links l2 ov) (\<lambda>ov1.
     if node_mac \<in> set (element_machines ov1)
     then rbind (get_connected_switch ov1 (Some node_mac)) (\<lambda>sw.
          Inr (update_overlay_graph l2 (ov1\<lparr>element_switches := set_add sw (element_switches ov1)\<rparr>)))
     else Inr ov1)"

text \<open>\<^verbatim>\<open>_remove_element_machine\<close> calls the missing method \<^verbatim>\<open>overlay_graph_update\<close>.\<close>

definition remove_element_machine :: "elem_to_mac \<Rightarrow> mac \<Rightarrow> overlay_net \<Rightarrow> overlay_net res" where
  "remove_element_machine e2m node_mac ov =
     (if node_mac \<in> set (element_machines ov)
      then rbind (etm_get_elem_descs e2m node_mac) (\<lambda>eds.
           if eds \<noteq> [] then Inr ov
           else rbind (get_connected_switch ov (Some node_mac)) (\<lambda>sw.
                rbind (set_remove sw (element_switches ov)) (\<lambda>_. Inl AttributeError)))
      else Inr ov)"

text \<open>The graph of element instances.  \<^verbatim>\<open>_add_vertex\<close> only ever adds edges to nodes already there,
  and tests them with an unqualified name.\<close>

definition add_vertex :: "vertex \<Rightarrow> overlay_net \<Rightarrow> overlay_net res" where
  "add_vertex v ov = (case overlay_graph_eds ov of [] \<Rightarrow> Inr ov | _ # _ \<Rightarrow> Inl NameError)"

definition remove_vertex :: "vertex \<Rightarrow> overlay_net \<Rightarrow> overlay_net res" where
  "remove_vertex v ov =
     (if vertex_id v \<in> set (map vertex_id (overlay_graph_eds ov))
      then Inr (ov\<lparr>overlay_graph_eds := filter (\<lambda>u. vertex_id u \<noteq> vertex_id v) (overlay_graph_eds ov)\<rparr>)
      else Inl GenericException)"

definition update_overlay_graph_eds :: "int \<Rightarrow> string \<Rightarrow> bool \<Rightarrow> bool \<Rightarrow> overlay_net \<Rightarrow> overlay_net res" where
  "update_overlay_graph_eds ed element_name join leave ov =
     (let ov1 = ov\<lparr>vertex_descriptor := vertex_descriptor ov + 1\<rparr>;
          v = \<lparr>vertex_id = vertex_descriptor ov1, v_elem_desc = ed, v_element_name = element_name\<rparr>
      in if join = leave then Inl GenericException
         else rbind (if join then add_vertex v ov1 else Inr ov1) (\<lambda>ov2.
              if leave then remove_vertex v ov2 else Inr ov2))"

text \<open>\<^verbatim>\<open>_handle_ElementInstanceEvent\<close>: the event has no attribute \<^verbatim>\<open>destroyed\<close>.\<close>

definition handle_ElementInstanceEvent ::
    "link list \<Rightarrow> l2_state \<Rightarrow> mac \<Rightarrow> int \<Rightarrow> string \<Rightarrow> bool \<Rightarrow> overlay_net \<Rightarrow> overlay_net res" where
  "handle_ElementInstanceEvent links l2 mac ed element_name created ov =
     (if created
      then rbind (add_element_machine links l2 mac ov) (\<lambda>ov1. update_overlay_graph_eds ed element_name True False ov1)
      else Inl AttributeError)"

section \<open>Link utilisation\<close>

text \<open>The links along a path, and the largest utilisation among those that are known.\<close>

fun path_links :: "hop list \<Rightarrow> (dpid \<times> int option \<times> dpid \<times> int option) list" where
  "path_links ((sw1, in1, out1) # (sw2, in2, out2) # path) =
     (sw1, out1, sw2, in2) # path_links ((sw2, in2, out2) # path)"
| "path_links path = []"

definition link_value :: "(link, rat) dict \<Rightarrow> dpid \<times> int option \<times> dpid \<times> int option \<Rightarrow> rat option" where
  "link_value utils l =
     (case l of (a, Some p, b, Some q) \<Rightarrow> map_of utils (a, p, b, q) | _ \<Rightarrow> None)"

definition max_util :: "(link, rat) dict \<Rightarrow> (dpid \<times> int option \<times> dpid \<times> int option) list \<Rightarrow> rat" where
  "max_util utils ls =
     foldl (\<lambda>m l. case link_value utils l of None \<Rightarrow> m | Some u \<Rightarrow> if u > m then u else m) 0 ls"

definition get_link_utilization :: "l2_state \<Rightarrow> overlay_net \<Rightarrow> dpid \<Rightarrow> dpid \<Rightarrow> l2_state \<times> rat res" where
  "get_link_utilization l2 ov dpid1 dpid2 =
     (if has_key (l2_switches l2) dpid1 \<and> has_key (l2_switches l2) dpid2
      then (case l2_get_path l2 dpid1 dpid2 (adj (l2_adjacency l2) dpid1 dpid2) (adj (l2_adjacency l2) dpid2 dpid1) of
              (l2', Inl e) \<Rightarrow> (l2', Inl e)
            | (l2', Inr None) \<Rightarrow> (l2', Inl TypeError)
            | (l2', Inr (Some path)) \<Rightarrow> (l2', Inr (max_util (phy_link_utilizations ov) (path_links path))))
      else (l2, Inl NameError))"

definition update_overlay_graph_link_weights :: "l2_state \<times> overlay_net \<Rightarrow> (l2_state \<times> overlay_net) res" where
  "update_overlay_graph_link_weights c =
     rfoldM (\<lambda>(l2, ov) ((v1, v2), data).
        case get_link_utilization l2 ov v1 v2 of
          (l2', Inl e) \<Rightarrow> Inl e
        | (l2', Inr u) \<Rightarrow>
            rbind (dict_getitem (overlay_graph_nx ov) (v1, v2)) (\<lambda>w.
            Inr (l2', ov\<lparr>overlay_graph_nx := AList.update (v1, v2) (w\<lparr>utilization := Some u\<rparr>) (overlay_graph_nx ov)\<rparr>)))
       c (overlay_graph_nx (snd c))"

definition avg :: "rat list \<Rightarrow> rat" where
  "avg lst = sum_list lst / of_nat (length lst)"

text \<open>The maximum and the running window of the samples of each link.\<close>

definition record_max :: "(link, rat) dict \<Rightarrow> link \<times> rat \<Rightarrow> (link, rat) dict" where
  "record_max m lu =
     (case lu of (link, u) \<Rightarrow>
        (case map_of m link of None \<Rightarrow> AList.update link u m | Some old \<Rightarrow> if u > old then AList.update link u m else m))"

definition record_window :: "overlay_net \<Rightarrow> link \<times> rat \<Rightarrow> overlay_net" where
  "record_window ov lu =
     (case lu of (link, u) \<Rightarrow>
        if \<not> has_key (max_phy_link_utilizations ov) link
        then ov\<lparr>avg_link_utilizations := AList.update link [u] (avg_link_utilizations ov)\<rparr>
        else (let m = ddict_touch [] link (avg_link_utilizations ov); w = the (map_of m link)
              in if length w \<le> 20
                 then ov\<lparr>avg_link_utilizations := AList.update link (w @ [u]) m\<rparr>
                 else ov\<lparr>avg_link_utilizations := AList.update link (tl w @ [u]) m,
                         link_utilizations := AList.update link (avg (tl w @ [u])) (link_utilizations ov)\<rparr>))"

definition update_physical_network_utilization :: "(link, rat) dict \<Rightarrow> overlay_net \<Rightarrow> overlay_net" where
  "update_physical_network_utilization utils ov =
     (let ov1 = ov\<lparr>phy_link_utilizations := utils\<rparr>;
          ov2 = ov1\<lparr>max_phy_link_utilizations := foldl record_max (max_phy_link_utilizations ov1) utils\<rparr>
      in foldl record_window ov2 utils)"

section \<open>Subgraphs for steering\<close>

definition subgraph_nodes :: "elem_to_mac \<Rightarrow> overlay_net \<Rightarrow> dpid \<Rightarrow> dpid \<Rightarrow> int list list \<Rightarrow> dpid list res" where
  "subgraph_nodes e2m ov src_switch_mac dst_switch_mac elem_descs =
     rfoldM (\<lambda>switch_macs ed.
        rbind (get_connected_switch ov (etm_get e2m ed)) (\<lambda>sw. Inr (set_add sw switch_macs)))
       [src_switch_mac, dst_switch_mac] (concat elem_descs)"

definition get_subgraph ::
    "elem_to_mac \<Rightarrow> overlay_net \<Rightarrow> dpid \<Rightarrow> dpid \<Rightarrow> int list list \<Rightarrow> ((dpid \<times> dpid, link_weight) dict) res" where
  "get_subgraph e2m ov src_switch_mac dst_switch_mac elem_descs =
     rbind (subgraph_nodes e2m ov src_switch_mac dst_switch_mac elem_descs) (\<lambda>switch_macs.
     Inr (filter (\<lambda>((a, b), w). a \<in> set switch_macs \<and> b \<in> set switch_macs) (overlay_graph_nx ov)))"

section \<open>What the overlay graph holds\<close>

definition overlay_step :: "l2_state \<Rightarrow> dpid \<Rightarrow> overlay_net \<Rightarrow> dpid \<Rightarrow> overlay_net" where
  "overlay_step l2 row ov col =
     (if overlay_pair ov row col then
        (let w = \<lparr>hop_count = get_hop_count l2 row col, utilization = None, latency = None\<rparr>;
             g = ddict_touch [] row (overlay_graph ov)
         in ov\<lparr>overlay_graph := AList.update row (the (map_of g row) @ [(col, w)]) g,
               overlay_graph_nx := AList.update (row, col) w (overlay_graph_nx ov)\<rparr>)
      else ov)"

lemma update_overlay_graph_steps:
  "update_overlay_graph l2 ov =
     foldl (\<lambda>ov row. foldl (overlay_step l2 row) ov (dict_keys (l2_switches l2))) ov (dict_keys (l2_switches l2))"
  by (simp add: update_overlay_graph_def overlay_step_def [abs_def])

lemma overlay_step_pair [simp]: "overlay_pair (overlay_step l2 row ov col) = overlay_pair ov"
  by (auto simp: overlay_step_def overlay_pair_def Let_def fun_eq_iff)

lemma overlay_step_edges:
  "map_of (overlay_graph_nx (overlay_step l2 row ov col)) e =
     (if e = (row, col) \<and> overlay_pair ov row col
      then Some \<lparr>hop_count = get_hop_count l2 row col, utilization = None, latency = None\<rparr>
      else map_of (overlay_graph_nx ov) e)"
  by (auto simp: overlay_step_def Let_def)

lemma overlay_row:
  "overlay_pair (foldl (overlay_step l2 row) ov cols) = overlay_pair ov"
  "map_of (overlay_graph_nx (foldl (overlay_step l2 row) ov cols)) (a, b) =
     (if a = row \<and> b \<in> set cols \<and> overlay_pair ov a b
      then Some \<lparr>hop_count = get_hop_count l2 a b, utilization = None, latency = None\<rparr>
      else map_of (overlay_graph_nx ov) (a, b))"
  by (induction cols arbitrary: ov) (auto simp: overlay_step_edges)

lemma overlay_rows:
  "map_of (overlay_graph_nx (foldl (\<lambda>ov row. foldl (overlay_step l2 row) ov cols) ov rows)) (a, b) =
     (if a \<in> set rows \<and> b \<in> set cols \<and> overlay_pair ov a b
      then Some \<lparr>hop_count = get_hop_count l2 a b, utilization = None, latency = None\<rparr>
      else map_of (overlay_graph_nx ov) (a, b))"
  by (induction rows arbitrary: ov) (auto simp: overlay_row)

text \<open>
  C28. The overlay graph: after an update computed while the path map is current, every pair of
  known switches that are both edge switches or both host elements has an overlay link whose
  weight is the length of a shortest path between them (none when they are not connected); every
  other pair keeps what it had.
\<close>

theorem overlay_graph_shortest:
  assumes "l2_wf l2" and "l2_path_map l2 = calc_paths (dict_keys (l2_switches l2)) (l2_adjacency l2)"
  shows "map_of (overlay_graph_nx (update_overlay_graph l2 ov)) (a, b) =
    (if has_key (l2_switches l2) a \<and> has_key (l2_switches l2) b \<and> overlay_pair ov a b
     then Some \<lparr>hop_count =
            (if a = b then Some 0
             else if \<exists>p. walk (edge (l2_adjacency l2)) a p b
             then Some (LEAST n. \<exists>p. walk (edge (l2_adjacency l2)) a p b \<and> n = Suc (length p))
             else None), utilization = None, latency = None\<rparr>
     else map_of (overlay_graph_nx ov) (a, b))"
proof -
  let ?sws = "dict_keys (l2_switches l2)" and ?m = "l2_adjacency l2"
  have m: "adj_wf ?m" and closed: "closed_on (set ?sws) ?m" using assms(1) by (auto simp: l2_wf_def)
  have known: "x \<in> set ?sws \<longleftrightarrow> has_key (l2_switches l2) x" for x
    unfolding set_dict_keys by auto
  have inside: "walk (edge ?m) a p b \<and> set p \<subseteq> set ?sws \<longleftrightarrow> walk (edge ?m) a p b" for p
    using closed_walk [OF closed] by blast
  have inside': "walk (edge ?m) a p b \<and> set p \<subseteq> set ?sws \<and> n = Suc (length p) \<longleftrightarrow> walk (edge ?m) a p b \<and> n = Suc (length p)" for p n
    using closed_walk [OF closed] by blast
  show ?thesis
  proof (cases "a \<in> set ?sws \<and> b \<in> set ?sws")
    case True
    then have "get_hop_count l2 a b = (if a = b then Some 0
             else if \<exists>p. walk (edge ?m) a p b
             then Some (LEAST n. \<exists>p. walk (edge ?m) a p b \<and> n = Suc (length p))
             else None)"
      using calc_paths_shortest_distance [OF m, of a ?sws b] known
      unfolding get_hop_count_def assms(2) inside inside' by simp
    with True known show ?thesis
      unfolding update_overlay_graph_steps overlay_rows by simp
  next
    case False
    with known show ?thesis unfolding update_overlay_graph_steps overlay_rows by auto
  qed
qed

definition pair_overlay :: overlay_net where
  "pair_overlay = overlay_init\<lparr>edge_switches := [1, 2]\<rparr>"

theorem overlay_graph_shortest_witness:
  "map_of (overlay_graph_nx (update_overlay_graph
     (pair_state\<lparr>l2_path_map := calc_paths (dict_keys (l2_switches pair_state)) (l2_adjacency pair_state)\<rparr>) pair_overlay)) (1, 1) =
     Some \<lparr>hop_count = Some 0, utilization = None, latency = None\<rparr>"
proof -
  let ?s = "pair_state\<lparr>l2_path_map := calc_paths (dict_keys (l2_switches pair_state)) (l2_adjacency pair_state)\<rparr>"
  have wf: "l2_wf ?s"
    by (rule l2_wf_calc [OF pair_state_wf])
  have "overlay_pair pair_overlay 1 1" by (simp add: overlay_pair_def pair_overlay_def)
  then show ?thesis
    using overlay_graph_shortest [OF wf, of pair_overlay 1 1] pair_state_facts(1) by simp
qed

section \<open>Utilisation figures\<close>

lemma max_util_from:
  "foldl (\<lambda>m l. case link_value utils l of None \<Rightarrow> m | Some u \<Rightarrow> if u > m then u else m) m ls =
     Max (insert m {u. \<exists>l \<in> set ls. link_value utils l = Some u})"
proof (induction ls arbitrary: m)
  case Nil
  then show ?case by simp
next
  case (Cons l ls)
  have fin: "finite {u. \<exists>l \<in> set ls. link_value utils l = Some u}"
    by (rule finite_subset [of _ "(\<lambda>l. the (link_value utils l)) ` set ls"]) force+
  show ?case
  proof (cases "link_value utils l")
    case None
    then have "{u. \<exists>l' \<in> set (l # ls). link_value utils l' = Some u} = {u. \<exists>l \<in> set ls. link_value utils l = Some u}"
      by auto
    with None Cons.IH [of m] show ?thesis by simp
  next
    case (Some u)
    then have split: "{u. \<exists>l' \<in> set (l # ls). link_value utils l' = Some u} =
        insert u {u. \<exists>l \<in> set ls. link_value utils l = Some u}" by auto
    show ?thesis
      unfolding split using Some Cons.IH [of "if u > m then u else m"] fin
      by (cases "{u. \<exists>l \<in> set ls. link_value utils l = Some u} = {}") (auto simp: max_def)
  qed
qed

text \<open>The running window never grows beyond 21 samples.\<close>

definition windows_bounded :: "overlay_net \<Rightarrow> bool" where
  "windows_bounded ov \<longleftrightarrow> (\<forall>w \<in> ran (map_of (avg_link_utilizations ov)). length w \<le> 21)"

lemma ran_updD: "w \<in> ran (m(k \<mapsto> v)) \<Longrightarrow> w = v \<or> w \<in> ran m"
  by (auto simp: ran_def split: if_splits)

lemma record_window_bounded:
  assumes "windows_bounded ov"
  shows "windows_bounded (record_window ov lu)"
proof -
  obtain l u where lu: "lu = (l, u)" by (cases lu)
  let ?m = "map_of (ddict_touch [] l (avg_link_utilizations ov))"
  have old: "\<forall>w \<in> ran ?m. length w \<le> 21"
    using assms by (auto simp: windows_bounded_def map_of_ddict_touch dest!: ran_updD)
  have "?m l \<noteq> None" by (simp add: map_of_ddict_touch)
  then have "the (?m l) \<in> ran ?m" by (metis option.collapse ranI)
  then have "length (the (?m l)) \<le> 21" using old by blast
  then show ?thesis
    using assms old unfolding windows_bounded_def record_window_def lu
    by (auto simp: Let_def dest!: ran_updD)
qed

lemma record_max_upper:
  "map_of (foldl record_max m lus) l = Some v \<Longrightarrow>
     (\<forall>old. map_of m l = Some old \<longrightarrow> old \<le> v) \<and> (\<forall>u. (l, u) \<in> set lus \<longrightarrow> u \<le> v)"
proof (induction lus arbitrary: m)
  case Nil
  then show ?case by simp
next
  case (Cons lu lus)
  obtain k u where lu: "lu = (k, u)" by (cases lu)
  have IH: "(\<forall>old. map_of (record_max m lu) l = Some old \<longrightarrow> old \<le> v) \<and> (\<forall>u. (l, u) \<in> set lus \<longrightarrow> u \<le> v)"
    using Cons.IH [of "record_max m lu"] Cons.prems by simp
  have step: "\<exists>new. map_of (record_max m lu) l = Some new \<and> old \<le> new" if "map_of m l = Some old \<or> (l = k \<and> old = u)" for old
    using that by (auto simp: record_max_def lu split: option.splits)
  show ?case
    using IH step by (fastforce simp: lu)
qed

lemma windows_bounded_other:
  "windows_bounded (ov\<lparr>phy_link_utilizations := u, max_phy_link_utilizations := v\<rparr>) = windows_bounded ov"
  by (simp add: windows_bounded_def)

text \<open>
  Utilisation: the utilisation of an overlay link is the largest utilisation of the known
  physical links on its path (zero when none is known); each refresh keeps the windows of samples
  bounded and the recorded maximum of a link above every sample and every earlier maximum.
\<close>

lemma utilization_figures:
  assumes "windows_bounded ov"
  shows "max_util utils ls = Max (insert 0 {u. \<exists>l \<in> set ls. link_value utils l = Some u}) \<and>
    windows_bounded (update_physical_network_utilization utils ov) \<and>
    (\<forall>l v. map_of (max_phy_link_utilizations (update_physical_network_utilization utils ov)) l = Some v \<longrightarrow>
       (\<forall>old. map_of (max_phy_link_utilizations ov) l = Some old \<longrightarrow> old \<le> v) \<and> (\<forall>u. (l, u) \<in> set utils \<longrightarrow> u \<le> v))"
proof -
  have keep: "max_phy_link_utilizations (foldl record_window ov' lus) = max_phy_link_utilizations ov'" for ov' lus
    by (induction lus arbitrary: ov') (auto simp: record_window_def Let_def split: prod.splits)
  have "windows_bounded (foldl record_window ov' utils)" if "windows_bounded ov'" for ov'
    using that by (rule foldl_invariant) (rule record_window_bounded)
  then have "windows_bounded (update_physical_network_utilization utils ov)"
    using assms unfolding update_physical_network_utilization_def Let_def
    by (metis (no_types) windows_bounded_other)
  then show ?thesis
    using record_max_upper unfolding max_util_def max_util_from
    by (simp add: update_physical_network_utilization_def Let_def keep)
qed

lemma utilization_figures_example:
  "max_util [((1, 1, 2, 1), 40), ((2, 2, 3, 1), 70)] [(1, Some 1, 2, Some 1), (2, Some 2, 3, Some 1)] = 70"
  using utilization_figures [of overlay_init "[((1, 1, 2, 1), 40), ((2, 2, 3, 1), 70)]"
      "[(1, Some 1, 2, Some 1), (2, Some 2, 3, Some 1)]"]
  by (simp add: windows_bounded_def overlay_init_def link_value_def max_util_def)

end
