(* ===== verification/Physical_Network.thy ===== *)
theory Physical_Network
  imports Path_Map
begin

text \<open>
  The physical topology and its partitions (\<^verbatim>\<open>physical_network.py\<close>).  An undirected
  \<^verbatim>\<open>networkx\<close> graph is the list of its nodes and the list of its edges, in the order of their
  insertion; the partitioner \<^verbatim>\<open>metis.part_graph\<close> is an argument of the definition that calls it.
\<close>

record nx_graph =
  nx_nodes :: "dpid list"
  nx_edges :: "(dpid \<times> dpid) list"

definition nx_empty :: nx_graph where
  "nx_empty = \<lparr>nx_nodes = [], nx_edges = []\<rparr>"

text \<open>\<^verbatim>\<open>Graph.add_edge\<close> adds the missing end points and the edge.\<close>

definition nx_add_edge :: "dpid \<Rightarrow> dpid \<Rightarrow> nx_graph \<Rightarrow> nx_graph" where
  "nx_add_edge u v g =
     g\<lparr>nx_nodes := foldl (\<lambda>ns n. if n \<in> set ns then ns else ns @ [n]) (nx_nodes g) [u, v],
       nx_edges := (if (u, v) \<in> set (nx_edges g) \<or> (v, u) \<in> set (nx_edges g) then nx_edges g
                    else nx_edges g @ [(u, v)])\<rparr>"

definition nx_has_edge :: "nx_graph \<Rightarrow> dpid \<Rightarrow> dpid \<Rightarrow> bool" where
  "nx_has_edge g u v \<longleftrightarrow> (u, v) \<in> set (nx_edges g) \<or> (v, u) \<in> set (nx_edges g)"

text \<open>\<^verbatim>\<open>NetworkType\<close>: the flags the administrator sets.\<close>

record network_type =
  nt_TREE :: bool
  nt_FATTREE :: bool
  nt_JELLYFISH :: bool
  nt_WAN :: bool
  nt_enterprise :: bool
  nt_GT :: bool
  nt_UNI1 :: bool

definition network_type_init :: network_type where
  "network_type_init =
     \<lparr>nt_TREE = True, nt_FATTREE = False, nt_JELLYFISH = False, nt_WAN = False, nt_enterprise = False,
      nt_GT = False, nt_UNI1 = False\<rparr>"

text \<open>The partitioned copy carries a part number for some of its nodes.\<close>

record physical_net =
  topo_graph :: nx_graph
  partitioned_graph :: "(nx_graph \<times> (dpid, int) dict) option"
  nt :: network_type

definition physical_net_init :: physical_net where
  "physical_net_init = \<lparr>topo_graph = nx_empty, partitioned_graph = None, nt = network_type_init\<rparr>"

definition update_topo_graph :: "dpid list \<Rightarrow> adjacency \<Rightarrow> physical_net \<Rightarrow> physical_net" where
  "update_topo_graph sws adjacency pn =
     foldl (\<lambda>pn i.
       foldl (\<lambda>pn j.
          if i \<noteq> j then
            (case adj adjacency i j of
               None \<Rightarrow> pn
             | Some _ \<Rightarrow> pn\<lparr>topo_graph := nx_add_edge i j (topo_graph pn)\<rparr>)
          else pn) pn sws) pn sws"

definition get_num_partitions :: "physical_net \<Rightarrow> nat res" where
  "get_num_partitions pn = (if nt_TREE (nt pn) then Inr 1 else Inl GenericException)"

text \<open>The loop over the partitions \<^verbatim>\<open>metis\<close> answers: the \<open>i\<close>-th node gets the \<open>i\<close>-th part, its colour
  being looked up in a list of four.\<close>

fun assign_parts :: "dpid list \<Rightarrow> (int \<Rightarrow> int) \<Rightarrow> nat \<Rightarrow> int list \<Rightarrow> (dpid, int) dict \<Rightarrow> (dpid, int) dict res" where
  "assign_parts node_ids f i [] parts = Inr parts"
| "assign_parts node_ids f i (p # ps) parts =
     rbind (list_getitem node_ids i) (\<lambda>node_id.
     if - 4 \<le> f p \<and> f p < 4 then assign_parts node_ids f (Suc i) ps (AList.update node_id (f p) parts)
     else Inl IndexError)"

definition create_partitions :: "(nx_graph \<Rightarrow> nat \<Rightarrow> int list) \<Rightarrow> physical_net \<Rightarrow> physical_net res" where
  "create_partitions part_graph pn =
     (let g = topo_graph pn in
      rbind (get_num_partitions pn) (\<lambda>num_partitions.
      rbind (if num_partitions > 1 then assign_parts (nx_nodes g) (\<lambda>p. p) 0 (part_graph g num_partitions) []
             else assign_parts (nx_nodes g) (\<lambda>p. 0) 0 (part_graph g 2) []) (\<lambda>parts.
      Inr (pn\<lparr>partitioned_graph := Some (g, parts)\<rparr>))))"

text \<open>A \<^verbatim>\<open>networkx\<close> graph without nodes is false in a condition.\<close>

definition get_partition_number :: "physical_net \<Rightarrow> dpid \<Rightarrow> int option" where
  "get_partition_number pn src_switch_mac =
     (case partitioned_graph pn of
        None \<Rightarrow> None
      | Some (g, parts) \<Rightarrow>
          if nx_nodes g \<noteq> [] \<and> src_switch_mac \<in> set (nx_nodes g) then map_of parts src_switch_mac else None)"

definition get_partition_nodes :: "physical_net \<Rightarrow> int option \<Rightarrow> dpid list res" where
  "get_partition_nodes pn partition_number =
     (case partitioned_graph pn of
        None \<Rightarrow> Inl AttributeError
      | Some (g, parts) \<Rightarrow>
          Inr (filter (\<lambda>node. case map_of parts node of None \<Rightarrow> False | Some p \<Rightarrow> partition_number = Some p)
                 (nx_nodes g)))"

section \<open>The topology graph\<close>

lemma nx_has_edge_add: "nx_has_edge (nx_add_edge a b g) u v \<longleftrightarrow> nx_has_edge g u v \<or> (u = a \<and> v = b) \<or> (u = b \<and> v = a)"
  by (auto simp: nx_has_edge_def nx_add_edge_def)

lemma topo_inner:
  "nx_has_edge (topo_graph (foldl (\<lambda>pn j.
          if i \<noteq> j then
            (case adj adjacency i j of
               None \<Rightarrow> pn
             | Some _ \<Rightarrow> pn\<lparr>topo_graph := nx_add_edge i j (topo_graph pn)\<rparr>)
          else pn) pn js)) u v \<longleftrightarrow>
   nx_has_edge (topo_graph pn) u v \<or> (\<exists>j \<in> set js. i \<noteq> j \<and> edge adjacency i j \<and> {u, v} = {i, j})"
  by (induction js arbitrary: pn)
    (auto simp: nx_has_edge_add edge_def doubleton_eq_iff split: option.splits)

lemma topo_outer:
  "nx_has_edge (topo_graph (foldl (\<lambda>pn i.
       foldl (\<lambda>pn j.
          if i \<noteq> j then
            (case adj adjacency i j of
               None \<Rightarrow> pn
             | Some _ \<Rightarrow> pn\<lparr>topo_graph := nx_add_edge i j (topo_graph pn)\<rparr>)
          else pn) pn js) pn is)) u v \<longleftrightarrow>
   nx_has_edge (topo_graph pn) u v \<or> (\<exists>i \<in> set is. \<exists>j \<in> set js. i \<noteq> j \<and> edge adjacency i j \<and> {u, v} = {i, j})"
  by (induction "is" arbitrary: pn) (auto simp: topo_inner)

text \<open>
  The topology graph: refreshing it adds exactly the links between different known switches,
  in either direction, and forgets no edge: an edge whose link has gone stays in the graph.
\<close>

lemma update_topo_graph_edges:
  "nx_has_edge (topo_graph (update_topo_graph sws adjacency pn)) u v \<longleftrightarrow>
     nx_has_edge (topo_graph pn) u v \<or>
     (u \<noteq> v \<and> u \<in> set sws \<and> v \<in> set sws \<and> (edge adjacency u v \<or> edge adjacency v u))"
  unfolding update_topo_graph_def topo_outer by (auto simp: doubleton_eq_iff) metis

section \<open>Partitions\<close>

lemma assign_parts_zero:
  assumes "i + length ps \<le> length node_ids"
  shows "\<exists>parts'. assign_parts node_ids (\<lambda>p. 0) i ps parts = Inr parts' \<and>
     map_of parts' = (\<lambda>n. if n \<in> set (take (length ps) (drop i node_ids)) then Some 0 else map_of parts n)"
  using assms
proof (induction ps arbitrary: i parts)
  case Nil
  then show ?case by simp
next
  case (Cons p ps)
  have "Suc i + length ps \<le> length node_ids" using Cons.prems by simp
  from Cons.IH [OF this, of "AList.update (node_ids ! i) 0 parts"]
  obtain parts' where parts': "assign_parts node_ids (\<lambda>p. 0) (Suc i) ps (AList.update (node_ids ! i) 0 parts) = Inr parts'"
      "map_of parts' = (\<lambda>n. if n \<in> set (take (length ps) (drop (Suc i) node_ids)) then Some 0
         else map_of (AList.update (node_ids ! i) 0 parts) n)" by blast
  have "drop i node_ids = node_ids ! i # drop (Suc i) node_ids"
    using Cons.prems by (simp add: Cons_nth_drop_Suc)
  with parts' Cons.prems show ?case by (auto simp: list_getitem_def fun_eq_iff)
qed

text \<open>
  With the default network type there is one partition: whenever the partitioner answers one
  part per node, partitioning succeeds, every switch of the topology is in part 0 whatever the
  partitioner said, and part 0 lists all the switches.
\<close>

lemma single_partition:
  assumes "nt_TREE (nt pn)" and "length (part_graph (topo_graph pn) 2) = length (nx_nodes (topo_graph pn))"
  shows "\<exists>pn'. create_partitions part_graph pn = Inr pn' \<and> topo_graph pn' = topo_graph pn \<and>
     (\<forall>n. get_partition_number pn' n = (if n \<in> set (nx_nodes (topo_graph pn)) then Some 0 else None)) \<and>
     get_partition_nodes pn' (Some 0) = Inr (nx_nodes (topo_graph pn)) \<and>
     (\<forall>k. k \<noteq> 0 \<longrightarrow> get_partition_nodes pn' (Some k) = Inr [])"
proof -
  let ?ns = "nx_nodes (topo_graph pn)"
  obtain parts where parts: "assign_parts ?ns (\<lambda>p. 0) 0 (part_graph (topo_graph pn) 2) [] = Inr parts"
      "map_of parts = (\<lambda>n. if n \<in> set ?ns then Some 0 else None)"
    using assign_parts_zero [of 0 "part_graph (topo_graph pn) 2" ?ns "[]"] assms(2) by (auto simp: fun_eq_iff)
  then have "create_partitions part_graph pn = Inr (pn\<lparr>partitioned_graph := Some (topo_graph pn, parts)\<rparr>)"
    using assms(1) by (simp add: create_partitions_def get_num_partitions_def Let_def)
  then show ?thesis
    by (auto simp: get_partition_number_def get_partition_nodes_def parts(2) filter_id_conv split: option.splits)
qed

lemma single_partition_example:
  "\<exists>pn'. create_partitions (\<lambda>g k. map (\<lambda>n. n mod 2) (nx_nodes g)) (update_topo_graph [1, 2, 3] line_adjacency physical_net_init) = Inr pn' \<and>
     get_partition_nodes pn' (Some 0) = Inr [1, 2, 3]"
proof -
  have nodes: "nx_nodes (topo_graph (update_topo_graph [1, 2, 3] line_adjacency physical_net_init)) = [1, 2, 3]"
    "nt_TREE (nt (update_topo_graph [1, 2, 3] line_adjacency physical_net_init))"
    by (simp_all add: update_topo_graph_def adj_def adj_row_def line_adjacency_def nx_add_edge_def
        physical_net_init_def nx_empty_def network_type_init_def)
  show ?thesis
    using single_partition [of "update_topo_graph [1, 2, 3] line_adjacency physical_net_init" "\<lambda>g k. map (\<lambda>n. n mod 2) (nx_nodes g)"]
    unfolding nodes(1) using nodes(2) by auto
qed

end
