(* ===== verification/Specs.thy ===== *)
theory Specs
  imports Network_Maps
begin

text \<open>
  Element specifications (\<^verbatim>\<open>specs.py\<close>, class \<^verbatim>\<open>ElementSpec\<close>): the dictionary read from the
  \<^verbatim>\<open>.spec\<close> files, its update with the administrator's parameters and its reversal.  The history
  holds references to dictionaries, not copies, so the model separates the one dictionary object
  (its contents) from the references to it.
\<close>

type_synonym specs = "(string, (string, params) dict) dict"

text \<open>A variable of the class refers to the dictionary object or is \<^verbatim>\<open>None\<close>.\<close>

datatype spec_ref = NoSpecs | TheSpecs

record element_spec =
  specs_object :: specs
  element_specs :: spec_ref
  element_specs_history :: "spec_ref list"
  admin_element_specs :: "(string, params) dict"

definition HISTORY_SIZE :: nat where
  "HISTORY_SIZE = 1"

text \<open>\<^verbatim>\<open>__init__\<close> and \<^verbatim>\<open>_load_specs\<close>: each readable file contributes its dictionary under its first
  key.  A directory item whose file cannot be opened is \<^verbatim>\<open>None\<close>.\<close>

definition load_specs :: "(string \<times> (string, params) dict option) list \<Rightarrow> specs \<Rightarrow> specs res" where
  "load_specs files specs =
     rfoldM (\<lambda>specs (item, json).
        if item = [] \<or> hd item \<noteq> CHR ''.'' then
          (case json of
             None \<Rightarrow> Inr specs
           | Some [] \<Rightarrow> Inl IndexError
           | Some ((key, v) # rest) \<Rightarrow> Inr (AList.update key ((key, v) # rest) specs))
        else Inr specs) specs files"

definition element_spec_init :: "specs \<Rightarrow> element_spec" where
  "element_spec_init specs =
     \<lparr>specs_object = specs, element_specs = TheSpecs, element_specs_history = replicate HISTORY_SIZE NoSpecs,
      admin_element_specs = []\<rparr>"

definition get_element_spec :: "element_spec \<Rightarrow> string \<Rightarrow> (string, params) dict res" where
  "get_element_spec es element_name =
     (case element_specs es of NoSpecs \<Rightarrow> Inl TypeError | TheSpecs \<Rightarrow> dict_getitem (specs_object es) element_name)"

text \<open>The inner loop of \<^verbatim>\<open>update_admin_elem_specs\<close>.  An exception leaves the assignments already
  made, so the loops return the dictionary along with the outcome.\<close>

fun update_features :: "string \<Rightarrow> params \<Rightarrow> specs \<Rightarrow> specs \<times> unit res" where
  "update_features elem_name [] specs = (specs, Inr ())"
| "update_features elem_name ((feature_name, feature_value) # rest) specs =
     (case map_of specs elem_name of
        None \<Rightarrow> (specs, Inl KeyError)
      | Some file \<Rightarrow>
          (case map_of file elem_name of
             None \<Rightarrow> (specs, Inl KeyError)
           | Some features \<Rightarrow>
               if \<not> has_key features feature_name
               then (specs, Inl (SlickException ElementSpecificationError))
               else update_features elem_name rest
                      (AList.update elem_name
                        (AList.update elem_name (AList.update feature_name feature_value features) file) specs)))"

fun update_elems :: "nat \<Rightarrow> string list \<Rightarrow> params list \<Rightarrow> element_spec \<Rightarrow> element_spec \<times> unit res" where
  "update_elems index [] admin_parameters es = (es, Inr ())"
| "update_elems index (elem_name # names) admin_parameters es =
     (case list_getitem admin_parameters index of
        Inl e \<Rightarrow> (es, Inl e)
      | Inr admin_params \<Rightarrow>
          (let es1 = (if has_key (admin_element_specs es) elem_name then es
                      else es\<lparr>admin_element_specs := AList.update elem_name admin_params (admin_element_specs es)\<rparr>)
           in case element_specs es1 of
                NoSpecs \<Rightarrow> (es1, Inl TypeError)
              | TheSpecs \<Rightarrow>
                  if \<not> has_key (specs_object es1) elem_name
                  then (es1, Inl (SlickException ElementSpecificationError))
                  else (case update_features elem_name admin_params (specs_object es1) of
                          (specs, Inl e) \<Rightarrow> (es1\<lparr>specs_object := specs\<rparr>, Inl e)
                        | (specs, Inr _) \<Rightarrow>
                            update_elems (Suc index) names admin_parameters (es1\<lparr>specs_object := specs\<rparr>))))"

definition update_admin_elem_specs ::
    "element_spec \<Rightarrow> string list \<Rightarrow> params list \<Rightarrow> element_spec \<times> unit res" where
  "update_admin_elem_specs es elem_names admin_parameters =
     (case update_elems 0 elem_names admin_parameters es of
        (es1, Inl e) \<Rightarrow> (es1, Inl e)
      | (es1, Inr _) \<Rightarrow>
          if length (element_specs_history es1) < HISTORY_SIZE
          then (es1\<lparr>element_specs_history := element_specs_history es1 @ [element_specs es1]\<rparr>, Inr ())
          else (es1\<lparr>element_specs_history := drop 1 (element_specs_history es1) @ [element_specs es1]\<rparr>, Inr ()))"

definition revert_elem_specs :: "element_spec \<Rightarrow> element_spec res" where
  "revert_elem_specs es =
     (case element_specs_history es of
        [] \<Rightarrow> Inl IndexError
      | ref # rest \<Rightarrow> Inr (es\<lparr>element_specs := ref, element_specs_history := rest\<rparr>))"

section \<open>Updates\<close>

text \<open>The features of an element.\<close>

definition features :: "specs \<Rightarrow> string \<Rightarrow> params option" where
  "features specs name = Option.bind (map_of specs name) (\<lambda>file. map_of file name)"

lemma features_update:
  "features (AList.update n (AList.update n f file) specs) m = (if m = n then Some f else features specs m)"
  by (simp add: features_def)

text \<open>What an update writes: the administrator's value where there is one, the rest as it was.\<close>

definition override :: "params \<Rightarrow> params \<Rightarrow> string \<Rightarrow> pval option" where
  "override fs admin k = (case map_of (rev admin) k of Some v \<Rightarrow> Some v | None \<Rightarrow> map_of fs k)"

lemma update_features_ok:
  assumes "features specs n = Some fs" and "\<forall>k \<in> set (dict_keys admin). has_key fs k"
  shows "\<exists>specs' fs'. update_features n admin specs = (specs', Inr ()) \<and> features specs' n = Some fs' \<and>
     map_of fs' = override fs admin \<and> (\<forall>m. m \<noteq> n \<longrightarrow> features specs' m = features specs m)"
  using assms
proof (induction admin arbitrary: specs fs)
  case Nil
  then show ?case by (auto simp: override_def fun_eq_iff)
next
  case (Cons p admin)
  obtain k v where p: "p = (k, v)" by (cases p)
  obtain sfile where sfile: "map_of specs n = Some sfile" "map_of sfile n = Some fs"
    using Cons.prems(1) by (auto simp: features_def split: Option.bind_splits)
  let ?fs = "AList.update k v fs"
  let ?specs = "AList.update n (AList.update n ?fs sfile) specs"
  have "features ?specs n = Some ?fs" by (simp add: features_update)
  moreover have "\<forall>k \<in> set (dict_keys admin). has_key ?fs k" using Cons.prems(2) by auto
  ultimately obtain specs' fs' where IH: "update_features n admin ?specs = (specs', Inr ())"
      "features specs' n = Some fs'" "map_of fs' = override ?fs admin"
      "\<forall>m. m \<noteq> n \<longrightarrow> features specs' m = features ?specs m"
    using Cons.IH by blast
  have "override ?fs admin = override fs (p # admin)"
    by (auto simp: override_def fun_eq_iff p map_add_def split: option.splits)
  with IH sfile Cons.prems(2) show ?case by (auto simp: p features_update)
qed

text \<open>
  Updating one element with the administrator's parameters, all of which are features of its
  specification, succeeds: afterwards each given feature has the administrator's value, every
  other feature of the element and every feature of every other element is unchanged.
\<close>

lemma update_admin_elem_specs_override:
  assumes "element_specs es = TheSpecs" and "features (specs_object es) n = Some fs"
    and "\<forall>k \<in> set (dict_keys admin). has_key fs k"
  shows "\<exists>es' fs'. update_admin_elem_specs es [n] [admin] = (es', Inr ()) \<and>
     features (specs_object es') n = Some fs' \<and> map_of fs' = override fs admin \<and>
     (\<forall>m. m \<noteq> n \<longrightarrow> features (specs_object es') m = features (specs_object es) m)"
proof -
  obtain specs' fs' where "update_features n admin (specs_object es) = (specs', Inr ())"
      "features specs' n = Some fs'" "map_of fs' = override fs admin"
      "\<forall>m. m \<noteq> n \<longrightarrow> features specs' m = features (specs_object es) m"
    using update_features_ok [OF assms(2,3)] by blast
  moreover have "has_key (specs_object es) n"
    using assms(2) by (auto simp: features_def split: Option.bind_splits)
  ultimately show ?thesis
    using assms(1) by (auto simp: update_admin_elem_specs_def list_getitem_def Let_def)
qed

definition logger_specs :: specs where
  "logger_specs = [(''Logger'', [(''Logger'', [(''placement'', PvStr ''middle''), (''affinity'', PvBool False), (''bidirection'', PvBool True)])])]"

lemma update_admin_elem_specs_override_example:
  "\<exists>es' fs'. update_admin_elem_specs (element_spec_init logger_specs) [''Logger''] [[(''affinity'', PvBool True)]] = (es', Inr ()) \<and>
     features (specs_object es') ''Logger'' = Some fs' \<and> map_of fs' ''affinity'' = Some (PvBool True) \<and>
     map_of fs' ''placement'' = Some (PvStr ''middle'')"
  using update_admin_elem_specs_override [of "element_spec_init logger_specs" "''Logger''"
      "[(''placement'', PvStr ''middle''), (''affinity'', PvBool False), (''bidirection'', PvBool True)]" "[(''affinity'', PvBool True)]"]
  by (auto simp: element_spec_init_def logger_specs_def features_def override_def)

text \<open>
  \<^verbatim>\<open>revert_elem_specs\<close> after a successful update does not bring the old specification back: the
  history holds the dictionary that was updated in place, so the reverted specification is the
  updated one.
\<close>

lemma revert_keeps_update:
  assumes "update_admin_elem_specs es names admins = (es', Inr ())"
    and "length (element_specs_history es) \<le> HISTORY_SIZE"
  shows "\<exists>es''. revert_elem_specs es' = Inr es'' \<and> specs_object es'' = specs_object es' \<and>
     element_specs es'' = element_specs es'"
proof -
  have hist: "element_specs_history (fst (update_elems i names admins es)) = element_specs_history es" for i
    by (induction i names admins es rule: update_elems.induct)
      (auto simp: Let_def split: sum.splits spec_ref.splits prod.splits)
  obtain es1 where es1: "update_elems 0 names admins es = (es1, Inr ())"
    using assms(1) by (auto simp: update_admin_elem_specs_def split: prod.splits sum.splits)
  then have "length (element_specs_history es1) \<le> 1"
    using hist [of 0] assms(2) by (simp add: HISTORY_SIZE_def)
  then show ?thesis
    using assms(1) es1
    by (auto simp: update_admin_elem_specs_def revert_elem_specs_def HISTORY_SIZE_def split: if_splits list.splits)
qed

lemma revert_keeps_update_example:
  "\<exists>es' es''. update_admin_elem_specs (element_spec_init logger_specs) [''Logger''] [[(''affinity'', PvBool True)]] = (es', Inr ()) \<and>
     revert_elem_specs es' = Inr es'' \<and> specs_object es'' = specs_object es' \<and> specs_object es'' \<noteq> logger_specs"
proof -
  obtain es' where es': "update_admin_elem_specs (element_spec_init logger_specs) [''Logger''] [[(''affinity'', PvBool True)]] = (es', Inr ())"
      "specs_object es' \<noteq> logger_specs"
    by (simp add: update_admin_elem_specs_def element_spec_init_def logger_specs_def list_getitem_def HISTORY_SIZE_def)
  then show ?thesis
    using revert_keeps_update [OF es'(1)] by (auto simp: element_spec_init_def)
qed

end
