(* ===== verification/Network_Model.thy ===== *)
theory Network_Model
  imports Overlay_Network Physical_Network Specs
begin

text \<open>
  The network model (\<^verbatim>\<open>NetworkModel.py\<close>): the element instances indexed by name and by descriptor,
  the preferences resolved between administrator and specification file, and the queries the
  placement, steering and routing modules make.  The maps of the controller it reads
  (\<^verbatim>\<open>elem_to_mac\<close>, \<^verbatim>\<open>elem_to_app\<close>) are arguments.
\<close>

section \<open>State and placements\<close>

text \<open>The set of the instances of a name is the list of its members; \<^verbatim>\<open>ElementInstance\<close> objects are
  compared by identity, and every one has a descriptor of its own.\<close>

record net_model =
  name_to_instances :: "(string, element_instance list) dict"
  ed_to_instance :: "(int, element_instance) dict"
  elem_name_to_loaded_descs :: "(string, int list) dict"
  nm_elem_specs :: element_spec
  elem_to_switch :: "(int, dpid) dict"
  nm_overlay :: overlay_net
  nm_physical :: physical_net

definition net_model_init :: "specs \<Rightarrow> net_model" where
  "net_model_init specs = \<lparr>name_to_instances = [], ed_to_instance = [], elem_name_to_loaded_descs = [],
     nm_elem_specs = element_spec_init specs, elem_to_switch = [], nm_overlay = overlay_init,
     nm_physical = physical_net_init\<rparr>"

definition instances_named :: "net_model \<Rightarrow> string \<Rightarrow> element_instance list" where
  "instances_named nm name = (case map_of (name_to_instances nm) name of None \<Rightarrow> [] | Some is \<Rightarrow> is)"

definition add_placement :: "net_model \<Rightarrow> string \<Rightarrow> int \<Rightarrow> int \<Rightarrow> mac \<Rightarrow> int \<Rightarrow> net_model" where
  "add_placement nm element_name app_desc element_desc mac_addr flowspace_desc =
     (let inst = \<lparr>ei_name = element_name, ei_app_desc = app_desc, ei_elem_desc = element_desc, ei_location = mac_addr,
                  ei_flowspace_desc = flowspace_desc\<rparr>;
          m = ddict_touch [] element_name (name_to_instances nm)
      in nm\<lparr>name_to_instances := AList.update element_name (the (map_of m element_name) @ [inst]) m,
            ed_to_instance := AList.update element_desc inst (ed_to_instance nm)\<rparr>)"

definition remove_placement :: "net_model \<Rightarrow> int \<Rightarrow> net_model res" where
  "remove_placement nm element_desc =
     (case map_of (ed_to_instance nm) element_desc of
        None \<Rightarrow> Inr nm
      | Some inst \<Rightarrow>
          rbind (dict_getitem (name_to_instances nm) (ei_name inst)) (\<lambda>is.
          rbind (set_remove inst is) (\<lambda>is'.
          Inr (nm\<lparr>name_to_instances := AList.update (ei_name inst) is' (name_to_instances nm),
                  ed_to_instance := AList.delete element_desc (ed_to_instance nm)\<rparr>))))"

definition get_element_placements :: "net_model \<Rightarrow> int \<Rightarrow> string \<Rightarrow> mac list res" where
  "get_element_placements nm app_desc element_name =
     rbind (dict_getitem (name_to_instances nm) element_name) (\<lambda>is.
     Inr (map ei_location (filter (\<lambda>i. ei_app_desc i = app_desc) is)))"

definition get_element_descriptors :: "net_model \<Rightarrow> string \<Rightarrow> int list" where
  "get_element_descriptors nm element_name = map ei_elem_desc (instances_named nm element_name)"

definition get_flowspace_elem_descs :: "net_model \<Rightarrow> int \<Rightarrow> string \<Rightarrow> int list" where
  "get_flowspace_elem_descs nm flowspace_desc element_name =
     map ei_elem_desc (filter (\<lambda>i. ei_flowspace_desc i = flowspace_desc) (instances_named nm element_name))"

definition get_elem_name :: "net_model \<Rightarrow> int \<Rightarrow> string option" where
  "get_elem_name nm ed = map_option ei_name (map_of (ed_to_instance nm) ed)"

definition get_elem_names :: "net_model \<Rightarrow> string list" where
  "get_elem_names nm = dict_keys (name_to_instances nm)"

definition get_elem_descs :: "net_model \<Rightarrow> string option \<Rightarrow> int list" where
  "get_elem_descs nm elem_name =
     (case elem_name of
        None \<Rightarrow> dict_keys (ed_to_instance nm)
      | Some n \<Rightarrow> if n = [] then dict_keys (ed_to_instance nm)
                  else map fst (filter (\<lambda>(ed, ei). ei_name ei = n) (ed_to_instance nm)))"

section \<open>Loads and locations\<close>

text \<open>The key \<^verbatim>\<open>None\<close> of an unknown descriptor is the empty name here.\<close>

definition update_function_loads :: "net_model \<Rightarrow> int list \<Rightarrow> net_model" where
  "update_function_loads nm loaded_elem_descs =
     foldl (\<lambda>nm ed.
        let element_name = (case get_elem_name nm ed of None \<Rightarrow> [] | Some n \<Rightarrow> n);
            m = ddict_touch [] element_name (elem_name_to_loaded_descs nm)
        in nm\<lparr>elem_name_to_loaded_descs := AList.update element_name (the (map_of m element_name) @ [ed]) m\<rparr>)
       nm loaded_elem_descs"

text \<open>\<^verbatim>\<open>list(set(a) - set(b))\<close>: the model lists the difference in the order of the first set's list.\<close>

definition get_not_loaded_element_descs :: "net_model \<Rightarrow> string \<Rightarrow> int list" where
  "get_not_loaded_element_descs nm element_name =
     (let loaded = (case map_of (elem_name_to_loaded_descs nm) element_name of None \<Rightarrow> [] | Some eds \<Rightarrow> eds)
      in filter (\<lambda>ed. ed \<notin> set loaded) (remdups (get_element_descriptors nm element_name)))"

definition get_min_elem_descs :: "string \<Rightarrow> int" where
  "get_min_elem_descs element_name = 1"

definition get_machine_mac :: "elem_to_mac \<Rightarrow> int \<Rightarrow> mac option" where
  "get_machine_mac e2m elem_desc = etm_get e2m elem_desc"

definition add_elem_to_switch_mapping :: "elem_to_mac \<Rightarrow> net_model \<Rightarrow> int list list \<Rightarrow> net_model res" where
  "add_elem_to_switch_mapping e2m nm replica_sets =
     rfoldM (\<lambda>nm ed.
        rbind (get_connected_switch (nm_overlay nm) (get_machine_mac e2m ed)) (\<lambda>sw.
        Inr (nm\<lparr>elem_to_switch := AList.update ed sw (elem_to_switch nm)\<rparr>)))
       nm (concat replica_sets)"

definition get_elem_descriptor :: "net_model \<Rightarrow> dpid \<Rightarrow> int option" where
  "get_elem_descriptor nm switch_mac =
     (let ed_list = map fst (filter (\<lambda>(ed, s_mac). s_mac = switch_mac) (elem_to_switch nm))
      in if length ed_list > 0 then Some (ed_list ! 0) else None)"

definition remove_elem_to_switch_mapping :: "net_model \<Rightarrow> int \<Rightarrow> net_model" where
  "remove_elem_to_switch_mapping nm ed =
     (if has_key (elem_to_switch nm) ed then nm\<lparr>elem_to_switch := AList.delete ed (elem_to_switch nm)\<rparr> else nm)"

text \<open>\<^verbatim>\<open>get_compatible_machines\<close> returns every registered machine.\<close>

definition get_compatible_machines :: "mac_to_ip \<Rightarrow> string \<Rightarrow> mac list" where
  "get_compatible_machines m2i elem_name = mti_get_all_macs m2i"

definition get_all_forwarding_device_names :: "net_model \<Rightarrow> string list" where
  "get_all_forwarding_device_names nm = map snd (ov_switches (nm_overlay nm))"

definition get_overlay_subgraph ::
    "elem_to_mac \<Rightarrow> net_model \<Rightarrow> dpid \<Rightarrow> dpid \<Rightarrow> int list list \<Rightarrow> ((dpid \<times> dpid, link_weight) dict) res" where
  "get_overlay_subgraph e2m nm src_switch dst_switch elem_descs =
     get_subgraph e2m (nm_overlay nm) src_switch dst_switch elem_descs"

definition get_host_loc :: "net_model \<Rightarrow> mac option \<Rightarrow> (dpid \<times> int) res" where
  "get_host_loc nm machine_mac =
     rbind (host_name machine_mac) (\<lambda>mac_addr. dict_getitem (hosts (nm_overlay nm)) mac_addr)"

definition MAX_ELEMENTS_PER_MACHINE :: nat where
  "MAX_ELEMENTS_PER_MACHINE = 1"

definition get_max_elements :: "mac \<Rightarrow> nat" where
  "get_max_elements mac = MAX_ELEMENTS_PER_MACHINE"

definition element_placement_allowed :: "elem_to_mac \<Rightarrow> mac \<Rightarrow> bool res" where
  "element_placement_allowed e2m mac =
     rbind (etm_get_elem_descs e2m mac) (\<lambda>eds. if length eds < get_max_elements mac then Inr True else Inr False)"

section \<open>Preferences\<close>

definition elem_features :: "net_model \<Rightarrow> string \<Rightarrow> params res" where
  "elem_features nm elem_name =
     rbind (get_element_spec (nm_elem_specs nm) elem_name) (\<lambda>spec. dict_getitem spec elem_name)"

definition get_elem_spec_placement :: "net_model \<Rightarrow> string \<Rightarrow> pval res" where
  "get_elem_spec_placement nm elem_name =
     rbind (elem_features nm elem_name) (\<lambda>fs. Inr (case map_of fs ''placement'' of None \<Rightarrow> PvNone | Some v \<Rightarrow> v))"

definition get_elem_admin_placement :: "string \<Rightarrow> pval" where
  "get_elem_admin_placement elem_name = PvNone"

definition get_elem_placement_pref :: "net_model \<Rightarrow> string \<Rightarrow> pval res" where
  "get_elem_placement_pref nm elem_name =
     rbind (get_elem_spec_placement nm elem_name) (\<lambda>spec_placement.
     let admin_placement = get_elem_admin_placement elem_name in
     Inr (if pv_truthy admin_placement then admin_placement
          else if pv_truthy spec_placement then spec_placement else PvNone))"

definition get_elem_leg_type :: "net_model \<Rightarrow> string \<Rightarrow> pval res" where
  "get_elem_leg_type nm elem_name =
     rbind (elem_features nm elem_name) (\<lambda>fs. Inr (case map_of fs ''leg'' of None \<Rightarrow> PvNone | Some v \<Rightarrow> v))"

definition get_elem_leg_factor :: "net_model \<Rightarrow> string option \<Rightarrow> int \<Rightarrow> pval res" where
  "get_elem_leg_factor nm elem_name elem_desc =
     (let factor = (\<lambda>name. rbind (elem_features nm name) (\<lambda>fs.
                      Inr (case map_of fs ''leg_factor'' of None \<Rightarrow> PvInt (- 1) | Some v \<Rightarrow> v)))
      in if elem_desc > 0 then
           (case get_elem_name nm elem_desc of None \<Rightarrow> Inl KeyError | Some name \<Rightarrow> factor name)
         else (case elem_name of
                 None \<Rightarrow> Inr (PvInt (- 1))
               | Some name \<Rightarrow> if name = [] then Inr (PvInt (- 1)) else factor name))"

text \<open>A specification or parameter that must be a Boolean; the module does not import
  \<^verbatim>\<open>slick_exceptions\<close>, so its \<^verbatim>\<open>raise\<close> statements end in a \<^verbatim>\<open>NameError\<close>.\<close>

definition spec_bool :: "net_model \<Rightarrow> string \<Rightarrow> string \<Rightarrow> bool res" where
  "spec_bool nm key element_name =
     rbind (elem_features nm element_name) (\<lambda>fs.
     case map_of fs key of
       Some (PvBool b) \<Rightarrow> Inr b
     | Some _ \<Rightarrow> Inl NameError
     | None \<Rightarrow> Inl NameError)"

definition get_elem_spec_direction :: "net_model \<Rightarrow> string \<Rightarrow> bool res" where
  "get_elem_spec_direction nm element_name = spec_bool nm ''bidirection'' element_name"

definition get_elem_spec_affinity :: "net_model \<Rightarrow> string \<Rightarrow> bool res" where
  "get_elem_spec_affinity nm element_name = spec_bool nm ''affinity'' element_name"

definition admin_bool :: "elem_to_app \<Rightarrow> string \<Rightarrow> int \<Rightarrow> bool option res" where
  "admin_bool e2a key ed =
     rbind (eta_get_controller_params e2a ed) (\<lambda>controller_params.
     case map_of controller_params key of
       None \<Rightarrow> Inr None
     | Some (PvBool b) \<Rightarrow> Inr (Some b)
     | Some _ \<Rightarrow> Inl NameError)"

definition get_elem_admin_direction :: "elem_to_app \<Rightarrow> int \<Rightarrow> bool option res" where
  "get_elem_admin_direction e2a ed = admin_bool e2a ''bidirection'' ed"

definition get_elem_admin_affinity :: "elem_to_app \<Rightarrow> int \<Rightarrow> bool res" where
  "get_elem_admin_affinity e2a ed =
     rbind (admin_bool e2a ''affinity'' ed) (\<lambda>b. Inr (case b of None \<Rightarrow> False | Some a \<Rightarrow> a))"

definition is_affinity_required :: "elem_to_app \<Rightarrow> net_model \<Rightarrow> int \<Rightarrow> string \<Rightarrow> bool res" where
  "is_affinity_required e2a nm ed element_name =
     rbind (get_elem_admin_affinity e2a ed) (\<lambda>affinity.
     if affinity then Inr True else get_elem_spec_affinity nm element_name)"

definition is_bidirection_required :: "elem_to_app \<Rightarrow> net_model \<Rightarrow> int \<Rightarrow> bool option res" where
  "is_bidirection_required e2a nm ed =
     (case map_of (ed_to_instance nm) ed of
        None \<Rightarrow> Inr None
      | Some elem_inst \<Rightarrow>
          rbind (get_elem_admin_direction e2a ed) (\<lambda>d.
          if d = Some True then Inr (Some True)
          else rbind (get_elem_spec_direction nm (ei_name elem_inst)) (\<lambda>b. Inr (Some b))))"

definition nm_update_admin_elem_specs :: "net_model \<Rightarrow> string list \<Rightarrow> params list \<Rightarrow> net_model \<times> unit res" where
  "nm_update_admin_elem_specs nm element_names admin_params =
     (case update_admin_elem_specs (nm_elem_specs nm) element_names admin_params of
        (es, r) \<Rightarrow> (nm\<lparr>nm_elem_specs := es\<rparr>, r))"

text \<open>\<^verbatim>\<open>get_active_flowspace_descs\<close> misspells the attribute, so any instance makes it raise.\<close>

definition get_active_flowspace_descs :: "net_model \<Rightarrow> int list res" where
  "get_active_flowspace_descs nm = (case ed_to_instance nm of [] \<Rightarrow> Inr [] | _ # _ \<Rightarrow> Inl AttributeError)"

section \<open>The two indexes agree\<close>

definition nm_wf :: "net_model \<Rightarrow> bool" where
  "nm_wf nm \<longleftrightarrow> dict_wf (ed_to_instance nm) \<and> dict_wf (name_to_instances nm) \<and>
     (\<forall>ed i. map_of (ed_to_instance nm) ed = Some i \<longrightarrow> ei_elem_desc i = ed \<and> i \<in> set (instances_named nm (ei_name i))) \<and>
     (\<forall>n. distinct (instances_named nm n)) \<and>
     (\<forall>n. \<forall>i \<in> set (instances_named nm n). ei_name i = n \<and> map_of (ed_to_instance nm) (ei_elem_desc i) = Some i)"

lemma nm_wf_instance:
  assumes "nm_wf nm" and "i \<in> set (instances_named nm n)"
  shows "ei_name i = n" and "map_of (ed_to_instance nm) (ei_elem_desc i) = Some i"
  using assms unfolding nm_wf_def by simp_all

lemma nm_wf_ed:
  assumes "nm_wf nm" and "map_of (ed_to_instance nm) ed = Some i"
  shows "ei_elem_desc i = ed" and "i \<in> set (instances_named nm (ei_name i))"
  using assms unfolding nm_wf_def by blast+

lemma add_placement_instances:
  "instances_named (add_placement nm n a ed mc f) k =
     (if k = n then instances_named nm n @ [\<lparr>ei_name = n, ei_app_desc = a, ei_elem_desc = ed, ei_location = mc,
        ei_flowspace_desc = f\<rparr>] else instances_named nm k)"
  by (auto simp: add_placement_def instances_named_def Let_def map_of_ddict_touch split: option.splits)

lemma add_placement_eds:
  "ed_to_instance (add_placement nm n a ed mc f) =
     AList.update ed \<lparr>ei_name = n, ei_app_desc = a, ei_elem_desc = ed, ei_location = mc, ei_flowspace_desc = f\<rparr>
       (ed_to_instance nm)"
  by (simp add: add_placement_def Let_def)

lemma add_placement_wf:
  assumes "nm_wf nm" and "\<not> has_key (ed_to_instance nm) ed"
  shows "nm_wf (add_placement nm n a ed mc f)"
proof -
  have fresh: "i \<in> set (instances_named nm k) \<Longrightarrow> ei_elem_desc i \<noteq> ed" for i k
    using nm_wf_instance(2) [OF assms(1)] assms(2) by fastforce
  have "dict_wf (name_to_instances (add_placement nm n a ed mc f))"
    using assms(1) by (auto simp: nm_wf_def add_placement_def Let_def)
  then show ?thesis
    using assms fresh fresh [of "\<lparr>ei_name = n, ei_app_desc = a, ei_elem_desc = ed, ei_location = mc,
        ei_flowspace_desc = f\<rparr>" n] unfolding nm_wf_def add_placement_instances add_placement_eds
    by (auto split: if_splits)
qed

lemma remove_placement_ok:
  assumes "nm_wf nm" and "map_of (ed_to_instance nm) ed = Some i"
  shows "\<exists>nm'. remove_placement nm ed = Inr nm' \<and> ed_to_instance nm' = AList.delete ed (ed_to_instance nm) \<and>
     (\<forall>k. instances_named nm' k = filter (\<lambda>j. j \<noteq> i) (instances_named nm k)) \<and> dict_wf (name_to_instances nm')"
proof -
  have i: "ei_elem_desc i = ed" "i \<in> set (instances_named nm (ei_name i))"
    using nm_wf_ed [OF assms] by auto
  then obtain xs where xs: "map_of (name_to_instances nm) (ei_name i) = Some xs" "i \<in> set xs"
    by (cases "map_of (name_to_instances nm) (ei_name i)") (auto simp: instances_named_def)
  have other: "i \<notin> set (instances_named nm k)" if "k \<noteq> ei_name i" for k
    using nm_wf_instance(1) [OF assms(1)] that by blast
  have "instances_named nm (ei_name i) = xs" using xs by (simp add: instances_named_def)
  with assms xs i other show ?thesis
    by (auto simp: remove_placement_def set_remove_def dict_getitem_def instances_named_def nm_wf_def
        intro!: filter_True [symmetric] split: option.splits)
qed

lemma remove_placement_wf:
  assumes "nm_wf nm" and "remove_placement nm ed = Inr nm'"
  shows "nm_wf nm'"
proof (cases "map_of (ed_to_instance nm) ed")
  case None
  with assms show ?thesis by (simp add: remove_placement_def)
next
  case (Some i)
  from remove_placement_ok [OF assms(1) Some] assms(2)
  have nm': "ed_to_instance nm' = AList.delete ed (ed_to_instance nm)" "dict_wf (name_to_instances nm')"
    "\<And>k. instances_named nm' k = filter (\<lambda>j. j \<noteq> i) (instances_named nm k)" by auto
  have i: "ei_elem_desc i = ed" using nm_wf_ed [OF assms(1) Some] by simp
  show ?thesis
    using assms(1) nm'(2) Some i unfolding nm_wf_def nm'(1,3)
    by (auto split: if_splits) (metis eq_key_imp_eq_value)+
qed

text \<open>
  Placements: adding an instance under a new descriptor and removing one keep the index by
  name and the index by descriptor in agreement; a new instance is found under its name and its
  descriptor, and removing it again restores every answer.
\<close>

lemma placement_indexes:
  assumes "nm_wf nm" and "\<not> has_key (ed_to_instance nm) ed"
  shows "nm_wf (add_placement nm n a ed mc f) \<and>
    get_elem_name (add_placement nm n a ed mc f) ed = Some n \<and>
    get_element_descriptors (add_placement nm n a ed mc f) n = get_element_descriptors nm n @ [ed] \<and>
    (\<exists>nm'. remove_placement (add_placement nm n a ed mc f) ed = Inr nm' \<and> nm_wf nm' \<and>
       (\<forall>k. get_element_descriptors nm' k = get_element_descriptors nm k) \<and>
       (\<forall>e. get_elem_name nm' e = get_elem_name nm e))"
proof -
  let ?nm = "add_placement nm n a ed mc f"
  let ?i = "\<lparr>ei_name = n, ei_app_desc = a, ei_elem_desc = ed, ei_location = mc, ei_flowspace_desc = f\<rparr>"
  have wf: "nm_wf ?nm" using assms by (rule add_placement_wf)
  have i: "map_of (ed_to_instance ?nm) ed = Some ?i" by (simp add: add_placement_eds)
  obtain nm' where nm': "remove_placement ?nm ed = Inr nm'" "ed_to_instance nm' = AList.delete ed (ed_to_instance ?nm)"
      "\<forall>k. instances_named nm' k = filter (\<lambda>j. j \<noteq> ?i) (instances_named ?nm k)"
    using remove_placement_ok [OF wf i] by blast
  have fresh: "?i \<notin> set (instances_named nm k)" for k
    using nm_wf_instance(2) [OF assms(1)] assms(2) by fastforce
  have "instances_named nm' k = instances_named nm k" for k
    using nm'(3) fresh by (auto simp: add_placement_instances intro: filter_True)
  then have "get_element_descriptors nm' k = get_element_descriptors nm k" for k
    by (simp add: get_element_descriptors_def)
  moreover have "get_elem_name nm' e = get_elem_name nm e" for e
    using assms(2) by (simp add: get_elem_name_def nm'(2) add_placement_eds)
  ultimately show ?thesis
    using wf nm'(1) remove_placement_wf [OF wf nm'(1)] i
    by (auto simp: get_elem_name_def get_element_descriptors_def add_placement_instances)
qed

lemma net_model_init_wf: "nm_wf (net_model_init specs)"
  by (simp add: nm_wf_def net_model_init_def instances_named_def)

lemma placement_indexes_example:
  "get_element_descriptors (add_placement (net_model_init []) ''Logger'' 101 2 (MacInt 1) 1) ''Logger'' = [2]"
  using placement_indexes [OF net_model_init_wf, of "[]" 2 "''Logger''" 101 "MacInt 1" 1]
  by (simp add: net_model_init_def get_element_descriptors_def instances_named_def)

end
