(* ===== verification/Consolidation.thy ===== *)
theory Consolidation
  imports Network_Model
begin

text \<open>
  Which elements of a chain share a machine, and where along the chain
  (\<^verbatim>\<open>placement/consolidation.py\<close>): a chain is cut into consecutive blocks, the blocks are put on
  virtual locations between the sources and the destinations, and the assignment with the least
  link cost is looked for.  The set partitions come from the package \<^verbatim>\<open>partitionsets\<close>, which is an
  argument: \<open>partitions_of names\<close> is what \<^verbatim>\<open>Partition(OrderedSet(names))\<close> iterates over.

  Costs are Python 2 numbers: an integer divided by an integer is rounded down; a float is a
  rational, so the rounding of IEEE arithmetic is not modelled.
\<close>

section \<open>Numbers\<close>

datatype pynum = NI int | NF rat

fun num_val :: "pynum \<Rightarrow> rat" where
  "num_val (NI i) = of_int i"
| "num_val (NF q) = q"

definition num_add :: "pynum \<Rightarrow> pynum \<Rightarrow> pynum" where
  "num_add a b = (case (a, b) of (NI i, NI j) \<Rightarrow> NI (i + j) | _ \<Rightarrow> NF (num_val a + num_val b))"

definition num_div :: "pynum \<Rightarrow> pynum \<Rightarrow> pynum res" where
  "num_div a b =
     (if num_val b = 0 then Inl ZeroDivisionError
      else Inr (case (a, b) of (NI i, NI j) \<Rightarrow> NI (i div j) | _ \<Rightarrow> NF (num_val a / num_val b)))"

definition pv_num :: "pval \<Rightarrow> pynum res" where
  "pv_num v = (case v of PvInt i \<Rightarrow> Inr (NI i) | PvNum q \<Rightarrow> Inr (NF q) | PvBool b \<Rightarrow> Inr (NI (of_bool b))
                       | _ \<Rightarrow> Inl TypeError)"

lemma num_val_add [simp]: "num_val (num_add a b) = num_val a + num_val b"
  by (cases a; cases b) (simp_all add: num_add_def)

lemma num_val_div_float: "q \<noteq> 0 \<Longrightarrow> num_div a (NF q) = Inr (NF (num_val a / q))"
  by (cases a) (simp_all add: num_div_def)

section \<open>The partitions of a chain\<close>

type_synonym leg_factors = "(string \<times> pval) list"

definition get_leg_factors :: "net_model \<Rightarrow> string list \<Rightarrow> leg_factors res" where
  "get_leg_factors nm element_names =
     rmapM (\<lambda>elem_name. rbind (get_elem_leg_factor nm (Some elem_name) (- 1)) (\<lambda>leg_factor. Inr (elem_name, leg_factor)))
       element_names"

definition is_valid_partition :: "string list \<Rightarrow> string list list \<Rightarrow> bool" where
  "is_valid_partition element_names part =
     (let partition_list = concat (map (filter (\<lambda>item. item \<in> set element_names)) part)
      in if partition_list = element_names then True else False)"

definition generate_consolidation_combinations ::
    "(string list \<Rightarrow> string list list list) \<Rightarrow> string list \<Rightarrow> string list list list" where
  "generate_consolidation_combinations partitions_of element_names =
     filter (is_valid_partition element_names) (partitions_of (dedup element_names))"

definition get_single_element_assignment ::
    "net_model \<Rightarrow> string \<Rightarrow> (string list list option \<times> string list option) res" where
  "get_single_element_assignment nm element_name =
     rbind (get_elem_leg_type nm element_name) (\<lambda>leg_type.
     let c0 = None;
         c1 = (if leg_type = PvStr ''E'' then Some [''ANY''] else c0);
         c2 = (if leg_type = PvStr ''L'' then Some [''DESTS''] else c1);
         c3 = (if leg_type = PvStr ''G'' then Some [''SRCS''] else c2)
     in Inr (Some [[element_name]], c3))"

text \<open>Every location adds one entry for each condition that holds.\<close>

definition translate_virtual_locs_to_place :: "string list \<Rightarrow> nat list option \<Rightarrow> string list res" where
  "translate_virtual_locs_to_place element_names virtual_locs_to_place =
     (case virtual_locs_to_place of
        None \<Rightarrow> Inl TypeError
      | Some locs \<Rightarrow>
          Inr (concat (map (\<lambda>pos. (if pos = 0 then [''SRCS''] else []) @
                                   (if int pos = int (length element_names) - 1 then [''DESTS''] else []) @
                                   (if int pos \<noteq> int (length element_names) - 1 \<and> pos \<noteq> 0 then [''ANY''] else []))
                         locs)))"

section \<open>The cost of an assignment\<close>

definition get_cost_change :: "pynum \<Rightarrow> leg_factors \<Rightarrow> string list \<Rightarrow> pynum res" where
  "get_cost_change starting_cost leg_factors consolidated_element =
     rfoldM (\<lambda>link_cost elem.
        rfoldM (\<lambda>link_cost leg.
           if fst leg = elem then rbind (pv_num (snd leg)) (num_div link_cost) else Inr link_cost) link_cost leg_factors)
       starting_cost consolidated_element"

text \<open>The loop over the links, with its three running variables; the costs it assigns, in order.\<close>

fun link_costs ::
    "nat list \<Rightarrow> leg_factors \<Rightarrow> string list list \<Rightarrow> pynum \<Rightarrow> nat \<Rightarrow> nat \<Rightarrow> 'l list \<Rightarrow> pynum list res" where
  "link_costs locs leg_factors part prev link_number location_num [] = Inr []"
| "link_costs locs leg_factors part prev link_number location_num (link # links) =
     rbind (list_getitem locs location_num) (\<lambda>loc.
     if link_number = loc + 1 then
       rbind (list_getitem part location_num) (\<lambda>block.
       rbind (get_cost_change prev leg_factors block) (\<lambda>cost.
       let location_num' = (if location_num + 1 < length locs then location_num + 1 else location_num) in
       rbind (link_costs locs leg_factors part cost (link_number + 1) location_num' links) (\<lambda>rest.
       Inr (cost # rest))))
     else
       rbind (link_costs locs leg_factors part prev (link_number + 1) location_num links) (\<lambda>rest.
       Inr (prev # rest)))"

definition calculate_combinations_link_cost ::
    "'l list \<Rightarrow> nat list \<Rightarrow> leg_factors \<Rightarrow> string list list \<Rightarrow> pynum res" where
  "calculate_combinations_link_cost links locs_to_place_elements leg_factors part =
     rbind (link_costs locs_to_place_elements leg_factors part (NI 1) 0 0 links) (\<lambda>costs.
     Inr (foldl num_add (NI 0) costs))"

text \<open>\<^verbatim>\<open>itertools.combinations\<close>.\<close>

fun combinations :: "'a list \<Rightarrow> nat \<Rightarrow> 'a list list" where
  "combinations xs 0 = [[]]"
| "combinations [] (Suc r) = []"
| "combinations (x # xs) (Suc r) = map ((#) x) (combinations xs r) @ combinations xs (Suc r)"

text \<open>The keys of the ordered dictionary of links: the source, the consecutive elements, the
  destination; a repeated pair is one key.\<close>

definition chain_links :: "string list \<Rightarrow> (string \<times> string) list" where
  "chain_links element_names = dedup (zip (''src'' # element_names) (element_names @ [''dst'']))"

record least_cost =
  min_combination_cost :: pynum
  min_cost_combination :: "nat list option"
  min_cost_partition :: "string list list option"

definition consider_combination :: "string list list \<Rightarrow> nat list \<Rightarrow> pynum \<Rightarrow> least_cost \<Rightarrow> least_cost" where
  "consider_combination part c combination_cost s =
     (if num_val combination_cost \<le> num_val (min_combination_cost s) then
        s\<lparr>min_combination_cost := combination_cost, min_cost_combination := Some c,
          min_cost_partition :=
            (case min_cost_partition s of
               None \<Rightarrow> Some part
             | Some p \<Rightarrow> if p = [] then Some part
                         else if length part > length p then Some part else Some p)\<rparr>
      else s)"

definition least_cost_loop ::
    "(string list list \<Rightarrow> nat list \<Rightarrow> pynum res) \<Rightarrow> nat list \<Rightarrow> string list list list \<Rightarrow> least_cost \<Rightarrow> least_cost res" where
  "least_cost_loop cost locs valid_partitions s =
     rfoldM (\<lambda>s part.
        rfoldM (\<lambda>s c. rbind (cost part c) (\<lambda>combination_cost. Inr (consider_combination part c combination_cost s)))
          s (combinations locs (length part)))
       s valid_partitions"

definition least_cost_init :: least_cost where
  "least_cost_init = \<lparr>min_combination_cost = NI 1000000000, min_cost_combination = None, min_cost_partition = None\<rparr>"

definition get_least_cost_assignment ::
    "net_model \<Rightarrow> string list list list \<Rightarrow> string list \<Rightarrow> leg_factors \<Rightarrow>
     (string list list option \<times> string list option) res" where
  "get_least_cost_assignment nm valid_partitions element_names leg_factors =
     (if length element_names = 1 then
        rbind (list_getitem leg_factors 0) (\<lambda>_. get_single_element_assignment nm (element_names ! 0))
      else if element_names = [] then Inl IndexError
      else
        rbind (least_cost_loop (\<lambda>part c. calculate_combinations_link_cost (chain_links element_names) c leg_factors part)
                 [0..<length element_names] valid_partitions least_cost_init) (\<lambda>s.
        rbind (translate_virtual_locs_to_place element_names (min_cost_combination s)) (\<lambda>combination.
        Inr (min_cost_partition s, Some combination))))"

section \<open>The cost loop computes the link costs\<close>

definition block_factor :: "(string \<Rightarrow> rat) \<Rightarrow> string list \<Rightarrow> rat" where
  "block_factor lf block = prod_list (map lf block)"

abbreviation float_factors :: "(string \<Rightarrow> rat) \<Rightarrow> string list \<Rightarrow> leg_factors" where
  "float_factors lf names \<equiv> map (\<lambda>n. (n, PvNum (lf n))) names"

lemma one_element_cost:
  assumes "distinct names" and "\<forall>n \<in> set names. lf n \<noteq> 0"
  shows "\<exists>y. rfoldM (\<lambda>link_cost leg. if fst leg = elem then rbind (pv_num (snd leg)) (num_div link_cost) else Inr link_cost)
            x (float_factors lf names) = Inr y \<and> num_val y = num_val x / (if elem \<in> set names then lf elem else 1)"
  using assms
proof (induction names arbitrary: x)
  case Nil
  then show ?case by simp
next
  case (Cons n names)
  show ?case
  proof (cases "n = elem")
    case True
    then have "\<exists>y. rfoldM (\<lambda>link_cost leg. if fst leg = elem then rbind (pv_num (snd leg)) (num_div link_cost) else Inr link_cost)
            (NF (num_val x / lf n)) (float_factors lf names) = Inr y \<and> num_val y = num_val x / lf n"
      using Cons.IH [of "NF (num_val x / lf n)"] Cons.prems by auto
    with True Cons.prems show ?thesis by (auto simp: pv_num_def num_val_div_float)
  next
    case False
    with Cons.IH [of x] Cons.prems show ?thesis by auto
  qed
qed

lemma cost_change:
  assumes "distinct names" and "\<forall>n \<in> set names. lf n \<noteq> 0" and "set block \<subseteq> set names"
  shows "\<exists>y. get_cost_change x (float_factors lf names) block = Inr y \<and> num_val y = num_val x / block_factor lf block"
  using assms(3)
proof (induction block arbitrary: x)
  case Nil
  then show ?case by (simp add: get_cost_change_def block_factor_def)
next
  case (Cons e block)
  obtain y where y: "rfoldM (\<lambda>link_cost leg. if fst leg = e then rbind (pv_num (snd leg)) (num_div link_cost) else Inr link_cost)
      x (float_factors lf names) = Inr y" "num_val y = num_val x / lf e"
    using one_element_cost [OF assms(1,2), of e x] Cons.prems by auto
  with Cons.IH [of y] Cons.prems show ?case
    by (auto simp: get_cost_change_def block_factor_def)
qed

text \<open>What a link carries: the blocks before it have each divided the traffic by their factors.\<close>

definition link_load :: "(string \<Rightarrow> rat) \<Rightarrow> nat list \<Rightarrow> string list list \<Rightarrow> nat \<Rightarrow> rat" where
  "link_load lf c part j = (\<Prod>k | k < length c \<and> c ! k < j. 1 / block_factor lf (part ! k))"

definition at_link :: "nat list \<Rightarrow> nat \<Rightarrow> nat \<Rightarrow> bool" where
  "at_link c n l \<longleftrightarrow> l < length c \<and> (\<forall>k < length c. c ! k + 1 < n \<longrightarrow> k \<le> l) \<and> (\<forall>k < l. c ! k + 1 < n) \<and>
     (n \<le> c ! l + 1 \<or> Suc l = length c)"

lemma at_link_start: "c \<noteq> [] \<Longrightarrow> at_link c 0 0"
  by (simp add: at_link_def)

lemma at_link_place:
  assumes "sorted_wrt (<) c" and "at_link c n l" and "n = c ! l + 1"
  shows "at_link c (n + 1) (if l + 1 < length c then l + 1 else l)"
    and "{k. k < length c \<and> c ! k < n} = insert l {k. k < length c \<and> c ! k < n - 1}"
proof -
  have less: "c ! i < c ! j" if "i < j" "j < length c" for i j
    using assms(1) that by (simp add: sorted_wrt_nth_less)
  have mono: "i \<le> j" if "c ! i \<le> c ! j" "i < length c" "j < length c" for i j
    using less [of j i] that by (meson leD leI)
  have l: "l < length c" using assms(2) by (simp add: at_link_def)
  have "k \<le> l" if "k < length c" "c ! k < n" for k
    using mono [of k l] that l assms(3) by simp
  moreover have "c ! k < n" if "k < l" for k using less [of k l] that l assms(3) by simp
  moreover have "n + 1 \<le> c ! Suc l + 1" if "Suc l < length c" using less [of l "Suc l"] that assms(3) by simp
  ultimately show "at_link c (n + 1) (if l + 1 < length c then l + 1 else l)"
    using l assms(3) by (force simp: at_link_def less_Suc_eq)
  show "{k. k < length c \<and> c ! k < n} = insert l {k. k < length c \<and> c ! k < n - 1}"
  proof (intro set_eqI iffI)
    fix k assume k: "k \<in> {k. k < length c \<and> c ! k < n}"
    then show "k \<in> insert l {k. k < length c \<and> c ! k < n - 1}"
      using mono [of l k] mono [of k l] l assms(3) by (cases "c ! k = c ! l") auto
  qed (use l assms(3) in auto)
qed

lemma at_link_pass:
  assumes "sorted_wrt (<) c" and "at_link c n l" and "n \<noteq> c ! l + 1"
  shows "at_link c (n + 1) l" and "{k. k < length c \<and> c ! k < n} = {k. k < length c \<and> c ! k < n - 1}"
proof -
  have less: "c ! i < c ! j" if "i < j" "j < length c" for i j
    using assms(1) that by (simp add: sorted_wrt_nth_less)
  have no: "c ! k + 1 \<noteq> n" if "k < length c" for k
  proof (cases k l rule: linorder_cases)
    case greater
    with assms(2) that have "n \<le> c ! l + 1" by (auto simp: at_link_def)
    with less [OF greater that] show ?thesis by simp
  qed (use assms that in \<open>auto simp: at_link_def\<close>)
  then show "at_link c (n + 1) l" using assms(2,3) by (force simp: at_link_def less_Suc_eq)
  have "c ! k < n \<longleftrightarrow> c ! k < n - 1" if "k < length c" for k using no [OF that] by auto
  then show "{k. k < length c \<and> c ! k < n} = {k. k < length c \<and> c ! k < n - 1}" by blast
qed

lemma link_costs_loads:
  assumes "distinct names" and "\<forall>n \<in> set names. lf n \<noteq> 0" and "set (concat part) \<subseteq> set names"
    and "sorted_wrt (<) c" and "length c = length part"
  shows "at_link c n l \<Longrightarrow> num_val prev = link_load lf c part (n - 1) \<Longrightarrow>
    \<exists>ys. link_costs c (float_factors lf names) part prev n l links = Inr ys \<and>
         map num_val ys = map (link_load lf c part) [n..<n + length links]"
proof (induction links arbitrary: n l prev)
  case Nil
  then show ?case by simp
next
  case (Cons link links)
  have l: "l < length c" using Cons.prems(1) by (simp add: at_link_def)
  have range: "[n..<n + length (link # links)] = n # [n + 1..<n + 1 + length links]"
    by (simp add: upt_rec)
  show ?case
  proof (cases "n = c ! l + 1")
    case True
    obtain y where y: "get_cost_change prev (float_factors lf names) (part ! l) = Inr y"
        "num_val y = num_val prev / block_factor lf (part ! l)"
      using cost_change [OF assms(1,2), of "part ! l" prev] assms(3,5) l by (force dest: nth_mem)
    have "num_val y = link_load lf c part n"
      unfolding y(2) Cons.prems(2) link_load_def at_link_place(2) [OF assms(4) Cons.prems(1) True]
      by (subst prod.insert) (use True in auto)
    moreover have "\<exists>ys. link_costs c (float_factors lf names) part y (n + 1) (if l + 1 < length c then l + 1 else l) links = Inr ys \<and>
        map num_val ys = map (link_load lf c part) [n + 1..<n + 1 + length links]"
      using calculation by (intro Cons.IH at_link_place(1) [OF assms(4) Cons.prems(1) True]) simp
    ultimately show ?thesis
      using True l y(1) assms(5) unfolding range by (fastforce simp: list_getitem_def Let_def)
  next
    case False
    have "link_load lf c part (n - 1) = link_load lf c part n"
      using at_link_pass(2) [OF assms(4) Cons.prems(1) False] by (simp add: link_load_def)
    moreover have "\<exists>ys. link_costs c (float_factors lf names) part prev (n + 1) l links = Inr ys \<and>
        map num_val ys = map (link_load lf c part) [n + 1..<n + 1 + length links]"
      using calculation Cons.prems(2) by (intro Cons.IH at_link_pass(1) [OF assms(4) Cons.prems(1) False]) simp
    ultimately show ?thesis
      using False l Cons.prems(2) unfolding range by (fastforce simp: list_getitem_def)
  qed
qed

lemma num_val_total: "num_val (foldl num_add x ys) = num_val x + sum_list (map num_val ys)"
  by (induction ys arbitrary: x) (simp_all add: add.assoc)

text \<open>
  C27. The cost of an assignment: with float factors, the incremental loop of
  \<^verbatim>\<open>_calculate_combinations_link_cost\<close> never raises and sums, over the links of the chain, the traffic
  the link carries when every block placed before it has divided the traffic by the factors of its
  elements.
\<close>

theorem combination_cost:
  assumes "distinct names" and "\<forall>n \<in> set names. lf n \<noteq> 0" and "set (concat part) \<subseteq> set names"
    and "sorted_wrt (<) c" and "length c = length part" and "part \<noteq> []"
  shows "\<exists>t. calculate_combinations_link_cost links c (float_factors lf names) part = Inr t \<and>
    num_val t = (\<Sum>j<length links. link_load lf c part j)"
proof -
  have "at_link c 0 0" using assms(5,6) by (intro at_link_start) auto
  moreover have "num_val (NI 1) = link_load lf c part (0 - 1)" by (simp add: link_load_def)
  ultimately obtain ys where ys: "link_costs c (float_factors lf names) part (NI 1) 0 0 links = Inr ys"
      "map num_val ys = map (link_load lf c part) [0..<length links]"
    using link_costs_loads [OF assms(1-5), of 0 0 "NI 1" links] by auto
  then have "num_val (foldl num_add (NI 0) ys) = (\<Sum>j<length links. link_load lf c part j)"
    unfolding num_val_total by (simp add: interv_sum_list_conv_sum_set_nat atLeast0LessThan)
  with ys(1) show ?thesis by (simp add: calculate_combinations_link_cost_def)
qed

theorem combination_cost_witness:
  "\<exists>t. calculate_combinations_link_cost (chain_links [''a'', ''b'']) [0, 1]
         (float_factors (\<lambda>_. 2) [''a'', ''b'']) [[''a''], [''b'']] = Inr t \<and>
       num_val t = (\<Sum>j<length (chain_links [''a'', ''b'']). link_load (\<lambda>_. 2) [0, 1] [[''a''], [''b'']] j)"
  by (rule combination_cost) auto

section \<open>The least cost\<close>

lemma loop_foldl:
  assumes "\<forall>part \<in> set ps. \<forall>c \<in> set (combinations locs (length part)). cost part c = Inr (f part c)"
  shows "least_cost_loop cost locs ps s = Inr (foldl (\<lambda>s (part, c). consider_combination part c (f part c) s) s
           (concat (map (\<lambda>part. map (Pair part) (combinations locs (length part))) ps)))"
proof -
  have inner: "rfoldM (\<lambda>s c. rbind (cost part c) (\<lambda>x. Inr (consider_combination part c x s))) s cs =
      Inr (foldl (\<lambda>s (part, c). consider_combination part c (f part c) s) s (map (Pair part) cs))"
    if "\<forall>c \<in> set cs. cost part c = Inr (f part c)" for part cs s
    using that by (induction cs arbitrary: s) auto
  show ?thesis
    using assms unfolding least_cost_loop_def by (induction ps arbitrary: s) (auto simp: inner)
qed

abbreviation consider_all :: "(string list list \<Rightarrow> nat list \<Rightarrow> pynum) \<Rightarrow> least_cost \<Rightarrow> (string list list \<times> nat list) list \<Rightarrow> least_cost" where
  "consider_all f s xs \<equiv> foldl (\<lambda>s (part, c). consider_combination part c (f part c) s) s xs"

lemma consider_accept:
  assumes "num_val x \<le> num_val (min_combination_cost s)"
  shows "min_combination_cost (consider_combination part c x s) = x"
    and "min_cost_combination (consider_combination part c x s) = Some c"
    and "min_cost_partition (consider_combination part c x s) \<in> {Some part, min_cost_partition s} - {None}"
  using assms by (auto simp: consider_combination_def split: option.splits)

lemma consider_reject: "\<not> num_val x \<le> num_val (min_combination_cost s) \<Longrightarrow> consider_combination part c x s = s"
  by (simp add: consider_combination_def)

lemma consider_cost:
  "num_val (min_combination_cost (consider_combination part c x s)) = min (num_val x) (num_val (min_combination_cost s))"
  by (cases "num_val x \<le> num_val (min_combination_cost s)") (simp_all add: consider_accept(1) consider_reject)

lemma consider_all_bound: "num_val (min_combination_cost (consider_all f s xs)) \<le> num_val (min_combination_cost s)"
  by (induction xs rule: rev_induct) (auto simp: consider_cost min.coboundedI2)

lemma consider_all_minimal:
  "(part, c) \<in> set xs \<Longrightarrow> num_val (min_combination_cost (consider_all f s xs)) \<le> num_val (f part c)"
proof (induction xs arbitrary: s)
  case (Cons x xs)
  show ?case
  proof (cases "x = (part, c)")
    case True
    with consider_all_bound [of f "consider_combination part c (f part c) s" xs] show ?thesis
      by (simp add: consider_cost)
  next
    case False
    with Cons show ?thesis by (cases x) auto
  qed
qed simp

definition attained :: "(string list list \<Rightarrow> nat list \<Rightarrow> pynum) \<Rightarrow> (string list list \<times> nat list) list \<Rightarrow> least_cost \<Rightarrow> bool" where
  "attained f xs s \<longleftrightarrow> (\<exists>part c. (part, c) \<in> set xs \<and> min_cost_combination s = Some c \<and> min_combination_cost s = f part c) \<and>
     (\<exists>part c. (part, c) \<in> set xs \<and> min_cost_partition s = Some part)"

lemma consider_all_attained:
  assumes "min_cost_partition s = None"
  shows "attained f xs (consider_all f s xs) \<or> consider_all f s xs = s"
proof (induction xs rule: rev_induct)
  case (snoc x xs)
  obtain part c where x: "x = (part, c)" by (cases x)
  let ?t = "consider_all f s xs"
  show ?case
  proof (cases "num_val (f part c) \<le> num_val (min_combination_cost ?t)")
    case True
    have "\<exists>part' c'. (part', c') \<in> set (xs @ [x]) \<and>
        min_cost_partition (consider_combination part c (f part c) ?t) = Some part'"
      using consider_accept(3) [OF True, of part c] snoc.IH assms unfolding x attained_def by auto
    with consider_accept(1,2) [OF True] show ?thesis unfolding x attained_def by auto
  next
    case False
    then show ?thesis using snoc.IH unfolding x attained_def by (auto simp: consider_reject)
  qed
qed simp

lemma consider_all_finds:
  assumes "min_cost_partition s = None" and "(part, c) \<in> set xs" and "num_val (f part c) \<le> num_val (min_combination_cost s)"
  shows "attained f xs (consider_all f s xs)"
  using assms(2)
proof (induction xs rule: rev_induct)
  case (snoc x xs)
  obtain part' c' where x: "x = (part', c')" by (cases x)
  let ?t = "consider_all f s xs"
  have "attained f (xs @ [x]) (consider_all f s (xs @ [x])) \<or> consider_all f s (xs @ [x]) = s"
    by (rule consider_all_attained [OF assms(1)])
  moreover have "attained f xs ?t \<or> (part, c) = x" using snoc by auto
  moreover have "attained f (xs @ [x]) (consider_all f s (xs @ [x]))"
    if "consider_all f s (xs @ [x]) = s" "(part, c) = x"
  proof -
    have "part' = part" "c' = c" using that(2) by (simp_all add: x)
    then have here: "consider_combination part c (f part c) ?t = s" using that(1) by (simp add: x)
    have "num_val (f part c) \<le> num_val (min_combination_cost ?t)"
    proof (rule ccontr)
      assume no: "\<not> num_val (f part c) \<le> num_val (min_combination_cost ?t)"
      have eq: "?t = s" using consider_reject [OF no, of part c] here by (rule trans [OF sym])
      show False using no assms(3) unfolding eq by (rule notE)
    qed
    then have "min_cost_partition s \<noteq> None" using consider_accept(3) [of "f part c" ?t part c] unfolding here by auto
    with that assms(1) show ?thesis by auto
  qed
  moreover have "attained f (xs @ [x]) (consider_all f s (xs @ [x]))"
    if "consider_all f s (xs @ [x]) = s" "attained f xs ?t"
  proof (cases "num_val (f part' c') \<le> num_val (min_combination_cost ?t)")
    case True
    with consider_accept(3) [OF True, of part' c'] that(1) assms(1) show ?thesis by (auto simp: x)
  next
    case False
    then have "?t = s" using that(1) by (simp add: x consider_reject)
    with that(2) assms(1) show ?thesis by (auto simp: attained_def)
  qed
  ultimately show ?case by blast
qed simp

lemma combinations_length: "c \<in> set (combinations xs r) \<Longrightarrow> length c = r"
  by (induction xs r arbitrary: c rule: combinations.induct) auto

definition loc_name :: "nat \<Rightarrow> nat \<Rightarrow> string" where
  "loc_name n pos = (if pos = 0 then ''SRCS'' else if pos = n - 1 then ''DESTS'' else ''ANY'')"

lemma translate_locs:
  assumes "2 \<le> length element_names"
  shows "translate_virtual_locs_to_place element_names (Some locs) = Inr (map (loc_name (length element_names)) locs)"
proof -
  have "concat (map (\<lambda>pos. (if pos = 0 then [''SRCS''] else []) @
          (if int pos = int (length element_names) - 1 then [''DESTS''] else []) @
          (if int pos \<noteq> int (length element_names) - 1 \<and> pos \<noteq> 0 then [''ANY''] else [])) locs) =
        map (loc_name (length element_names)) locs"
    using assms by (induction locs) (auto simp: loc_name_def)
  then show ?thesis by (simp add: translate_virtual_locs_to_place_def)
qed

text \<open>
  C20. \<^verbatim>\<open>get_least_cost_assignment\<close> finds the least cost: for a chain of two or more elements whose
  assignments can all be costed, and one of which stays within the initial bound, the locations it
  returns are those of an assignment that no other assignment of any valid partition beats, and the
  partition it returns is one of the valid ones.
\<close>

theorem least_cost_assignment:
  assumes "2 \<le> length names"
    and "\<forall>part \<in> set valid. \<forall>c \<in> set (combinations [0..<length names] (length part)).
           calculate_combinations_link_cost (chain_links names) c legs part = Inr (cost part c)"
    and "\<exists>part \<in> set valid. \<exists>c \<in> set (combinations [0..<length names] (length part)). num_val (cost part c) \<le> 1000000000"
  shows "\<exists>part c chosen. get_least_cost_assignment nm valid names legs = Inr (Some chosen, Some (map (loc_name (length names)) c)) \<and>
    chosen \<in> set valid \<and> part \<in> set valid \<and> c \<in> set (combinations [0..<length names] (length part)) \<and>
    (\<forall>part' \<in> set valid. \<forall>c' \<in> set (combinations [0..<length names] (length part')). num_val (cost part c) \<le> num_val (cost part' c'))"
proof -
  let ?xs = "concat (map (\<lambda>part. map (Pair part) (combinations [0..<length names] (length part))) valid)"
  let ?s = "consider_all cost least_cost_init ?xs"
  have member: "(part, c) \<in> set ?xs \<longleftrightarrow> part \<in> set valid \<and> c \<in> set (combinations [0..<length names] (length part))" for part c
    by auto
  obtain p0 c0 where "(p0, c0) \<in> set ?xs" "num_val (cost p0 c0) \<le> num_val (min_combination_cost least_cost_init)"
    using assms(3) unfolding member by (auto simp: least_cost_init_def)
  then have "attained cost ?xs ?s" by (intro consider_all_finds) (simp add: least_cost_init_def)
  then obtain part c chosen c' where best: "(part, c) \<in> set ?xs" "min_cost_combination ?s = Some c"
      "min_combination_cost ?s = cost part c" "(chosen, c') \<in> set ?xs" "min_cost_partition ?s = Some chosen"
    unfolding attained_def by blast
  have "least_cost_loop (\<lambda>part c. calculate_combinations_link_cost (chain_links names) c legs part)
      [0..<length names] valid least_cost_init = Inr ?s"
    by (rule loop_foldl [OF assms(2)])
  then have "get_least_cost_assignment nm valid names legs = Inr (Some chosen, Some (map (loc_name (length names)) c))"
    using assms(1) best(2,5) translate_locs [OF assms(1)] by (auto simp: get_least_cost_assignment_def)
  moreover have "num_val (cost part c) \<le> num_val (cost part' c')"
    if "part' \<in> set valid" "c' \<in> set (combinations [0..<length names] (length part'))" for part' c'
    using consider_all_minimal [of part' c' ?xs cost least_cost_init] that best(3) member by simp
  ultimately show ?thesis using best(1,4) unfolding member by blast
qed

definition two_chain_cost :: "string list list \<Rightarrow> nat list \<Rightarrow> pynum" where
  "two_chain_cost part c =
     (case calculate_combinations_link_cost (chain_links [''a'', ''b'']) c (float_factors (\<lambda>_. 2) [''a'', ''b'']) part of
        Inr t \<Rightarrow> t | Inl _ \<Rightarrow> NI 0)"

lemma two_chain_costs:
  "\<forall>part \<in> set [[[''a'', ''b'']], [[''a''], [''b'']]]. \<forall>c \<in> set (combinations [0..<length [''a'', ''b'']] (length part)).
     calculate_combinations_link_cost (chain_links [''a'', ''b'']) c (float_factors (\<lambda>_. 2) [''a'', ''b'']) part =
       Inr (two_chain_cost part c)"
  by code_simp

lemma two_chain_cheap: "num_val (two_chain_cost [[''a''], [''b'']] [0, 1]) \<le> 1000000000"
  by code_simp

theorem least_cost_assignment_witness:
  "\<exists>part c chosen. get_least_cost_assignment (net_model_init []) [[[''a'', ''b'']], [[''a''], [''b'']]] [''a'', ''b'']
       (float_factors (\<lambda>_. 2) [''a'', ''b'']) = Inr (Some chosen, Some (map (loc_name 2) c)) \<and>
     chosen \<in> {[[''a'', ''b'']], [[''a''], [''b'']]} \<and> part \<in> {[[''a'', ''b'']], [[''a''], [''b'']]} \<and>
     c \<in> set (combinations [0, 1] (length part)) \<and> num_val (two_chain_cost part c) \<le> num_val (two_chain_cost [[''a''], [''b'']] [0, 1])"
proof -
  have locs: "[0..<length [''a'', ''b'']] = [0, 1]" by (simp add: upt_rec)
  have "\<exists>part \<in> set [[[''a'', ''b'']], [[''a''], [''b'']]]. \<exists>c \<in> set (combinations [0..<length [''a'', ''b'']] (length part)).
      num_val (two_chain_cost part c) \<le> 1000000000"
    using two_chain_cheap unfolding locs by (simp add: numeral_2_eq_2)
  from least_cost_assignment [OF _ two_chain_costs this, of "net_model_init []"] show ?thesis
    unfolding locs by (auto simp: numeral_2_eq_2)
qed

definition split_factors :: leg_factors where
  "split_factors = [(''a'', PvNum 4), (''b'', PvNum (1 / 2)), (''c'', PvNum (1 / 2))]"

definition split_partitions :: "string list list list" where
  "split_partitions = [[[''a'', ''b'', ''c'']], [[''a'', ''b''], [''c'']], [[''a''], [''b'', ''c'']], [[''a''], [''b''], [''c'']]]"

text \<open>
  The partition and the locations returned need not belong together: the locations are replaced
  whenever an assignment is as cheap, the partition only when it has more blocks.  For a chain whose
  factors are 4, 1/2 and 1/2, and its valid partitions from coarse to fine, the answer pairs the blocks
  \<open>{a, b}, {c}\<close> with the locations of the optimal assignment of \<open>{a}, {b, c}\<close>; the pair costs 3, not
  the least cost 5/2.
\<close>

lemma least_cost_mismatch:
  "get_least_cost_assignment nm split_partitions [''a'', ''b'', ''c''] split_factors =
     Inr (Some [[''a'', ''b''], [''c'']], Some (map (loc_name 3) [0, 2])) \<and>
   map_sum id num_val (calculate_combinations_link_cost (chain_links [''a'', ''b'', ''c'']) [0, 2] split_factors
     [[''a'', ''b''], [''c'']]) = Inr 3 \<and>
   map_sum id num_val (calculate_combinations_link_cost (chain_links [''a'', ''b'', ''c'']) [0, 2] split_factors
     [[''a''], [''b'', ''c'']]) = Inr (5 / 2)"
proof (intro conjI)
  have "least_cost_loop (\<lambda>part c. calculate_combinations_link_cost (chain_links [''a'', ''b'', ''c'']) c split_factors part)
      [0..<length [''a'', ''b'', ''c'']] split_partitions least_cost_init =
    Inr \<lparr>min_combination_cost = NF (5 / 2), min_cost_combination = Some [0, 2],
         min_cost_partition = Some [[''a'', ''b''], [''c'']]\<rparr>"
    by code_simp
  then show "get_least_cost_assignment nm split_partitions [''a'', ''b'', ''c''] split_factors =
     Inr (Some [[''a'', ''b''], [''c'']], Some (map (loc_name 3) [0, 2]))"
    using translate_locs [of "[''a'', ''b'', ''c'']" "[0, 2]"] by (simp add: get_least_cost_assignment_def numeral_3_eq_3)
qed code_simp+

text \<open>
  A chain that names an element twice cannot be placed: the ordered set drops the repetition, no
  partition of it lists the whole chain, and the search ends in a \<^verbatim>\<open>TypeError\<close>, although the
  interface of a placement module allows repeats.
\<close>

lemma repeated_element_raises:
  assumes "\<not> distinct names" and "\<forall>part \<in> set (partitions_of (dedup names)). distinct (concat part)"
  shows "get_least_cost_assignment nm (generate_consolidation_combinations partitions_of names) names legs = Inl TypeError"
proof -
  have "\<not> is_valid_partition names part" if "part \<in> set (partitions_of (dedup names))" for part
  proof
    assume "is_valid_partition names part"
    then have "filter (\<lambda>item. item \<in> set names) (concat part) = names"
      by (simp add: is_valid_partition_def filter_concat split: if_splits)
    with assms that show False by (metis distinct_filter)
  qed
  then have "generate_consolidation_combinations partitions_of names = []"
    by (simp add: generate_consolidation_combinations_def filter_empty_conv)
  moreover have "length names \<noteq> 1" "names \<noteq> []" using assms(1) by (auto simp: length_Suc_conv)
  ultimately show ?thesis
    by (simp add: get_least_cost_assignment_def least_cost_loop_def least_cost_init_def translate_virtual_locs_to_place_def)
qed

lemma repeated_element_raises_example:
  "get_least_cost_assignment (net_model_init []) (generate_consolidation_combinations (\<lambda>xs. [[xs]]) [''a'', ''a''])
     [''a'', ''a''] [] = Inl TypeError"
  by (rule repeated_element_raises) simp_all

end
