(* ===== verification/Traffic_Matrix.thy ===== *)
theory Traffic_Matrix
  imports L2_State
begin

text \<open>
  Traffic matrices: the per-flow counters the forwarding component keeps for every link of the
  shortest paths (\<^verbatim>\<open>FlowMatrix\<close>, \<^verbatim>\<open>get_tm_entry\<close>, \<^verbatim>\<open>is_traffic_present\<close>, \<^verbatim>\<open>_update_tm\<close> in
  \<^verbatim>\<open>l2_multi_slick.py\<close>), and the matrices read from a file (\<^verbatim>\<open>placement/tm.py\<close>).
\<close>

section \<open>Counters of the forwarding component\<close>

text \<open>\<^verbatim>\<open>flow_tm\<close> is a defaultdict of defaultdicts: reading a missing entry inserts \<^verbatim>\<open>None\<close>.\<close>

definition fm_touch :: "dpid \<times> dpid \<Rightarrow> flow_matrix \<Rightarrow> flow_matrix" where
  "fm_touch k fm = fm\<lparr>flow_tm := ddict_touch None k (flow_tm fm)\<rparr>"

definition fm_entry :: "flow_matrix \<Rightarrow> dpid \<times> dpid \<Rightarrow> int option" where
  "fm_entry fm k = (case map_of (flow_tm fm) k of None \<Rightarrow> None | Some v \<Rightarrow> v)"

definition count_truthy :: "int option \<Rightarrow> bool" where
  "count_truthy v = (case v of None \<Rightarrow> False | Some n \<Rightarrow> n \<noteq> 0)"

fun get_tm_entry :: "flow_matrix list \<Rightarrow> int \<Rightarrow> dpid \<Rightarrow> dpid \<Rightarrow> flow_matrix list \<times> int option" where
  "get_tm_entry [] flow_id src_switch dst_switch = ([], None)"
| "get_tm_entry (fm # fms) flow_id src_switch dst_switch =
     (if flow_id = fm_flowspace_desc fm then
        let fm' = fm_touch (src_switch, dst_switch) fm in
        if count_truthy (fm_entry fm' (src_switch, dst_switch)) then (fm' # fms, fm_entry fm' (src_switch, dst_switch))
        else (case get_tm_entry fms flow_id src_switch dst_switch of (fms', r) \<Rightarrow> (fm' # fms', r))
      else (case get_tm_entry fms flow_id src_switch dst_switch of (fms', r) \<Rightarrow> (fm # fms', r)))"

definition is_traffic_present :: "flow_matrix list \<Rightarrow> bool" where
  "is_traffic_present flow_matrices = list_ex (\<lambda>fm. length (flow_tm fm) \<noteq> 0) flow_matrices"

text \<open>\<^verbatim>\<open>dump_tm\<close> prints the counters of every pair of switches, and so reads them all.\<close>

definition dump_tm :: "dpid list \<Rightarrow> flow_matrix \<Rightarrow> flow_matrix" where
  "dump_tm sws fm = foldl (\<lambda>fm k. fm_touch k fm) fm (List.product sws sws)"

definition dump_flow_tms :: "dpid list \<Rightarrow> flow_matrix list \<Rightarrow> flow_matrix list" where
  "dump_flow_tms sws fms = map (dump_tm sws) fms"

definition tm_count :: "dpid \<times> dpid \<Rightarrow> flow_matrix \<Rightarrow> flow_matrix" where
  "tm_count k fm =
     (let fm' = fm_touch k fm in
      if count_truthy (fm_entry fm' k) then fm'\<lparr>flow_tm := AList.update k (map_option (\<lambda>n. n + 1) (fm_entry fm' k)) (flow_tm fm')\<rparr>
      else fm'\<lparr>flow_tm := AList.update k (Some 1) (flow_tm fm')\<rparr>)"

definition tm_first :: "dpid \<times> dpid \<Rightarrow> flow_matrix \<Rightarrow> flow_matrix" where
  "tm_first k fm = fm\<lparr>flow_tm := AList.update k (Some 1) (flow_tm fm)\<rparr>"

text \<open>The loop over the consecutive switches of a path, dumping all matrices after each; \<open>i\<close> is the
  position of the matrix that is updated.\<close>

definition tm_loop ::
    "dpid list \<Rightarrow> (dpid \<times> dpid \<Rightarrow> flow_matrix \<Rightarrow> flow_matrix) \<Rightarrow> nat \<Rightarrow> flow_matrix list \<Rightarrow> dpid list \<Rightarrow> flow_matrix list" where
  "tm_loop sws bump i fms path =
     foldl (\<lambda>fms k. dump_flow_tms sws (fms[i := bump k (fms ! i)])) fms (zip path (tl path))"

text \<open>\<open>get_generic_flow\<close> and \<open>get_flowspace_desc\<close> are the controller's.  A path that does not end is
  the \<^verbatim>\<open>RuntimeError\<close> of the recursion limit.\<close>

definition update_tm ::
    "(ofp_match \<Rightarrow> flow_tuple option res) \<Rightarrow> (flow_tuple \<Rightarrow> int res) \<Rightarrow> ofp_match \<Rightarrow> dpid \<Rightarrow> dpid \<Rightarrow> l2_state \<Rightarrow>
     l2_state \<times> unit res" where
  "update_tm get_generic_flow get_flowspace_desc flow_match0 src_switch dst_switch s =
     (case get_generic_flow flow_match0 of
        Inl e \<Rightarrow> (s, Inl e)
      | Inr flow_match \<Rightarrow>
          let sws = dict_keys (l2_switches s);
              s1 = s\<lparr>l2_path_map := ensure_paths sws (l2_adjacency s) (l2_path_map s)\<rparr>
          in (case get_raw_path sws (l2_adjacency s) (l2_path_map s) src_switch dst_switch of
                None \<Rightarrow> (s1, Inl RuntimeError)
              | Some (Inl e) \<Rightarrow> (s1, Inl e)
              | Some (Inr None) \<Rightarrow> (s1, Inr ())
              | Some (Inr (Some raw)) \<Rightarrow>
                  if raw = [] then (s1, Inr ())
                  else
                    let shortest_path = [src_switch] @ raw @ [dst_switch] in
                    (case flow_match of
                       None \<Rightarrow> (s1, Inr ())
                     | Some flow \<Rightarrow>
                         (case list_index (map fm_flow (l2_flow_matrices s1)) flow of
                            Some i \<Rightarrow>
                              (s1\<lparr>l2_flow_matrices := tm_loop sws tm_count i (l2_flow_matrices s1) shortest_path\<rparr>, Inr ())
                          | None \<Rightarrow>
                              (case get_flowspace_desc flow of
                                 Inl e \<Rightarrow> (s1, Inl e)
                               | Inr fd \<Rightarrow>
                                   (let fms = l2_flow_matrices s1 @ [\<lparr>fm_flow = flow, flow_tm = [], fm_flowspace_desc = fd\<rparr>]
                                    in (s1\<lparr>l2_flow_matrices := tm_loop sws tm_first (length fms - 1) fms shortest_path\<rparr>,
                                        Inr ())))))))"

section \<open>Matrices from a file\<close>

text \<open>\<^verbatim>\<open>float\<close> of a decimal literal: an optional sign, digits with at most one point, an optional
  exponent.\<close>

definition parse_mantissa :: "string \<Rightarrow> rat res" where
  "parse_mantissa s =
     (case split_on CHR ''.'' s of
        [a] \<Rightarrow> rbind (parse_digits 10 a) (\<lambda>n. Inr (of_nat n))
      | [a, b] \<Rightarrow>
          if a = [] \<and> b = [] then Inl ValueError
          else rbind (if a = [] then Inr 0 else parse_digits 10 a) (\<lambda>n.
               rbind (if b = [] then Inr 0 else parse_digits 10 b) (\<lambda>m.
               Inr (of_nat n + of_nat m / 10 ^ length b)))
      | _ \<Rightarrow> Inl ValueError)"

definition signed :: "(string \<Rightarrow> 'a :: uminus res) \<Rightarrow> string \<Rightarrow> 'a res" where
  "signed parse s =
     (case s of
        CHR ''-'' # ds \<Rightarrow> rbind (parse ds) (\<lambda>v. Inr (- v))
      | CHR ''+'' # ds \<Rightarrow> parse ds
      | _ \<Rightarrow> parse s)"

definition parse_exponent :: "string \<Rightarrow> rat res" where
  "parse_exponent s =
     rbind (signed (\<lambda>ds. rbind (parse_digits 10 ds) (\<lambda>n. Inr (int n))) s) (\<lambda>e.
     Inr (if e \<ge> 0 then 10 ^ nat e else 1 / 10 ^ nat (- e)))"

definition parse_unsigned_float :: "string \<Rightarrow> rat res" where
  "parse_unsigned_float s =
     (case split_on CHR ''e'' (map (\<lambda>c. if c = CHR ''E'' then CHR ''e'' else c) s) of
        [m] \<Rightarrow> parse_mantissa m
      | [m, e] \<Rightarrow> rbind (parse_mantissa m) (\<lambda>q. rbind (parse_exponent e) (\<lambda>f. Inr (q * f)))
      | _ \<Rightarrow> Inl ValueError)"

definition py_float :: "string \<Rightarrow> rat res" where
  "py_float s = signed parse_unsigned_float (strip s)"

type_synonym traffic_matrix = "(nat \<times> nat, rat) dict"

fun read_row :: "nat \<Rightarrow> nat \<Rightarrow> string list \<Rightarrow> traffic_matrix \<Rightarrow> traffic_matrix res" where
  "read_row row col [] m = Inr m"
| "read_row row col (data_rate # rates) m =
     rbind (py_float data_rate) (\<lambda>q. read_row row (col + 1) rates (AList.update (row, col) q m))"

text \<open>The first line is skipped; \<^verbatim>\<open>line_count\<close> is 1 when the second is read.  The older reader takes
  the row modulo 1, so every line overwrites row 0.\<close>

fun read_lines :: "(nat \<Rightarrow> nat) \<Rightarrow> nat \<Rightarrow> nat \<Rightarrow> string list \<Rightarrow> traffic_matrix \<Rightarrow> traffic_matrix res" where
  "read_lines row_of col0 line_count [] m = Inr m"
| "read_lines row_of col0 line_count (line # lines) m =
     (if line_count < 1 then read_lines row_of col0 (line_count + 1) lines m
      else rbind (read_row (row_of line_count) col0 (split_on CHR '','' line) m) (\<lambda>m'.
           read_lines row_of col0 (line_count + 1) lines m'))"

definition get_traffic_matrix :: "string list option \<Rightarrow> traffic_matrix res" where
  "get_traffic_matrix t_file =
     (case t_file of None \<Rightarrow> Inr [] | Some lines \<Rightarrow> read_lines (\<lambda>line_count. line_count mod 1) 0 0 lines [])"

definition get_traffic_matrix_new :: "string list option \<Rightarrow> traffic_matrix res" where
  "get_traffic_matrix_new t_file =
     (case t_file of None \<Rightarrow> Inr [] | Some lines \<Rightarrow> read_lines (\<lambda>line_count. line_count + 1) 1 0 lines [])"

definition get_sources_and_destinations :: "traffic_matrix \<Rightarrow> nat list \<times> nat list" where
  "get_sources_and_destinations traffic_matrix =
     foldl (\<lambda>(sources, destinations) (key, value).
        if value \<noteq> 0 then
          (if fst key \<notin> set sources then sources @ [fst key] else sources,
           if snd key \<notin> set destinations then destinations @ [snd key] else destinations)
        else (sources, destinations)) ([], []) traffic_matrix"

section \<open>What the counters count\<close>

lemma fm_entry_touch [simp]: "fm_entry (fm_touch k fm) = fm_entry fm"
  by (auto simp: fun_eq_iff fm_entry_def fm_touch_def map_of_ddict_touch)

lemma fm_flow_touch [simp]: "fm_flow (fm_touch k fm) = fm_flow fm"
  by (simp add: fm_touch_def)

lemma fm_entry_dump [simp]: "fm_entry (dump_tm sws fm) = fm_entry fm"
proof -
  have "fm_entry (foldl (\<lambda>fm k. fm_touch k fm) fm ks) = fm_entry fm" for ks
    by (induction ks arbitrary: fm) auto
  then show ?thesis by (simp add: dump_tm_def)
qed

abbreviation counter :: "flow_matrix \<Rightarrow> dpid \<times> dpid \<Rightarrow> int" where
  "counter fm k \<equiv> (case fm_entry fm k of None \<Rightarrow> 0 | Some n \<Rightarrow> n)"

lemma fm_entry_count: "fm_entry (tm_count k fm) k' = (if k' = k then Some (counter fm k + 1) else fm_entry fm k')"
  by (auto simp: tm_count_def Let_def count_truthy_def fm_entry_def fm_touch_def map_of_ddict_touch split: option.splits)

lemma tm_loop_length [simp]: "length (tm_loop sws bump i fms path) = length fms"
proof -
  have "length (foldl (\<lambda>fms k. dump_flow_tms sws (fms[i := bump k (fms ! i)])) fms ks) = length fms" for ks
    by (induction ks arbitrary: fms) (auto simp: dump_flow_tms_def)
  then show ?thesis by (simp add: tm_loop_def)
qed

lemma tm_loop_counts:
  assumes "distinct path" and "i < length fms" and "j < length fms"
  shows "fm_entry (tm_loop sws tm_count i fms path ! j) k =
    (if j = i \<and> k \<in> set (zip path (tl path)) then Some (counter (fms ! i) k + 1) else fm_entry (fms ! j) k)"
proof -
  have "fm_entry (foldl (\<lambda>fms k. dump_flow_tms sws (fms[i := tm_count k (fms ! i)])) fms ks ! j) k =
      (if j = i \<and> k \<in> set ks then Some (counter (fms ! i) k + 1) else fm_entry (fms ! j) k)"
    if "distinct ks" "i < length fms" "j < length fms" for ks fms
    using that by (induction ks arbitrary: fms) (auto simp: dump_flow_tms_def fm_entry_count nth_list_update)
  moreover have "distinct (zip path (tl path))" using assms(1) by (simp add: distinct_zipI1)
  ultimately show ?thesis using assms(2,3) by (simp add: tm_loop_def)
qed

text \<open>
  \<^verbatim>\<open>_update_tm\<close> for a flow that has a matrix: every link of the shortest path between the two
  switches is counted once more in the matrix of the flow, every other counter of every matrix keeps
  its value, and traffic between two switches that are directly connected is not counted at all.
\<close>

lemma update_tm_counts:
  assumes "get_generic_flow m = Inr (Some flow)" and "list_index (map fm_flow (l2_flow_matrices s)) flow = Some i"
    and "get_raw_path (dict_keys (l2_switches s)) (l2_adjacency s) (l2_path_map s) a b = Some (Inr (Some raw))"
    and "distinct ([a] @ raw @ [b])"
  shows "\<exists>s'. update_tm get_generic_flow get_flowspace_desc m a b s = (s', Inr ()) \<and>
    length (l2_flow_matrices s') = length (l2_flow_matrices s) \<and>
    (\<forall>j < length (l2_flow_matrices s). \<forall>k. fm_entry (l2_flow_matrices s' ! j) k =
       (if j = i \<and> raw \<noteq> [] \<and> k \<in> set (zip ([a] @ raw @ [b]) (raw @ [b]))
        then Some (counter (l2_flow_matrices s ! i) k + 1) else fm_entry (l2_flow_matrices s ! j) k))"
proof (cases "raw = []")
  case True
  with assms show ?thesis by (simp add: update_tm_def Let_def)
next
  case False
  have i: "i < length (l2_flow_matrices s)" using list_index_nth [OF assms(2)] by simp
  have path: "tl ([a] @ raw @ [b]) = raw @ [b]" by simp
  from False assms show ?thesis
    using tm_loop_counts [OF assms(4) i, unfolded path] by (simp add: update_tm_def Let_def)
qed

definition line_state :: l2_state where
  "line_state = l2_init\<lparr>l2_switches := map (\<lambda>n. (n, \<lparr>sw_connected = True, sw_ports = Some [1, 2], sw_connected_at = Some 0\<rparr>))
       [1, 2, 3, 4],
     l2_adjacency := line_adjacency,
     l2_flow_matrices := [\<lparr>fm_flow = web_tuple, flow_tm = [((1, 2), Some 5)], fm_flowspace_desc = 0\<rparr>]\<rparr>"

lemma line_raw_path:
  "\<exists>raw. get_raw_path [1, 2, 3, 4] line_adjacency [] 1 3 = Some (Inr (Some raw)) \<and> walk (edge line_adjacency) 1 raw 3 \<and> length raw \<le> 1"
proof -
  have walk: "walk (edge line_adjacency) 1 [2] 3 \<and> set [2] \<subseteq> set [1, 2, 3, 4 :: int]"
    by (simp add: edge_def adj_def adj_row_def line_adjacency_def)
  have known: "(1 :: int) \<in> set [1, 2, 3, 4]" "(3 :: int) \<in> set [1, 2, 3, 4]" "(1 :: int) \<noteq> 3" by simp_all
  from get_raw_path_shortest [OF line_wf known] walk show ?thesis
    by (metis One_nat_def list.size(3) list.size(4) add_0)
qed

lemma update_tm_counts_example:
  "\<exists>s'. update_tm (\<lambda>_. Inr (Some web_tuple)) (\<lambda>_. Inr 0) web_packet 1 3 line_state = (s', Inr ()) \<and>
     fm_entry (l2_flow_matrices s' ! 0) (1, 2) = Some 6 \<and> fm_entry (l2_flow_matrices s' ! 0) (2, 3) = Some 1"
proof -
  obtain raw where raw: "get_raw_path [1, 2, 3, 4] line_adjacency [] 1 3 = Some (Inr (Some raw))"
      "walk (edge line_adjacency) 1 raw 3" "length raw \<le> 1"
    using line_raw_path by blast
  have "\<not> edge line_adjacency 1 3" "edge line_adjacency 1 k \<Longrightarrow> k = 2" for k
    by (auto simp: edge_def adj_def adj_row_def line_adjacency_def split: if_splits)
  with raw(2,3) have two: "raw = [2]" by (cases raw) auto
  have state: "dict_keys (l2_switches line_state) = [1, 2, 3, 4]" "l2_adjacency line_state = line_adjacency"
      "l2_path_map line_state = []"
      "l2_flow_matrices line_state = [\<lparr>fm_flow = web_tuple, flow_tm = [((1, 2), Some 5)], fm_flowspace_desc = 0\<rparr>]"
    by (simp_all add: line_state_def l2_init_def)
  have "list_index (map fm_flow (l2_flow_matrices line_state)) web_tuple = Some 0"
    by (simp add: state list_index_def)
  from update_tm_counts [OF _ this, of "\<lambda>_. Inr (Some web_tuple)" web_packet 1 3 raw "\<lambda>_. Inr 0"] raw(1) show ?thesis
    unfolding state two by (auto simp: fm_entry_def)
qed

text \<open>The sources and destinations of a matrix are those of its non-zero entries, each once.\<close>

lemma sources_and_destinations:
  "get_sources_and_destinations tm =
     (dedup (map (\<lambda>(k, v). fst k) (filter (\<lambda>(k, v). v \<noteq> 0) tm)), dedup (map (\<lambda>(k, v). snd k) (filter (\<lambda>(k, v). v \<noteq> 0) tm)))"
  by (induction tm rule: rev_induct) (auto simp: get_sources_and_destinations_def dedup_snoc split: prod.splits)

end
