(* ===== verification/Placement.thy ===== *)
theory Placement
  imports Consolidation Traffic_Matrix
begin

text \<open>
  Placement: the machines the elements of a chain are installed on (\<^verbatim>\<open>placement/*.py\<close>).  The modules
  \<^verbatim>\<open>RandomPlacement\<close>, \<^verbatim>\<open>RoundRobinPlacement\<close>, \<^verbatim>\<open>IncrementalKPlacement\<close>, \<^verbatim>\<open>WeightedPlacement\<close>, \<^verbatim>\<open>KPlacement\<close>
  and \<^verbatim>\<open>NetworkAwarePlacement\<close>; what the controller relies on is the locale \<open>placement_module\<close>.

  Arguments stand for code outside the repository: the random stream, the centralities
  \<^verbatim>\<open>networkx\<close> computes (the items of the dictionary it returns), the partitioner \<^verbatim>\<open>metis\<close> and the set
  partitions of \<^verbatim>\<open>partitionsets\<close>.
\<close>

definition mac_truthy :: "mac \<Rightarrow> bool" where
  "mac_truthy m = (case m of MacInt n \<Rightarrow> n \<noteq> 0 | MacStr s \<Rightarrow> s \<noteq> [])"

section \<open>RandomPlacement\<close>

definition rnd_choice :: "(nat \<Rightarrow> nat) \<Rightarrow> nat \<Rightarrow> 'a list \<Rightarrow> 'a" where
  "rnd_choice rnd k xs = xs ! (rnd k mod length xs)"

fun random_get_placement :: "(nat \<Rightarrow> nat) \<Rightarrow> mac_to_ip \<Rightarrow> nat \<Rightarrow> string list \<Rightarrow> mac list option" where
  "random_get_placement rnd m2i k [] = Some []"
| "random_get_placement rnd m2i k (elem_name # elements_to_install) =
     (let machines = get_compatible_machines m2i elem_name in
      if length machines = 0 then None
      else map_option (\<lambda>rv. rnd_choice rnd k machines # rv) (random_get_placement rnd m2i (Suc k) elements_to_install))"

section \<open>RoundRobinPlacement\<close>

record round_robin =
  elem_name_to_machine_macs :: "(string, mac list) dict"
  rr_used_macs :: "mac list"

definition round_robin_init :: round_robin where
  "round_robin_init = \<lparr>elem_name_to_machine_macs = [], rr_used_macs = []\<rparr>"

definition get_next_machine :: "mac_to_ip \<Rightarrow> round_robin \<Rightarrow> string \<Rightarrow> round_robin \<times> mac option" where
  "get_next_machine m2i rr elem_name =
     (let machines = get_compatible_machines m2i elem_name in
      if length machines = 0 then (rr, None)
      else
        let macs = ddict_touch [] elem_name (elem_name_to_machine_macs rr);
            mine = the (map_of macs elem_name)
        in (case find (\<lambda>machine_mac. machine_mac \<notin> set mine \<and> machine_mac \<notin> set (rr_used_macs rr)) machines of
              Some machine_mac \<Rightarrow>
                (rr\<lparr>rr_used_macs := rr_used_macs rr @ [machine_mac],
                    elem_name_to_machine_macs := AList.update elem_name (mine @ [machine_mac]) macs\<rparr>, Some machine_mac)
            | None \<Rightarrow>
                (rr\<lparr>elem_name_to_machine_macs := AList.update elem_name [machines ! 0] macs\<rparr>, Some (machines ! 0))))"

fun rr_get_placement :: "mac_to_ip \<Rightarrow> round_robin \<Rightarrow> string list \<Rightarrow> round_robin \<times> mac option list" where
  "rr_get_placement m2i rr [] = (rr, [])"
| "rr_get_placement m2i rr (elem_name # elements_to_install) =
     (case get_next_machine m2i rr elem_name of
        (rr', machine) \<Rightarrow>
          (case rr_get_placement m2i rr' elements_to_install of (rr'', rv) \<Rightarrow> (rr'', machine # rv)))"

section \<open>Choosing a central machine\<close>

text \<open>The methods \<^verbatim>\<open>_get_switch_machine\<close>, \<^verbatim>\<open>_select_not_used_machine\<close> and the body of
  \<^verbatim>\<open>_get_betweenness_centrality\<close> are the same text in the four centrality-based modules; they are
  modelled once.  The state is the list \<^verbatim>\<open>_used_macs\<close>.\<close>

type_synonym centralities = "(dpid \<times> rat) list"

definition get_switch_machine :: "net_model \<Rightarrow> dpid \<Rightarrow> mac list \<Rightarrow> mac option res" where
  "get_switch_machine nm switch_mac machines =
     rfind (\<lambda>machine. rbind (get_connected_switch (nm_overlay nm) (Some machine)) (\<lambda>s_mac. Inr (s_mac = switch_mac))) machines"

fun select_not_used_machine :: "net_model \<Rightarrow> mac list \<Rightarrow> centralities \<Rightarrow> mac list \<Rightarrow> (mac list \<times> mac option) res" where
  "select_not_used_machine nm used [] machines = Inr (used, None)"
| "select_not_used_machine nm used ((switch_mac, c) # sorted_centralities) machines =
     rbind (get_switch_machine nm switch_mac machines) (\<lambda>machine_mac.
     case machine_mac of
       None \<Rightarrow> select_not_used_machine nm used sorted_centralities machines
     | Some m \<Rightarrow>
         if mac_truthy m \<and> m \<notin> set used then Inr (used @ [m], Some m)
         else select_not_used_machine nm used sorted_centralities machines)"

text \<open>\<^verbatim>\<open>sorted(..., reverse=True)\<close> keeps the order of equal items.\<close>

definition by_centrality :: "centralities \<Rightarrow> centralities" where
  "by_centrality node_cents = sort_key (\<lambda>(n, c). - c) node_cents"

definition select_central ::
    "net_model \<Rightarrow> mac_to_ip \<Rightarrow> mac list \<Rightarrow> centralities \<Rightarrow> mac list \<Rightarrow> (mac list \<times> mac option) res" where
  "select_central nm m2i used sorted_centralities machines =
     rbind (select_not_used_machine nm used sorted_centralities machines) (\<lambda>(used1, central_machine_mac).
     case central_machine_mac of
       Some m \<Rightarrow> Inr (used1, Some m)
     | None \<Rightarrow>
         if length used1 \<ge> length (mti_get_all_macs m2i)
         then select_not_used_machine nm [] sorted_centralities machines
         else Inr (used1, None))"

definition get_betweenness_centrality ::
    "(nx_graph \<Rightarrow> centralities) \<Rightarrow> net_model \<Rightarrow> mac_to_ip \<Rightarrow> nx_graph \<Rightarrow> mac list \<Rightarrow> mac list \<Rightarrow> (mac list \<times> mac option) res" where
  "get_betweenness_centrality betweenness nm m2i placement_graph used machines =
     rbind (rmapM (\<lambda>machine. get_connected_switch (nm_overlay nm) (Some machine)) machines) (\<lambda>switch_list.
     select_central nm m2i used (by_centrality (betweenness placement_graph)) machines)"

text \<open>The machines that may still take an element, and the prologue of \<^verbatim>\<open>_get_machine\<close>.\<close>

definition allowed_machines :: "elem_to_mac \<Rightarrow> mac list \<Rightarrow> mac list res" where
  "allowed_machines e2m all_machines =
     rbind (rmapM (\<lambda>mac. rbind (element_placement_allowed e2m mac) (\<lambda>b. Inr (mac, b))) all_machines) (\<lambda>mbs.
     Inr (map fst (filter snd mbs)))"

definition get_machine ::
    "elem_to_mac \<Rightarrow> mac_to_ip \<Rightarrow> ('s \<Rightarrow> mac list \<Rightarrow> ('s \<times> mac option) res) \<Rightarrow> 's \<Rightarrow> string \<Rightarrow> ('s \<times> mac option) res" where
  "get_machine e2m m2i pick s elem_name =
     (let all_machines = get_compatible_machines m2i elem_name in
      rbind (allowed_machines e2m all_machines) (\<lambda>machines.
      if length machines = 0 \<and> length all_machines > 0 then Inr (s, None)
      else if length machines = 1 then Inr (s, Some (machines ! 0))
      else pick s machines))"

fun place_each :: "('s \<Rightarrow> string \<Rightarrow> ('s \<times> mac option) res) \<Rightarrow> 's \<Rightarrow> string list \<Rightarrow> ('s \<times> mac option list) res" where
  "place_each place s [] = Inr (s, [])"
| "place_each place s (elem_name # elements_to_install) =
     rbind (place s elem_name) (\<lambda>(s', machine).
     rbind (place_each place s' elements_to_install) (\<lambda>(s'', rv). Inr (s'', machine # rv)))"

section \<open>IncrementalKPlacement\<close>

definition get_inc_k_placement ::
    "(nx_graph \<Rightarrow> centralities) \<Rightarrow> net_model \<Rightarrow> mac_to_ip \<Rightarrow> string \<Rightarrow> mac list \<Rightarrow> mac list \<Rightarrow> (mac list \<times> mac option) res" where
  "get_inc_k_placement betweenness nm m2i elem_name used machines =
     rbind (get_elem_spec_placement nm elem_name) (\<lambda>spec_placement.
     let admin_placement = get_elem_admin_placement elem_name;
         placement_pref = (if pv_truthy admin_placement then admin_placement
                           else if pv_truthy spec_placement then spec_placement else PvNone)
     in if placement_pref = PvNone \<or> placement_pref = PvStr ''middle''
        then get_betweenness_centrality betweenness nm m2i (topo_graph (nm_physical nm)) used machines
        else Inr (used, None))"

definition inc_k_get_placement ::
    "(nx_graph \<Rightarrow> centralities) \<Rightarrow> elem_to_mac \<Rightarrow> mac_to_ip \<Rightarrow> net_model \<Rightarrow> mac list \<Rightarrow> string list \<Rightarrow>
     (mac list \<times> mac option list) res" where
  "inc_k_get_placement betweenness e2m m2i nm =
     place_each (\<lambda>used elem_name. get_machine e2m m2i (get_inc_k_placement betweenness nm m2i elem_name) used elem_name)"

section \<open>WeightedPlacement\<close>

text \<open>The weight of an edge is the traffic counted in both directions; reading a counter may add an
  empty entry to the matrices, so they are part of the state.\<close>

definition get_edge_weight :: "int \<Rightarrow> dpid \<Rightarrow> dpid \<Rightarrow> flow_matrix list \<Rightarrow> flow_matrix list \<times> int" where
  "get_edge_weight flowspace_desc sw1 sw2 fms =
     (case get_tm_entry fms flowspace_desc sw1 sw2 of
        (fms1, e1) \<Rightarrow>
          (case get_tm_entry fms1 flowspace_desc sw2 sw1 of
             (fms2, e2) \<Rightarrow>
               let w1 = (case e1 of None \<Rightarrow> 0 | Some n \<Rightarrow> n);
                   w2 = (case e2 of None \<Rightarrow> 0 | Some n \<Rightarrow> n)
               in (fms2, if w1 \<noteq> 0 \<and> w2 \<noteq> 0 then w1 + w2 else if w1 = 0 then w2 else w1)))"

fun assign_weights :: "int \<Rightarrow> (dpid \<times> dpid) list \<Rightarrow> flow_matrix list \<Rightarrow> flow_matrix list \<times> (dpid \<times> dpid \<times> int) list" where
  "assign_weights flowspace_desc [] fms = (fms, [])"
| "assign_weights flowspace_desc ((switch1, switch2) # edges) fms =
     (case get_edge_weight flowspace_desc switch1 switch2 fms of
        (fms', w) \<Rightarrow>
          (case assign_weights flowspace_desc edges fms' of (fms'', ws) \<Rightarrow> (fms'', (switch1, switch2, w) # ws)))"

definition weighted_choose ::
    "(nx_graph \<Rightarrow> (dpid \<times> dpid \<times> int) list \<Rightarrow> centralities) \<Rightarrow> net_model \<Rightarrow> mac_to_ip \<Rightarrow> int \<Rightarrow> mac list \<times> flow_matrix list \<Rightarrow> mac list \<Rightarrow>
     ((mac list \<times> flow_matrix list) \<times> mac option) res" where
  "weighted_choose weighted_betweenness nm m2i flowspace_desc s machines =
     (case s of
        (used, fms) \<Rightarrow>
          rbind (rmapM (\<lambda>machine. get_connected_switch (nm_overlay nm) (Some machine)) machines) (\<lambda>switch_list.
          let placement_graph = topo_graph (nm_physical nm) in
          (case assign_weights flowspace_desc (nx_edges placement_graph) fms of
             (fms', weights) \<Rightarrow>
               rbind (select_central nm m2i used (by_centrality (weighted_betweenness placement_graph weights)) machines) (\<lambda>(used', m).
               Inr ((used', fms'), m)))))"

definition weighted_get_placement ::
    "(nx_graph \<Rightarrow> (dpid \<times> dpid \<times> int) list \<Rightarrow> centralities) \<Rightarrow> elem_to_mac \<Rightarrow> mac_to_ip \<Rightarrow> net_model \<Rightarrow> int \<Rightarrow>
     mac list \<times> flow_matrix list \<Rightarrow> string list \<Rightarrow> ((mac list \<times> flow_matrix list) \<times> mac option list) res" where
  "weighted_get_placement weighted_betweenness e2m m2i nm flowspace_desc =
     place_each (get_machine e2m m2i (weighted_choose weighted_betweenness nm m2i flowspace_desc))"

section \<open>KPlacement\<close>

definition is_element_instance_present :: "elem_to_mac \<Rightarrow> net_model \<Rightarrow> int \<Rightarrow> nat \<Rightarrow> string \<Rightarrow> bool res" where
  "is_element_instance_present e2m nm flowspace_desc part_num elem_name =
     rbind (rfind (\<lambda>ed.
        rbind (get_connected_switch (nm_overlay nm) (get_machine_mac e2m ed)) (\<lambda>switch_mac.
        Inr (get_partition_number (nm_physical nm) switch_mac = Some (int part_num))))
       (get_flowspace_elem_descs nm flowspace_desc elem_name)) (\<lambda>r. Inr (r \<noteq> None))"

definition get_partition_number_to_place :: "elem_to_mac \<Rightarrow> net_model \<Rightarrow> int \<Rightarrow> string \<Rightarrow> int res" where
  "get_partition_number_to_place e2m nm flowspace_desc elem_name =
     rbind (get_num_partitions (nm_physical nm)) (\<lambda>number_of_partitions.
     rbind (rmapM (\<lambda>part_num. rbind (is_element_instance_present e2m nm flowspace_desc part_num elem_name) (\<lambda>b. Inr (part_num, b)))
              [0..<number_of_partitions]) (\<lambda>partition_to_pivot_map.
     case map fst (filter (\<lambda>(part_num, elem_inst_present). \<not> elem_inst_present) partition_to_pivot_map) of
       part_num # _ \<Rightarrow> Inr (int part_num)
     | [] \<Rightarrow> Inr (- 1)))"

text \<open>\<^verbatim>\<open>nx.Graph(g.subgraph(nodes))\<close>.\<close>

definition nx_subgraph :: "nx_graph \<Rightarrow> dpid list \<Rightarrow> nx_graph" where
  "nx_subgraph g ns =
     \<lparr>nx_nodes = filter (\<lambda>n. n \<in> set ns) (nx_nodes g),
      nx_edges = filter (\<lambda>(u, v). u \<in> set ns \<and> v \<in> set ns) (nx_edges g)\<rparr>"

definition get_partition_betweenness ::
    "(nx_graph \<Rightarrow> centralities) \<Rightarrow> net_model \<Rightarrow> mac_to_ip \<Rightarrow> int \<Rightarrow> mac list \<Rightarrow> mac list \<Rightarrow> (mac list \<times> mac option) res" where
  "get_partition_betweenness betweenness nm m2i partition_number used machines =
     rbind (rmapM (\<lambda>machine. get_connected_switch (nm_overlay nm) (Some machine)) machines) (\<lambda>switch_list.
     rbind (get_partition_nodes (nm_physical nm) (Some partition_number)) (\<lambda>partition_nodes.
     let partition_subgraph = nx_subgraph (topo_graph (nm_physical nm)) partition_nodes
     in select_central nm m2i used (by_centrality (betweenness partition_subgraph)) machines))"

definition MAX_NUM_ELEM_INSTANCES :: nat where
  "MAX_NUM_ELEM_INSTANCES = 10"

text \<open>Placing near the source or the destination is not implemented (\<^verbatim>\<open>pass\<close>), which is \<^verbatim>\<open>None\<close>.\<close>

definition k_get_element_instance_near_source :: "int \<Rightarrow> mac list \<Rightarrow> mac option" where
  "k_get_element_instance_near_source partition_number machines = None"

definition k_get_element_instance_near_destination :: "int \<Rightarrow> mac list \<Rightarrow> mac option" where
  "k_get_element_instance_near_destination partition_number machines = None"

definition k_get_partition_placement ::
    "(nx_graph \<Rightarrow> centralities) \<Rightarrow> net_model \<Rightarrow> mac_to_ip \<Rightarrow> string \<Rightarrow> mac list \<Rightarrow> mac list \<Rightarrow> int \<Rightarrow> (mac list \<times> mac option) res" where
  "k_get_partition_placement betweenness nm m2i elem_name used machines partition_number =
     rbind (get_elem_placement_pref nm elem_name) (\<lambda>placement_pref.
     rbind (get_elem_leg_type nm elem_name) (\<lambda>leg_type.
     if leg_type = PvStr ''E'' then
       (if placement_pref = PvNone \<or> placement_pref = PvStr ''middle''
        then get_partition_betweenness betweenness nm m2i partition_number used machines
        else if placement_pref = PvStr ''near'' then Inr (used, k_get_element_instance_near_source partition_number machines)
        else if placement_pref = PvStr ''far'' then Inr (used, k_get_element_instance_near_destination partition_number machines)
        else Inr (used, None))
     else if leg_type = PvStr ''L'' then
       (if length (get_elem_descs nm (Some elem_name)) < MAX_NUM_ELEM_INSTANCES
        then Inr (used, k_get_element_instance_near_destination partition_number machines) else Inr (used, None))
     else if leg_type = PvStr ''G'' then Inr (used, k_get_element_instance_near_source partition_number machines)
     else Inr (used, None)))"

definition k_choose ::
    "(nx_graph \<Rightarrow> centralities) \<Rightarrow> elem_to_mac \<Rightarrow> mac_to_ip \<Rightarrow> net_model \<Rightarrow> int \<Rightarrow> string \<Rightarrow> mac list \<Rightarrow> mac list \<Rightarrow>
     (mac list \<times> mac option) res" where
  "k_choose betweenness e2m m2i nm flowspace_desc elem_name used machines =
     rbind (get_partition_number_to_place e2m nm flowspace_desc elem_name) (\<lambda>partition_number.
     k_get_partition_placement betweenness nm m2i elem_name used machines partition_number)"

definition k_get_placement ::
    "(nx_graph \<Rightarrow> nat \<Rightarrow> int list) \<Rightarrow> (nx_graph \<Rightarrow> centralities) \<Rightarrow> elem_to_mac \<Rightarrow> mac_to_ip \<Rightarrow> int \<Rightarrow>
     net_model \<times> mac list \<Rightarrow> string list \<Rightarrow> ((net_model \<times> mac list) \<times> mac option list) res" where
  "k_get_placement part_graph betweenness e2m m2i flowspace_desc s elements_to_install =
     (case s of
        (nm, used) \<Rightarrow>
          rbind (create_partitions part_graph (nm_physical nm)) (\<lambda>pn.
          let nm' = nm\<lparr>nm_physical := pn\<rparr> in
          rbind (place_each (\<lambda>used elem_name. get_machine e2m m2i (k_choose betweenness e2m m2i nm' flowspace_desc elem_name) used elem_name)
                   used elements_to_install) (\<lambda>(used', rv).
          Inr ((nm', used'), rv))))"

section \<open>NetworkAwarePlacement\<close>

definition get_partition_machines :: "net_model \<Rightarrow> int \<Rightarrow> mac list \<Rightarrow> mac list res" where
  "get_partition_machines nm partition_number machines =
     rbind (get_partition_nodes (nm_physical nm) (Some partition_number)) (\<lambda>partition_nodes.
     rbind (rmapM (\<lambda>machine. rbind (get_connected_switch (nm_overlay nm) (Some machine)) (\<lambda>sw. Inr (machine, sw))) machines) (\<lambda>mss.
     Inr (map fst (filter (\<lambda>(machine, switch_mac). switch_mac \<in> set partition_nodes) mss))))"

definition get_closeness_centrality ::
    "(nx_graph \<Rightarrow> centralities) \<Rightarrow> net_model \<Rightarrow> mac_to_ip \<Rightarrow> pval \<Rightarrow> int \<Rightarrow> mac list \<Rightarrow> mac list \<Rightarrow> (mac list \<times> mac option) res" where
  "get_closeness_centrality closeness nm m2i placement_pref partition_number used machines =
     rbind (rmapM (\<lambda>machine. get_connected_switch (nm_overlay nm) (Some machine)) machines) (\<lambda>switch_list.
     rbind (get_partition_nodes (nm_physical nm) (Some partition_number)) (\<lambda>partition_nodes.
     let partition_subgraph = nx_subgraph (topo_graph (nm_physical nm)) partition_nodes;
         node_cents = closeness partition_subgraph;
         sorted_centralities = (if placement_pref = PvStr ''near'' then sort_key (\<lambda>(n, c). c) node_cents
                                else by_centrality node_cents)
     in select_central nm m2i used sorted_centralities machines))"

definition na_get_partition_placement ::
    "(nx_graph \<Rightarrow> centralities) \<Rightarrow> (nx_graph \<Rightarrow> centralities) \<Rightarrow> net_model \<Rightarrow> mac_to_ip \<Rightarrow> string \<Rightarrow> nat list option \<Rightarrow>
     mac list \<Rightarrow> mac list \<Rightarrow> int \<Rightarrow> (mac list \<times> mac option) res" where
  "na_get_partition_placement betweenness closeness nm m2i elem_name nodes used machines partition_number =
     rbind (get_elem_placement_pref nm elem_name) (\<lambda>placement_pref.
     case nodes of
       Some (n # ns) \<Rightarrow> get_closeness_centrality closeness nm m2i placement_pref partition_number used machines
     | _ \<Rightarrow>
         if placement_pref = PvNone \<or> placement_pref = PvStr ''middle''
         then get_partition_betweenness betweenness nm m2i partition_number used machines
         else if placement_pref = PvStr ''near'' \<or> placement_pref = PvStr ''far''
         then get_closeness_centrality closeness nm m2i placement_pref partition_number used machines
         else Inr (used, None))"

definition na_get_machine ::
    "(nx_graph \<Rightarrow> centralities) \<Rightarrow> (nx_graph \<Rightarrow> centralities) \<Rightarrow> elem_to_mac \<Rightarrow> mac_to_ip \<Rightarrow> net_model \<Rightarrow> nat list option \<Rightarrow>
     int \<Rightarrow> mac list \<Rightarrow> string \<Rightarrow> (mac list \<times> mac option) res" where
  "na_get_machine betweenness closeness e2m m2i nm nodes partition_number used elem_name =
     get_machine e2m m2i (\<lambda>used machines.
       rbind (get_partition_machines nm partition_number machines) (\<lambda>partition_machines.
       na_get_partition_placement betweenness closeness nm m2i elem_name nodes used partition_machines partition_number))
     used elem_name"

text \<open>A block is placed as one: the machine of its first element is repeated.  An empty block would
  leave \<^verbatim>\<open>partition_number\<close> unbound where it is printed.\<close>

definition place_element_near_nodes ::
    "(nat list option \<Rightarrow> int \<Rightarrow> mac list \<Rightarrow> string \<Rightarrow> (mac list \<times> mac option) res) \<Rightarrow> (string \<Rightarrow> int res) \<Rightarrow> nat list \<Rightarrow>
     string list \<Rightarrow> mac list \<Rightarrow> (mac list \<times> mac option list) res" where
  "place_element_near_nodes machine_for partition_for nodes consolidated_element used =
     (case consolidated_element of
        [] \<Rightarrow> Inl NameError
      | element_name # _ \<Rightarrow>
          rbind (partition_for element_name) (\<lambda>partition_number.
          rbind (machine_for (Some nodes) partition_number used element_name) (\<lambda>(used', machine).
          Inr (used', map (\<lambda>_. machine) consolidated_element))))"

definition place_element_anywhere ::
    "(nat list option \<Rightarrow> int \<Rightarrow> mac list \<Rightarrow> string \<Rightarrow> (mac list \<times> mac option) res) \<Rightarrow> (string \<Rightarrow> int res) \<Rightarrow>
     string list \<Rightarrow> mac list \<Rightarrow> (mac list \<times> mac option list) res" where
  "place_element_anywhere machine_for partition_for consolidated_element used =
     (if consolidated_element = [] then Inl NameError
      else place_each (\<lambda>used element_name.
             rbind (partition_for element_name) (\<lambda>partition_number. machine_for None partition_number used element_name))
             used consolidated_element)"

text \<open>The messages about a chosen machine print its address and its switch.\<close>

definition announce_machine :: "(int, string) dict \<Rightarrow> net_model \<Rightarrow> mac option \<Rightarrow> unit res" where
  "announce_machine oui nm machine =
     (case machine of
        None \<Rightarrow> Inr ()
      | Some m \<Rightarrow>
          if mac_truthy m then
            rbind (get_connected_switch (nm_overlay nm) (Some m)) (\<lambda>switch_mac.
            rbind (mac_to_str oui m False) (\<lambda>_. rbind (mac_to_str oui (MacInt switch_mac) False) (\<lambda>_. Inr ())))
          else Inr ())"

fun place_consolidated_chain ::
    "(string \<Rightarrow> string list \<Rightarrow> mac list \<Rightarrow> (mac list \<times> mac option list) res option) \<Rightarrow> (mac option \<Rightarrow> unit res) \<Rightarrow>
     string list option \<Rightarrow> nat \<Rightarrow> string list list \<Rightarrow> mac list \<Rightarrow> mac option list option \<Rightarrow> (mac list \<times> mac option list) res" where
  "place_consolidated_chain place announce locs index [] used machines = Inr (used, [])"
| "place_consolidated_chain place announce locs index (consolidated_element # chain) used machines =
     (case locs of
        None \<Rightarrow> Inl TypeError
      | Some ls \<Rightarrow>
          rbind (list_getitem ls index) (\<lambda>position.
          rbind (case place position consolidated_element used of
                   None \<Rightarrow> Inr (used, machines)
                 | Some r \<Rightarrow> rbind r (\<lambda>(used', ms). Inr (used', Some ms))) (\<lambda>(used', machines').
          case machines' of
            None \<Rightarrow> Inl TypeError
          | Some ms \<Rightarrow>
              rbind (rmapM announce ms) (\<lambda>_.
              rbind (place_consolidated_chain place announce locs (index + 1) chain used' machines') (\<lambda>(used'', rv).
              Inr (used'', ms @ rv))))))"

definition na_place_position ::
    "(nat list option \<Rightarrow> int \<Rightarrow> mac list \<Rightarrow> string \<Rightarrow> (mac list \<times> mac option) res) \<Rightarrow> (string \<Rightarrow> int res) \<Rightarrow>
     nat list \<Rightarrow> nat list \<Rightarrow> string \<Rightarrow> string list \<Rightarrow> mac list \<Rightarrow> (mac list \<times> mac option list) res option" where
  "na_place_position machine_for partition_for sources destinations position consolidated_element used =
     (if position = ''SRCS'' then Some (place_element_near_nodes machine_for partition_for sources consolidated_element used)
      else if position = ''DESTS'' then Some (place_element_near_nodes machine_for partition_for destinations consolidated_element used)
      else if position = ''ANY'' then Some (place_element_anywhere machine_for partition_for consolidated_element used)
      else None)"

record na_env =
  na_part_graph :: "nx_graph \<Rightarrow> nat \<Rightarrow> int list"
  na_betweenness :: "nx_graph \<Rightarrow> centralities"
  na_closeness :: "nx_graph \<Rightarrow> centralities"
  na_partitions_of :: "string list \<Rightarrow> string list list list"
  na_oui :: "(int, string) dict"
  na_tm_lines :: "string list option"

definition consolidate_using_leg ::
    "(string list \<Rightarrow> string list list list) \<Rightarrow> net_model \<Rightarrow> string list \<Rightarrow> (string list list option \<times> string list option) res" where
  "consolidate_using_leg partitions_of nm element_names =
     rbind (get_leg_factors nm element_names) (\<lambda>leg_factors.
     get_least_cost_assignment nm (generate_consolidation_combinations partitions_of element_names) element_names leg_factors)"

definition na_get_placement ::
    "na_env \<Rightarrow> elem_to_mac \<Rightarrow> mac_to_ip \<Rightarrow> int \<Rightarrow> net_model \<times> mac list \<Rightarrow> string list \<Rightarrow>
     ((net_model \<times> mac list) \<times> mac option list) res" where
  "na_get_placement env e2m m2i flowspace_desc s elements_to_install =
     (case s of
        (nm, used) \<Rightarrow>
          rbind (create_partitions (na_part_graph env) (nm_physical nm)) (\<lambda>pn.
          let nm' = nm\<lparr>nm_physical := pn\<rparr>;
              machine_for = na_get_machine (na_betweenness env) (na_closeness env) e2m m2i nm';
              partition_for = get_partition_number_to_place e2m nm' flowspace_desc
          in rbind (consolidate_using_leg (na_partitions_of env) nm' elements_to_install) (\<lambda>(chain, locs).
             rbind (get_traffic_matrix_new (na_tm_lines env)) (\<lambda>traffic_matrix.
             case get_sources_and_destinations traffic_matrix of
               (sources, destinations) \<Rightarrow>
                 (case chain of
                    None \<Rightarrow> Inl TypeError
                  | Some consolidated_chain \<Rightarrow>
                      rbind (place_consolidated_chain (na_place_position machine_for partition_for sources destinations)
                               (announce_machine (na_oui env) nm') locs 0 consolidated_chain used None) (\<lambda>(used', rv).
                      Inr ((nm', used'), rv)))))))"

section \<open>The contract\<close>

text \<open>A call that returns answers one entry per element, and every machine it names is eligible.\<close>

locale placement_module =
  fixes answers :: "'s \<Rightarrow> string list \<Rightarrow> mac option list \<Rightarrow> bool"
    and eligible :: "mac set"
  assumes one_each: "answers s names rv \<Longrightarrow> length rv = length names"
    and only_eligible: "answers s names rv \<Longrightarrow> Some m \<in> set rv \<Longrightarrow> m \<in> eligible"
begin

lemma every_element_answered: "answers s names rv \<Longrightarrow> map fst (zip names rv) = names"
  using one_each by (simp add: map_fst_zip)

lemma placed_on_eligible: "answers s names rv \<Longrightarrow> (n, Some m) \<in> set (zip names rv) \<Longrightarrow> m \<in> eligible"
  by (auto dest!: set_zip_rightD only_eligible)

lemma no_machine_no_placement: "answers s names rv \<Longrightarrow> eligible = {} \<Longrightarrow> rv = replicate (length names) None"
  using one_each [of s names rv] only_eligible [of s names rv]
  by (intro replicate_eqI) (auto, metis option.exhaust)

end

definition registered :: "mac_to_ip \<Rightarrow> mac set" where
  "registered m2i = set (mti_get_all_macs m2i)"

definition available :: "elem_to_mac \<Rightarrow> mac_to_ip \<Rightarrow> mac set" where
  "available e2m m2i = {m \<in> registered m2i. element_placement_allowed e2m m = Inr True}"

lemma rnd_choice_in: "xs \<noteq> [] \<Longrightarrow> rnd_choice rnd k xs \<in> set xs"
  by (simp add: rnd_choice_def)

lemma random_answers:
  "random_get_placement rnd m2i k names = Some ms \<Longrightarrow> length ms = length names \<and> set ms \<subseteq> registered m2i"
proof (induction names arbitrary: k ms)
  case (Cons n names)
  then obtain rest where rest: "random_get_placement rnd m2i (Suc k) names = Some rest" "mti_get_all_macs m2i \<noteq> []"
      "ms = rnd_choice rnd k (mti_get_all_macs m2i) # rest"
    by (auto simp: Let_def get_compatible_machines_def split: if_splits)
  with Cons.IH [OF rest(1)] rnd_choice_in show ?case by (auto simp: registered_def)
qed simp

interpretation random_placement:
  placement_module "\<lambda>k names rv. \<exists>ms. random_get_placement rnd m2i k names = Some ms \<and> rv = map Some ms" "registered m2i"
  by unfold_locales (auto dest!: random_answers)

lemma get_next_machine_registered: "snd (get_next_machine m2i rr n) = Some m \<Longrightarrow> m \<in> registered m2i"
  by (auto simp: get_next_machine_def Let_def registered_def get_compatible_machines_def
      split: if_splits option.splits dest: find_in_set)

lemma rr_answers:
  "rr_get_placement m2i rr names = (rr', rv) \<Longrightarrow> length rv = length names \<and> (\<forall>m. Some m \<in> set rv \<longrightarrow> m \<in> registered m2i)"
proof (induction names arbitrary: rr rr' rv)
  case (Cons n names)
  obtain rr1 mo where next_: "get_next_machine m2i rr n = (rr1, mo)" by fastforce
  obtain rr2 rv1 where rest: "rr_get_placement m2i rr1 names = (rr2, rv1)" by fastforce
  from Cons.prems have "rv = mo # rv1" by (simp add: next_ rest)
  with Cons.IH [OF rest] get_next_machine_registered [of m2i rr n] next_ show ?case by auto
qed simp

interpretation round_robin_placement: placement_module "\<lambda>rr names rv. snd (rr_get_placement m2i rr names) = rv" "registered m2i"
proof unfold_locales
  fix rr names rv assume "snd (rr_get_placement m2i rr names) = rv"
  then have r: "rr_get_placement m2i rr names = (fst (rr_get_placement m2i rr names), rv)" by auto
  show "length rv = length names" using rr_answers [OF r] by simp
  show "\<And>m. Some m \<in> set rv \<Longrightarrow> m \<in> registered m2i" using rr_answers [OF r] by blast
qed

subsection \<open>The centrality-based modules\<close>

lemma get_switch_machine_Some: "get_switch_machine nm sw machines = Inr (Some m) \<Longrightarrow> m \<in> set machines"
  unfolding get_switch_machine_def by (drule rfind_Some) simp

lemma select_not_used_Some:
  "select_not_used_machine nm used cs machines = Inr (used', Some m) \<Longrightarrow> m \<in> set machines \<and> m \<notin> set used \<and> used' = used @ [m]"
  by (induction nm used cs machines rule: select_not_used_machine.induct)
    (auto simp: rbind_def split: sum.splits option.splits if_splits dest: get_switch_machine_Some)

lemma select_not_used_None: "select_not_used_machine nm used cs machines = Inr (used', None) \<Longrightarrow> used' = used"
  by (induction nm used cs machines rule: select_not_used_machine.induct)
    (auto simp: rbind_def split: sum.splits option.splits if_splits)

lemma select_central_Some: "select_central nm m2i used cs machines = Inr (used', Some m) \<Longrightarrow> m \<in> set machines"
  unfolding select_central_def
  by (auto simp: rbind_eq_Inr split: option.splits if_splits dest: select_not_used_Some)

lemmas central_choices = get_betweenness_centrality_def get_partition_betweenness_def get_closeness_centrality_def
  get_inc_k_placement_def weighted_choose_def k_choose_def k_get_partition_placement_def na_get_partition_placement_def
  k_get_element_instance_near_source_def k_get_element_instance_near_destination_def

lemma inc_k_choice: "get_inc_k_placement bt nm m2i n used machines = Inr (used', Some m) \<Longrightarrow> m \<in> set machines"
  by (auto simp: central_choices Let_def rbind_eq_Inr split: if_splits dest: select_central_Some)

lemma weighted_choice: "weighted_choose bt nm m2i fd s machines = Inr (s', Some m) \<Longrightarrow> m \<in> set machines"
  by (auto simp: central_choices Let_def rbind_eq_Inr split: if_splits prod.splits dest: select_central_Some)

lemma k_choice: "k_choose bt e2m m2i nm fd n used machines = Inr (used', Some m) \<Longrightarrow> m \<in> set machines"
  by (auto simp: central_choices Let_def rbind_eq_Inr split: if_splits dest: select_central_Some)

lemma na_choice:
  "na_get_partition_placement bt cl nm m2i n nodes used machines pnum = Inr (used', Some m) \<Longrightarrow> m \<in> set machines"
  by (auto simp: central_choices Let_def rbind_eq_Inr split: if_splits option.splits list.splits dest: select_central_Some)

lemma get_partition_machines_subset: "get_partition_machines nm pnum machines = Inr ms \<Longrightarrow> set ms \<subseteq> set machines"
proof -
  assume "get_partition_machines nm pnum machines = Inr ms"
  then obtain nodes mss where
    mss: "rmapM (\<lambda>machine. rbind (get_connected_switch (nm_overlay nm) (Some machine)) (\<lambda>sw. Inr (machine, sw))) machines = Inr mss"
    and ms: "ms = map fst (filter (\<lambda>(machine, switch_mac). switch_mac \<in> set nodes) mss)"
    by (auto simp: get_partition_machines_def rbind_eq_Inr)
  have "map fst mss = machines" using rmapM_tagged [OF mss] by simp
  then have "set machines = fst ` set mss" by (metis set_map)
  with ms show "set ms \<subseteq> set machines" by auto
qed

lemma allowed_machines_available:
  assumes "allowed_machines e2m (mti_get_all_macs m2i) = Inr machines"
  shows "set machines \<subseteq> available e2m m2i"
proof -
  obtain mbs where
    mbs: "rmapM (\<lambda>mac. rbind (element_placement_allowed e2m mac) (\<lambda>b. Inr (mac, b))) (mti_get_all_macs m2i) = Inr mbs"
    and machines: "machines = map fst (filter snd mbs)"
    using assms by (auto simp: allowed_machines_def rbind_eq_Inr)
  have macs: "set (mti_get_all_macs m2i) = fst ` set mbs" using rmapM_tagged [OF mbs] by (metis set_map)
  show ?thesis
  proof
    fix m assume "m \<in> set machines"
    then have "(m, True) \<in> set mbs" by (auto simp: machines)
    with rmapM_tagged [OF mbs] macs show "m \<in> available e2m m2i"
      by (force simp: available_def registered_def)
  qed
qed

lemma get_machine_available:
  assumes "get_machine e2m m2i pick s n = Inr (s', Some m)"
    and "\<And>s machines s' m. pick s machines = Inr (s', Some m) \<Longrightarrow> m \<in> set machines"
  shows "m \<in> available e2m m2i"
proof -
  obtain machines where machines: "allowed_machines e2m (mti_get_all_macs m2i) = Inr machines" "m \<in> set machines"
    using assms by (auto simp: get_machine_def get_compatible_machines_def Let_def rbind_eq_Inr split: if_splits)
  with allowed_machines_available show ?thesis by blast
qed

lemma place_each_answers:
  assumes "place_each place s names = Inr (s', rv)"
    and "\<And>s n s' m. place s n = Inr (s', Some m) \<Longrightarrow> m \<in> E"
  shows "length rv = length names \<and> (\<forall>m. Some m \<in> set rv \<longrightarrow> m \<in> E)"
  using assms(1) by (induction names arbitrary: s rv) (fastforce simp: rbind_eq_Inr dest: assms(2))+

interpretation inc_k_placement:
  placement_module "\<lambda>used names rv. \<exists>used'. inc_k_get_placement bt e2m m2i nm used names = Inr (used', rv)" "available e2m m2i"
  by unfold_locales
    (auto simp: inc_k_get_placement_def dest!: place_each_answers [where E = "available e2m m2i"] intro: get_machine_available inc_k_choice)

interpretation weighted_placement:
  placement_module "\<lambda>s names rv. \<exists>s'. weighted_get_placement bt e2m m2i nm fd s names = Inr (s', rv)" "available e2m m2i"
  by unfold_locales
    (auto simp: weighted_get_placement_def dest!: place_each_answers [where E = "available e2m m2i"]
      intro: get_machine_available weighted_choice)

lemma k_answers:
  assumes "k_get_placement pg bt e2m m2i fd s names = Inr (s', rv)"
  shows "length rv = length names \<and> (\<forall>m. Some m \<in> set rv \<longrightarrow> m \<in> available e2m m2i)"
proof -
  from assms obtain nm used used' where
    "place_each (\<lambda>used n. get_machine e2m m2i (k_choose bt e2m m2i nm fd n) used n) used names = Inr (used', rv)"
    by (auto simp: k_get_placement_def Let_def rbind_eq_Inr split: prod.splits)
  then show ?thesis by (rule place_each_answers) (blast intro: get_machine_available k_choice)
qed

interpretation k_placement:
  placement_module "\<lambda>s names rv. \<exists>s'. k_get_placement pg bt e2m m2i fd s names = Inr (s', rv)" "available e2m m2i"
  by unfold_locales (auto dest!: k_answers)

subsection \<open>NetworkAwarePlacement\<close>

lemma least_cost_chosen:
  assumes "least_cost_loop cost locs valid least_cost_init = Inr s"
  shows "min_cost_combination s = None \<or> (\<exists>part \<in> set valid. min_cost_partition s = Some part)"
proof -
  let ?I = "\<lambda>s. (min_cost_combination s = None \<and> min_cost_partition s = None) \<or>
    (\<exists>part \<in> set valid. min_cost_partition s = Some part)"
  have step: "?I (consider_combination part c x s)" if "?I s" "part \<in> set valid" for part c x s
    using that by (auto simp: consider_combination_def split: option.splits)
  have "?I s"
    using assms unfolding least_cost_loop_def
  proof (rule rfoldM_invariant)
    show "?I least_cost_init" by (simp add: least_cost_init_def)
    fix s part s'
    assume I: "?I s" and part: "part \<in> set valid"
      and inner: "rfoldM (\<lambda>s c. rbind (cost part c) (\<lambda>x. Inr (consider_combination part c x s))) s
        (combinations locs (length part)) = Inr s'"
    from inner I show "?I s'"
    proof (rule rfoldM_invariant)
      fix s c s1 assume "?I s" "rbind (cost part c) (\<lambda>x. Inr (consider_combination part c x s)) = Inr s1"
      then show "?I s1" using step [OF _ part] by (auto simp only: rbind_eq_Inr sum.inject)
    qed
  qed
  then show ?thesis by blast
qed

definition positions :: "string set" where
  "positions = {''SRCS'', ''DESTS'', ''ANY''}"

lemma single_assignment:
  "get_single_element_assignment nm n = Inr (chain, locs) \<Longrightarrow>
     chain = Some [[n]] \<and> (\<forall>ls. locs = Some ls \<longrightarrow> set ls \<subseteq> positions)"
  by (auto simp: get_single_element_assignment_def Let_def rbind_eq_Inr positions_def split: if_splits)

text \<open>A consolidated chain cuts the chain it was made from, at known positions.\<close>

lemma consolidated_chain:
  assumes "consolidate_using_leg partitions_of nm names = Inr (chain, locs)"
    and "\<forall>part \<in> set (partitions_of (dedup names)). set (concat part) \<subseteq> set names"
  shows "\<exists>c. chain = Some c \<and> concat c = names \<and> (\<forall>ls. locs = Some ls \<longrightarrow> set ls \<subseteq> positions)"
proof -
  from assms(1) obtain legs where
    legs: "get_least_cost_assignment nm (generate_consolidation_combinations partitions_of names) names legs = Inr (chain, locs)"
    by (auto simp: consolidate_using_leg_def rbind_eq_Inr)
  show ?thesis
  proof (cases "length names = 1")
    case True
    then obtain n where "names = [n]" by (auto simp: length_Suc_conv)
    with legs single_assignment [of nm n chain locs] show ?thesis
      by (auto simp: get_least_cost_assignment_def rbind_eq_Inr)
  next
    case False
    with legs obtain s ls where s: "least_cost_loop (\<lambda>part c. calculate_combinations_link_cost (chain_links names) c legs part)
          [0..<length names] (generate_consolidation_combinations partitions_of names) least_cost_init = Inr s"
        and ls: "translate_virtual_locs_to_place names (min_cost_combination s) = Inr ls"
        and result: "chain = min_cost_partition s" "locs = Some ls"
      by (auto simp: get_least_cost_assignment_def rbind_eq_Inr split: if_splits)
    from ls obtain c where c: "min_cost_combination s = Some c"
      by (auto simp: translate_virtual_locs_to_place_def split: option.splits)
    with least_cost_chosen [OF s] obtain part where
      part: "part \<in> set (generate_consolidation_combinations partitions_of names)" "min_cost_partition s = Some part" by auto
    then have "concat (map (filter (\<lambda>i. i \<in> set names)) part) = names" "set (concat part) \<subseteq> set names"
      using assms(2) by (auto simp: generate_consolidation_combinations_def is_valid_partition_def Let_def split: if_splits)
    moreover from this(2) have "concat (map (filter (\<lambda>i. i \<in> set names)) part) = concat part"
      unfolding filter_concat [symmetric] by (intro filter_True) auto
    moreover have "set ls \<subseteq> positions"
      using ls c by (auto simp: translate_virtual_locs_to_place_def positions_def split: if_splits)
    ultimately show ?thesis using part(2) result by auto
  qed
qed

lemma place_chain_answers:
  assumes "\<And>pos block used used' ms. pos \<in> positions \<Longrightarrow> place pos block used = Some (Inr (used', ms)) \<Longrightarrow>
      length ms = length block \<and> (\<forall>m. Some m \<in> set ms \<longrightarrow> m \<in> E)"
    and "\<And>pos block used. pos \<in> positions \<Longrightarrow> place pos block used \<noteq> None"
    and "\<forall>ls. locs = Some ls \<longrightarrow> set ls \<subseteq> positions"
  shows "place_consolidated_chain place announce locs idx chain used machines = Inr (used', rv) \<Longrightarrow>
    length rv = length (concat chain) \<and> (\<forall>m. Some m \<in> set rv \<longrightarrow> m \<in> E)"
proof (induction chain arbitrary: idx used machines used' rv)
  case (Cons block chain)
  from Cons.prems obtain ls where ls: "locs = Some ls" "idx < length ls"
    by (auto simp: rbind_eq_Inr split: option.splits)
  have "set ls \<subseteq> positions" using assms(3) ls(1) by simp
  with ls(2) have pos: "ls ! idx \<in> positions" by (meson nth_mem subsetD)
  then obtain r where r: "place (ls ! idx) block used = Some r" using assms(2) by blast
  from Cons.prems ls r obtain used1 ms rv1 where step: "r = Inr (used1, ms)"
      "place_consolidated_chain place announce locs (idx + 1) chain used1 (Some ms) = Inr (used', rv1)" "rv = ms @ rv1"
    by (auto simp: rbind_eq_Inr list_getitem_def)
  show ?case
    using assms(1) [OF pos r [unfolded step(1)]] Cons.IH [OF step(2)] step(3) by auto
qed simp

lemma na_machine_available:
  "na_get_machine bt cl e2m m2i nm nodes pnum used n = Inr (used', Some m) \<Longrightarrow> m \<in> available e2m m2i"
  unfolding na_get_machine_def
proof (erule get_machine_available)
  fix used machines used' m
  assume "rbind (get_partition_machines nm pnum machines) (\<lambda>partition_machines.
      na_get_partition_placement bt cl nm m2i n nodes used partition_machines pnum) = Inr (used', Some m)"
  then show "m \<in> set machines"
    using get_partition_machines_subset na_choice by (auto simp only: rbind_eq_Inr) (meson subsetD)
qed

definition noop_model :: net_model where
  "noop_model = (net_model_init [(''Noop'', [(''Noop'', [(''leg'', PvStr ''E''), (''leg_factor'', PvInt 1)])])])
     \<lparr>nm_overlay := overlay_init\<lparr>hosts := [(''00:00:00:00:00:05'', (1, 2))]\<rparr>,
      nm_physical := physical_net_init\<lparr>topo_graph := \<lparr>nx_nodes = [1], nx_edges = []\<rparr>\<rparr>\<rparr>"

definition noop_env :: na_env where
  "noop_env = \<lparr>na_part_graph = \<lambda>g n. map (\<lambda>_. 0) (nx_nodes g), na_betweenness = \<lambda>g. map (\<lambda>n. (n, 0)) (nx_nodes g),
     na_closeness = \<lambda>g. map (\<lambda>n. (n, 0)) (nx_nodes g), na_partitions_of = \<lambda>ns. [[ns]], na_oui = [], na_tm_lines = None\<rparr>"

lemma noop_placed:
  "map_sum id snd (na_get_placement noop_env [(MacInt 5, [])] [(MacInt 5, FNone)] 0 (noop_model, []) [''Noop'']) = Inr [Some (MacInt 5)]"
  by code_simp



section \<open>What the modules choose\<close>

lemma find_first_unused:
  assumes "distinct machines" and "set mine \<subseteq> set (take j machines)"
  shows "find (\<lambda>m. m \<notin> set mine \<and> m \<notin> set (take j machines)) machines = (if j < length machines then Some (machines ! j) else None)"
proof (cases "j < length machines")
  case True
  have used: "\<forall>i < j. machines ! i \<in> set (take j machines)" using True by (auto simp: in_set_conv_nth)
  have "machines ! j \<notin> set (take j machines)"
    using assms(1) True by (auto simp: in_set_conv_nth nth_eq_iff_index_eq)
  with assms(2) True used show ?thesis by (auto simp: find_Some_iff intro!: exI [of _ j])
next
  case False
  then show ?thesis by (auto simp: find_None_iff)
qed

definition rr_at :: "mac list \<Rightarrow> nat \<Rightarrow> round_robin \<Rightarrow> bool" where
  "rr_at machines j rr \<longleftrightarrow> rr_used_macs rr = take j machines \<and>
     (\<forall>n ms. map_of (elem_name_to_machine_macs rr) n = Some ms \<longrightarrow> set ms \<subseteq> set (take j machines))"

lemma get_next_machine_at:
  assumes "rr_at (mti_get_all_macs m2i) j rr" and "distinct (mti_get_all_macs m2i)" and "mti_get_all_macs m2i \<noteq> []"
  shows "\<exists>rr'. get_next_machine m2i rr n = (rr', Some (if j < length (mti_get_all_macs m2i) then mti_get_all_macs m2i ! j
             else hd (mti_get_all_macs m2i))) \<and> rr_at (mti_get_all_macs m2i) (Suc j) rr'"
proof -
  let ?ms = "mti_get_all_macs m2i"
  define macs where "macs = ddict_touch [] n (elem_name_to_machine_macs rr)"
  define mine where "mine = the (map_of macs n)"
  have mine: "set mine \<subseteq> set (take j ?ms)"
    using assms(1) by (auto simp: mine_def macs_def map_of_ddict_touch rr_at_def split: if_splits)
  have others: "map_of macs k = Some ms \<Longrightarrow> set ms \<subseteq> set (take j ?ms)" for k ms
    using assms(1) by (auto simp: macs_def map_of_ddict_touch rr_at_def split: if_splits)
  have find: "find (\<lambda>m. m \<notin> set mine \<and> m \<notin> set (rr_used_macs rr)) ?ms = (if j < length ?ms then Some (?ms ! j) else None)"
    using find_first_unused [OF assms(2) mine] assms(1) by (simp add: rr_at_def)
  have more: "set (take j ?ms) \<subseteq> set (take (Suc j) ?ms)" by (rule set_take_subset_set_take) simp
  show ?thesis
  proof (cases "j < length ?ms")
    case True
    have "rr_at ?ms (Suc j) (rr\<lparr>rr_used_macs := rr_used_macs rr @ [?ms ! j],
        elem_name_to_machine_macs := AList.update n (mine @ [?ms ! j]) macs\<rparr>)"
      using assms(1) mine others more True by (auto simp: rr_at_def take_Suc_conv_app_nth split: if_splits)
    with True find assms(3) show ?thesis
      by (simp add: get_next_machine_def get_compatible_machines_def Let_def flip: macs_def mine_def)
  next
    case False
    have "rr_at ?ms (Suc j) (rr\<lparr>elem_name_to_machine_macs := AList.update n [?ms ! 0] macs\<rparr>)"
      using assms(1,3) others False by (fastforce simp: rr_at_def split: if_splits)
    with False find assms(3) show ?thesis
      by (simp add: get_next_machine_def get_compatible_machines_def Let_def hd_conv_nth flip: macs_def mine_def)
  qed
qed

lemma rr_placement_from:
  assumes "distinct (mti_get_all_macs m2i)" and "mti_get_all_macs m2i \<noteq> []"
  shows "rr_at (mti_get_all_macs m2i) j rr \<Longrightarrow> snd (rr_get_placement m2i rr names) =
    map (\<lambda>i. Some (if i < length (mti_get_all_macs m2i) then mti_get_all_macs m2i ! i else hd (mti_get_all_macs m2i)))
      [j..<j + length names]"
proof (induction names arbitrary: j rr)
  case (Cons n names)
  obtain rr' where rr': "get_next_machine m2i rr n = (rr', Some (if j < length (mti_get_all_macs m2i) then mti_get_all_macs m2i ! j
      else hd (mti_get_all_macs m2i)))" "rr_at (mti_get_all_macs m2i) (Suc j) rr'"
    using get_next_machine_at [OF Cons.prems assms, of n] by blast
  have range: "[j..<j + length (n # names)] = j # [Suc j..<Suc j + length names]" by (simp add: upt_rec)
  have "snd (rr_get_placement m2i rr (n # names)) =
      Some (if j < length (mti_get_all_macs m2i) then mti_get_all_macs m2i ! j else hd (mti_get_all_macs m2i)) #
      snd (rr_get_placement m2i rr' names)"
    by (simp add: rr'(1) split: prod.split)
  then show ?case by (simp only: range list.map Cons.IH [OF rr'(2)])
qed simp

text \<open>
  \<^verbatim>\<open>RoundRobinPlacement\<close>, started afresh, gives the elements the registered machines in turn, one
  each; but when every machine has been used once it does not start over: \<^verbatim>\<open>used_macs\<close> is never
  cleared, so every further element goes to the first machine.
\<close>

lemma round_robin_turns:
  assumes "distinct (mti_get_all_macs m2i)" and "mti_get_all_macs m2i \<noteq> []"
  shows "snd (rr_get_placement m2i round_robin_init names) =
    map Some (take (length names) (mti_get_all_macs m2i)) @
    replicate (length names - length (mti_get_all_macs m2i)) (Some (hd (mti_get_all_macs m2i)))"
proof -
  let ?ms = "mti_get_all_macs m2i"
  have "rr_at ?ms 0 round_robin_init" by (simp add: rr_at_def round_robin_init_def)
  from rr_placement_from [OF assms this, of names] have "snd (rr_get_placement m2i round_robin_init names) =
      map (\<lambda>i. Some (if i < length ?ms then ?ms ! i else hd ?ms)) [0..<length names]" by simp
  also have "\<dots> = map Some (take (length names) ?ms) @ replicate (length names - length ?ms) (Some (hd ?ms))"
    by (rule nth_equalityI) (auto simp: nth_append min_def)
  finally show ?thesis .
qed

lemma round_robin_turns_example:
  "snd (rr_get_placement [(MacInt 1, FNone), (MacInt 2, FNone)] round_robin_init [''a'', ''b'', ''c'', ''d'']) =
     [Some (MacInt 1), Some (MacInt 2), Some (MacInt 1), Some (MacInt 1)]"
  using round_robin_turns [of "[(MacInt 1, FNone), (MacInt 2, FNone)]" "[''a'', ''b'', ''c'', ''d'']"]
  by (simp add: mti_get_all_macs_def numeral_2_eq_2)

text \<open>
  The capacity of a machine is checked against what it already holds, not against what the same
  call has just put on it: when one machine is left with room, \<^verbatim>\<open>IncrementalKPlacement\<close> puts every
  element of the chain on it, however many there are.
\<close>

lemma capacity_exceeded:
  assumes "allowed_machines e2m (mti_get_all_macs m2i) = Inr [m]"
  shows "inc_k_get_placement bt e2m m2i nm used names = Inr (used, replicate (length names) (Some m))"
  using assms unfolding inc_k_get_placement_def
  by (induction names) (simp_all add: get_machine_def get_compatible_machines_def)

lemma capacity_exceeded_example:
  "inc_k_get_placement (\<lambda>g. []) [(MacInt 1, []), (MacInt 2, [7])] [(MacInt 1, FNone), (MacInt 2, FNone)] (net_model_init []) []
     [''a'', ''b''] = Inr ([], [Some (MacInt 1), Some (MacInt 1)])"
proof -
  have "allowed_machines [(MacInt 1, []), (MacInt 2, [7])] (mti_get_all_macs [(MacInt 1, FNone), (MacInt 2, FNone)]) = Inr [MacInt 1]"
    by (simp add: allowed_machines_def mti_get_all_macs_def element_placement_allowed_def etm_get_elem_descs_def dict_getitem_def
        get_max_elements_def MAX_ELEMENTS_PER_MACHINE_def)
  from capacity_exceeded [OF this] show ?thesis by (simp add: numeral_2_eq_2)
qed

end
