(* ===== verification/Routing.thy ===== *)
theory Routing
  imports L2_State
begin

text \<open>
  Routing (\<^verbatim>\<open>routing/ShortestPathRouting.py\<close>): the pathlets that lead a flow from its source through
  the machines steering chose to its destination.  What routing needs of the forwarding component is
  the locale \<open>path_service\<close>; the component's own \<^verbatim>\<open>_get_path\<close> interprets it.
\<close>

type_synonym loc = "dpid \<times> int option"

text \<open>The loop over consecutive locations; the forwarding state is threaded through the calls, which
  fill the path map.\<close>

fun pathlets ::
    "('s \<Rightarrow> dpid \<Rightarrow> dpid \<Rightarrow> int option \<Rightarrow> int option \<Rightarrow> 's \<times> hop list option res) \<Rightarrow> 's \<Rightarrow> loc list \<Rightarrow> 's \<times> hop list option list res" where
  "pathlets find_path s ((switch1_mac, switch1_port) # (switch2_mac, switch2_port) # ms) =
     (case find_path s switch1_mac switch2_mac switch1_port switch2_port of
        (s', Inl e) \<Rightarrow> (s', Inl e)
      | (s', Inr p) \<Rightarrow>
          (case pathlets find_path s' ((switch2_mac, switch2_port) # ms) of
             (s'', Inl e) \<Rightarrow> (s'', Inl e)
           | (s'', Inr rv) \<Rightarrow> (s'', Inr (p # rv))))"
| "pathlets find_path s ms = (s, Inr [])"

definition sp_get_path :: "l2_state \<Rightarrow> loc \<Rightarrow> loc list \<Rightarrow> loc \<Rightarrow> l2_state \<times> hop list option list res" where
  "sp_get_path s src machine_sequence dst = pathlets l2_get_path s ([src] @ machine_sequence @ [dst])"

section \<open>The interface\<close>

locale path_service =
  fixes find_path :: "'s \<Rightarrow> dpid \<Rightarrow> dpid \<Rightarrow> int option \<Rightarrow> int option \<Rightarrow> 's \<times> hop list option res"
    and ok :: "'s \<Rightarrow> bool"
    and known :: "'s \<Rightarrow> dpid set"
    and links :: "'s \<Rightarrow> adjacency"
  assumes answers: "ok s \<Longrightarrow> i \<in> known s \<Longrightarrow> j \<in> known s \<Longrightarrow>
    \<exists>s' r. find_path s i j p q = (s', Inr r) \<and> ok s' \<and> known s' = known s \<and> links s' = links s \<and> best_path (links s) i j p q r"
begin

lemma pathlets_answer:
  assumes "ok s" and "fst ` set ms \<subseteq> known s"
  shows "\<exists>s' rv. pathlets find_path s ms = (s', Inr rv) \<and> ok s' \<and> known s' = known s \<and> links s' = links s \<and>
    length rv = length ms - 1 \<and>
    (\<forall>k < length rv. best_path (links s) (fst (ms ! k)) (fst (ms ! Suc k)) (snd (ms ! k)) (snd (ms ! Suc k)) (rv ! k))"
  using assms
proof (induction ms arbitrary: s)
  case Nil
  then show ?case by simp
next
  case (Cons l ms)
  show ?case
  proof (cases ms)
    case Nil
    with Cons.prems show ?thesis by simp
  next
    case ms: (Cons l' ms')
    obtain a p b q where l: "l = (a, p)" "l' = (b, q)" by fastforce
    obtain s1 r where r: "find_path s a b p q = (s1, Inr r)" "ok s1" "known s1 = known s" "links s1 = links s"
        "best_path (links s) a b p q r"
      using answers [OF Cons.prems(1), of a b p q] Cons.prems(2) by (auto simp: l ms)
    obtain s2 rv where rv: "pathlets find_path s1 ms = (s2, Inr rv)" "ok s2" "known s2 = known s" "links s2 = links s"
        "length rv = length ms - 1"
        "\<forall>k < length rv. best_path (links s) (fst (ms ! k)) (fst (ms ! Suc k)) (snd (ms ! k)) (snd (ms ! Suc k)) (rv ! k)"
      using Cons.IH [OF r(2)] Cons.prems(2) r(3,4) by auto
    have "best_path (links s) (fst ((l # ms) ! k)) (fst ((l # ms) ! Suc k)) (snd ((l # ms) ! k)) (snd ((l # ms) ! Suc k)) ((r # rv) ! k)"
      if "k < length (r # rv)" for k
      using that r(5) rv(6) by (cases k) (auto simp: l ms)
    moreover have "pathlets find_path s (l # ms) = (s2, Inr (r # rv))"
      using r(1) rv(1) by (simp add: l ms)
    ultimately show ?thesis using rv(2-5) by (intro exI [of _ s2] exI [of _ "r # rv"]) (simp add: ms)
  qed
qed

end

interpretation l2_paths: path_service l2_get_path l2_wf "\<lambda>s. set (dict_keys (l2_switches s))" l2_adjacency
proof unfold_locales
  fix s i j p q
  assume "l2_wf s" and "i \<in> set (dict_keys (l2_switches s))" and "j \<in> set (dict_keys (l2_switches s))"
  then have "\<exists>s' r. l2_get_path s i j p q = (s', Inr r) \<and> l2_wf s' \<and> l2_switches s' = l2_switches s \<and>
      l2_adjacency s' = l2_adjacency s \<and> best_path (l2_adjacency s) i j p q r"
    unfolding set_dict_keys by (intro l2_get_path_spec) auto
  then show "\<exists>s' r. l2_get_path s i j p q = (s', Inr r) \<and> l2_wf s' \<and>
      set (dict_keys (l2_switches s')) = set (dict_keys (l2_switches s)) \<and> l2_adjacency s' = l2_adjacency s \<and>
      best_path (l2_adjacency s) i j p q r"
    by auto
qed

text \<open>
  C10. Routing: in every state that satisfies the forwarding invariant, \<^verbatim>\<open>ShortestPathRouting.get_path\<close>
  over known switches returns, keeps the invariant, and gives one pathlet more than there are machines;
  the \<open>k\<close>-th is a shortest checked path from the \<open>k\<close>-th location of the sequence to the next, with their
  ports at its ends, or \<^verbatim>\<open>None\<close> exactly when no links connect the two switches.
\<close>

theorem routing_pathlets:
  assumes "l2_wf s" and "\<forall>l \<in> set ([src] @ ms @ [dst]). has_key (l2_switches s) (fst l)"
  shows "\<exists>s' rv. sp_get_path s src ms dst = (s', Inr rv) \<and> l2_wf s' \<and> length rv = length ms + 1 \<and>
    (\<forall>k < length rv. let a = ([src] @ ms @ [dst]) ! k; b = ([src] @ ms @ [dst]) ! Suc k
       in best_path (l2_adjacency s) (fst a) (fst b) (snd a) (snd b) (rv ! k))"
  using l2_paths.pathlets_answer [OF assms(1), of "[src] @ ms @ [dst]"] assms(2)
  unfolding sp_get_path_def Let_def set_dict_keys by auto

theorem routing_pathlets_witness:
  "\<exists>s' rv. sp_get_path pair_state (1, Some 3) [(2, Some 4)] (1, Some 5) = (s', Inr rv) \<and> length rv = 2 \<and> l2_wf s'"
  using routing_pathlets [OF pair_state_wf, of "(1, Some 3)" "[(2, Some 4)]" "(1, Some 5)"] pair_state_facts by auto

end
