(* ===== verification/Controller.thy ===== *)
theory Controller
  imports Placement Routing
begin

text \<open>
  The controller (\<^verbatim>\<open>slick_controller.py\<close>) and its message processor (\<^verbatim>\<open>msmessageproc.py\<close>): machines that
  register, elements that are applied to a flow space, configured and removed, and the messages sent
  to the shims.  The controller's state is one record with the maps, the network model, the globals of
  the forwarding component and the messages sent so far.

  An operation returns the new state with its answer, or the exception that leaves it; the state after
  an uncaught exception is not described.  Downloads over SSH are arguments, and so is the placement
  module, which acts on the controller's state.
\<close>

section \<open>State\<close>

datatype shim_msg =
    InstallMsg int flow_dict string params
  | ConfigureMsg int params
  | RemoveMsg int params

record 'p controller =
  c_placement :: 'p
  c_net :: net_model
  c_l2 :: l2_state
  c_links :: "link list"
  c_e2a :: elem_to_app
  c_e2m :: elem_to_mac
  c_f2e :: flow_to_elems
  c_m2i :: mac_to_ip
  c_affinity :: flow_affinity
  c_migration :: elem_migration
  c_conns :: "(mac, string) dict"
  c_latest_ed :: int
  c_latest_app :: int
  c_sent :: "(string \<times> shim_msg) list"
  c_migrating_elems :: "(flow_tuple option, int \<times> int) dict"
  c_migrating_flows :: "(flow_tuple option, int) dict"
  c_active_elems :: "(dpid, int list) dict"

definition controller_init :: "'p \<Rightarrow> specs \<Rightarrow> 'p controller" where
  "controller_init p specs =
     \<lparr>c_placement = p, c_net = net_model_init specs, c_l2 = l2_init, c_links = [], c_e2a = [], c_e2m = [], c_f2e = fte_init,
      c_m2i = [], c_affinity = [], c_migration = [], c_conns = [], c_latest_ed = 1, c_latest_app = 100,
      c_sent = [], c_migrating_elems = [], c_migrating_flows = [], c_active_elems = []\<rparr>"

text \<open>The modules named on the command line: an \<^verbatim>\<open>if\<close>/\<^verbatim>\<open>elif\<close> chain for placement, but for
  steering a sequence of \<^verbatim>\<open>if\<close>s whose last one has the \<^verbatim>\<open>else\<close>.\<close>

datatype placement_choice = RandomP | RoundRobinP | IncrementalKP | NetworkAwareP | WeightedP

datatype steering_choice = RandomS | HopCountS | ShortestPathS | LoadAwareS | LASPSS

definition choose_placement :: "string \<Rightarrow> placement_choice" where
  "choose_placement placement =
     (if placement = ''Random'' then RandomP
      else if placement = ''RoundRobin'' then RoundRobinP
      else if placement = ''IncrementalKPlacement'' then IncrementalKP
      else if placement = ''NetworkAwarePlacement'' then NetworkAwareP
      else if placement = ''WeightedPlacement'' then WeightedP
      else RandomP)"

definition choose_steering :: "string \<Rightarrow> steering_choice option" where
  "choose_steering steering =
     (let m0 = None;
          m1 = (if steering = ''Random'' then Some RandomS else m0);
          m2 = (if steering = ''BreadthFirst'' then Some HopCountS else m1);
          m3 = (if steering = ''DepthFirst'' then Some ShortestPathS else m2);
          m4 = (if steering = ''LoadAwareShortestPath'' then Some LoadAwareS else m3)
      in if steering = ''LASPSHeuristics'' then Some LASPSS else Some LoadAwareS)"

definition get_unique_app_descriptor :: "'p controller \<Rightarrow> 'p controller \<times> int" where
  "get_unique_app_descriptor c = (let n = c_latest_app c + 1 in (c\<lparr>c_latest_app := n\<rparr>, n))"

definition get_unique_element_descriptor :: "'p controller \<Rightarrow> 'p controller \<times> int" where
  "get_unique_element_descriptor c = (let n = c_latest_ed c + 1 in (c\<lparr>c_latest_ed := n\<rparr>, n))"

definition register_machine :: "fval \<Rightarrow> mac \<Rightarrow> 'p controller \<Rightarrow> 'p controller" where
  "register_machine machine_ip machine_mac c =
     c\<lparr>c_m2i := mti_add (c_m2i c) machine_mac machine_ip, c_e2m := etm_add (c_e2m c) (Some machine_mac) None\<rparr>"

definition get_all_registered_machines :: "'p controller \<Rightarrow> mac list" where
  "get_all_registered_machines c = mti_get_all_macs (c_m2i c)"

definition is_there_traffic :: "'p controller \<Rightarrow> bool" where
  "is_there_traffic c = is_traffic_present (l2_flow_matrices (c_l2 c))"

section \<open>Messages\<close>

text \<open>\<^verbatim>\<open>json.dumps\<close> raises on the address objects.\<close>

definition json_value :: "fval \<Rightarrow> bool" where
  "json_value v = (case v of FEth _ \<Rightarrow> False | FIP _ \<Rightarrow> False | _ \<Rightarrow> True)"

definition json_dumps :: "shim_msg \<Rightarrow> shim_msg res" where
  "json_dumps msg =
     (case msg of
        InstallMsg fd flow name ps \<Rightarrow> if list_all (\<lambda>(k, v). json_value v) flow then Inr msg else Inl TypeError
      | _ \<Rightarrow> Inr msg)"

definition send_msg :: "mac option \<Rightarrow> shim_msg \<Rightarrow> 'p controller \<Rightarrow> ('p controller \<times> bool) res" where
  "send_msg mb_mac msg c =
     (if length (c_conns c) \<ge> 1
      then (case mb_mac of
              None \<Rightarrow> Inl KeyError
            | Some m \<Rightarrow>
                rbind (dict_getitem (c_conns c) m) (\<lambda>socket_name.
                rbind (json_dumps msg) (\<lambda>text.
                Inr (c\<lparr>c_sent := c_sent c @ [(socket_name, text)]\<rparr>, True))))
      else Inr (c, False))"

text \<open>The overlay network listens to the event the message processor raises.\<close>

definition raise_instance_created :: "mac \<Rightarrow> int \<Rightarrow> string \<Rightarrow> 'p controller \<Rightarrow> 'p controller res" where
  "raise_instance_created mac ed element_name c =
     rbind (handle_ElementInstanceEvent (c_links c) (c_l2 c) mac ed element_name True (nm_overlay (c_net c))) (\<lambda>ov.
     Inr (c\<lparr>c_net := (c_net c)\<lparr>nm_overlay := ov\<rparr>\<rparr>))"

definition send_install_msg :: "int \<Rightarrow> flow_dict \<Rightarrow> string \<Rightarrow> params \<Rightarrow> mac \<Rightarrow> 'p controller \<Rightarrow> ('p controller \<times> bool) res" where
  "send_install_msg fd flow function_name ps msg_dst c =
     rbind (send_msg (Some msg_dst) (InstallMsg fd flow function_name ps) c) (\<lambda>(c1, sent).
     if sent then
       rbind (mti_get (c_m2i c1) (Some msg_dst)) (\<lambda>machine_ip.
       rbind (raise_instance_created msg_dst fd function_name c1) (\<lambda>c2. Inr (c2, True)))
     else Inr (c1, False))"

definition send_configure_msg :: "int \<Rightarrow> params \<Rightarrow> mac option \<Rightarrow> 'p controller \<Rightarrow> 'p controller res" where
  "send_configure_msg fd params_dict msg_dst c =
     rbind (send_msg msg_dst (ConfigureMsg fd params_dict) c) (\<lambda>(c1, sent). Inr c1)"

definition send_remove_msg :: "int \<Rightarrow> params \<Rightarrow> mac option \<Rightarrow> 'p controller \<Rightarrow> ('p controller \<times> bool) res" where
  "send_remove_msg fd params_dict msg_dst c = send_msg msg_dst (RemoveMsg fd params_dict) c"

text \<open>Messages from a shim.  \<open>trigger\<close> is what the controller interface does with a trigger of the shim
  itself, \<open>handle\<close> what an application does with one of its element; an unknown type is answered
  with \<^verbatim>\<open>None\<close>, and \<^verbatim>\<open>BadDomainEvent\<close> calls an attribute that does not exist.\<close>

datatype shim_in =
    ConnectIn
  | DisconnectIn
  | RegisterIn string mac
  | BadDomainIn
  | TriggerIn "int option" params
  | OtherIn

definition process_msg ::
    "(params \<Rightarrow> 'p controller \<Rightarrow> 'p controller res) \<Rightarrow> (int \<Rightarrow> int \<Rightarrow> params \<Rightarrow> 'p controller \<Rightarrow> 'p controller res) \<Rightarrow> shim_in \<Rightarrow> string \<Rightarrow>
     'p controller \<Rightarrow> ('p controller \<times> bool) res" where
  "process_msg trigger handle msg socket_name c =
     (case msg of
        ConnectIn \<Rightarrow> Inr (c, True)
      | DisconnectIn \<Rightarrow> Inr (c, True)
      | RegisterIn machine_ip machine_mac \<Rightarrow>
          rbind (inet_aton machine_ip) (\<lambda>_.
          let c1 = c\<lparr>c_conns := AList.update machine_mac socket_name (c_conns c)\<rparr>;
              c2 = register_machine (FStr machine_ip) machine_mac c1;
              c3 = c2\<lparr>c_net := (c_net c2)\<lparr>nm_overlay := handle_ElementMachineUp machine_mac (nm_overlay (c_net c2))\<rparr>\<rparr>
          in Inr (c3, True))
      | BadDomainIn \<Rightarrow> Inl AttributeError
      | TriggerIn None body \<Rightarrow> Inr (c, True)
      | TriggerIn (Some ed) body \<Rightarrow>
          if ed = 0 then rbind (trigger body c) (\<lambda>c1. Inr (c1, True))
          else rbind (eta_get_app_handle (c_e2a c) ed) (\<lambda>app.
               rbind (handle app ed body c) (\<lambda>c1. Inr (c1, True)))
      | OtherIn \<Rightarrow> Inr (c, False))"

section \<open>Downloads\<close>

record download =
  add_mb_client :: "mac \<Rightarrow> fval \<Rightarrow> bool res"
  put_file :: "mac \<Rightarrow> string \<Rightarrow> bool res"

fun download_each :: "download \<Rightarrow> mac_to_ip \<Rightarrow> string list \<Rightarrow> mac list \<Rightarrow> unit res" where
  "download_each d m2i (element_name # names) (mac_addr # macs) =
     rbind (mti_get m2i (Some mac_addr)) (\<lambda>ip_addr.
     rbind (add_mb_client d mac_addr ip_addr) (\<lambda>added.
     if added then
       rbind (put_file d mac_addr element_name) (\<lambda>put.
       if put then download_each d m2i names macs
       else rbind (mac_to_str [] mac_addr False) (\<lambda>_. Inl (SlickException ElementDownloadFailed)))
     else rbind (mac_to_str [] mac_addr False) (\<lambda>_. Inl (SlickException ElementDownloadFailed))))"
| "download_each d m2i names macs = Inr ()"

definition download_files :: "download \<Rightarrow> string list \<Rightarrow> mac list \<Rightarrow> 'p controller \<Rightarrow> unit res" where
  "download_files d element_names mac_addrs c =
     (if length mac_addrs \<noteq> length element_names then Inl AssertionError
      else download_each d (c_m2i c) element_names mac_addrs)"

section \<open>Applying, configuring and removing elements\<close>

text \<open>The message of the assertion is malformed: when the lengths differ, formatting it raises.\<close>

definition get_placeless_element_names :: "string list \<Rightarrow> mac option list \<Rightarrow> string list res" where
  "get_placeless_element_names element_names mac_addrs =
     (if length mac_addrs \<noteq> length element_names then Inl TypeError
      else Inr (map fst (filter (\<lambda>(n, m). case m of None \<Rightarrow> True | Some mac \<Rightarrow> \<not> mac_truthy mac) (zip element_names mac_addrs))))"

fun new_descriptors :: "nat \<Rightarrow> 'p controller \<Rightarrow> 'p controller \<times> int list" where
  "new_descriptors 0 c = (c, [])"
| "new_descriptors (Suc n) c =
     (case get_unique_element_descriptor c of
        (c1, ed) \<Rightarrow> (case new_descriptors n c1 of (c2, eds) \<Rightarrow> (c2, ed # eds)))"

record apply_args =
  aa_app_desc :: int
  aa_flow :: flow_dict
  aa_application_object :: int
  aa_flowspace_desc :: int

text \<open>One turn of the installation loop: element name, descriptor, parameters, controller parameters
  and machine; \<open>False\<close> when the message could not be sent.\<close>

definition install_element ::
    "apply_args \<Rightarrow> string \<times> int \<times> params \<times> params \<times> mac \<Rightarrow> 'p controller \<Rightarrow> ('p controller \<times> bool) res" where
  "install_element a item c =
     (case item of
        (element_name, elem_desc, parameter, controller_param, mac_addr) \<Rightarrow>
          rbind (send_install_msg elem_desc (aa_flow a) element_name parameter mac_addr c) (\<lambda>(c1, sent).
          if sent then
            rbind (mti_get (c_m2i c1) (Some mac_addr)) (\<lambda>ip_addr.
            let c2 = c1\<lparr>c_e2m := etm_add (c_e2m c1) (Some mac_addr) (Some elem_desc), c_m2i := mti_add (c_m2i c1) mac_addr ip_addr\<rparr>;
                inst = \<lparr>ei_name = element_name, ei_app_desc = aa_app_desc a, ei_elem_desc = elem_desc, ei_location = mac_addr,
                        ei_flowspace_desc = aa_flowspace_desc a\<rparr>
            in rbind (add_element (c_f2e c2) FNone (aa_flow a) inst) (\<lambda>f1.
               rbind (add_element_instance f1 FNone (aa_flow a) inst) (\<lambda>f2.
               Inr (c2\<lparr>c_f2e := f2,
                       c_e2a := eta_update (c_e2a c2) elem_desc (aa_application_object a) (aa_app_desc a) parameter controller_param,
                       c_net := add_placement (c_net c2) element_name (aa_app_desc a) elem_desc mac_addr (aa_flowspace_desc a)\<rparr>,
                    True))))
          else Inr (c1, False)))"

fun install_elements ::
    "apply_args \<Rightarrow> (string \<times> int \<times> params \<times> params \<times> mac) list \<Rightarrow> 'p controller \<Rightarrow> ('p controller \<times> bool) res" where
  "install_elements a [] c = Inr (c, True)"
| "install_elements a (item # items) c =
     rbind (install_element a item c) (\<lambda>(c1, ok). if ok then install_elements a items c1 else Inr (c1, False))"

type_synonym 'p placement_fun = "'p controller \<Rightarrow> int \<Rightarrow> string list \<Rightarrow> ('p controller \<times> mac option list option) res"

text \<open>From the answer of the placement module on: the machines are checked, the code is downloaded, the
  descriptors are drawn and the elements installed.\<close>

definition install_placed ::
    "download \<Rightarrow> apply_args \<Rightarrow> string list \<Rightarrow> params list \<Rightarrow> params list \<Rightarrow> mac list \<Rightarrow> 'p controller \<Rightarrow> ('p controller \<times> int list) res" where
  "install_placed d a element_names parameters controller_params macs c =
     rbind (rmapM (\<lambda>m. mac_to_str [] m False) macs) (\<lambda>_.
     case download_files d element_names macs c of
       Inl (SlickException ElementDownloadFailed) \<Rightarrow> Inr (c, [- 2])
     | Inl e \<Rightarrow> Inl e
     | Inr _ \<Rightarrow>
         (case new_descriptors (length element_names) c of
            (c1, elem_descs) \<Rightarrow>
              if length element_names \<noteq> length parameters \<or> length element_names \<noteq> length controller_params then Inl AssertionError
              else rbind (install_elements a (zip element_names (zip elem_descs (zip parameters (zip controller_params macs)))) c1) (\<lambda>(c2, ok).
                   Inr (c2, if ok then elem_descs else [- 1]))))"

definition update_preferences :: "string list \<Rightarrow> params list \<Rightarrow> 'p controller \<Rightarrow> 'p controller res" where
  "update_preferences element_names controller_params c =
     (case controller_params of
        [] \<Rightarrow> Inr c
      | p # _ \<Rightarrow>
          if length p = 0 then Inr c
          else (case nm_update_admin_elem_specs (c_net c) element_names controller_params of
                  (nm, Inl e) \<Rightarrow> Inl e
                | (nm, Inr _) \<Rightarrow> Inr (c\<lparr>c_net := nm\<rparr>)))"

text \<open>\<open>Inr\<close> the state to go on with, or the answer \<^verbatim>\<open>[-4]\<close>.\<close>

definition wait_for_machines :: "'p controller \<Rightarrow> 'p controller \<times> bool" where
  "wait_for_machines c =
     (let registered_machines = get_all_registered_machines c;
          all_machines = get_all_machines (nm_overlay (c_net c))
      in if length registered_machines = 0 then
           (let c1 = c\<lparr>c_net := (c_net c)\<lparr>nm_physical :=
                        update_topo_graph (dict_keys (l2_switches (c_l2 c))) (l2_adjacency (c_l2 c)) (nm_physical (c_net c))\<rparr>\<rparr>
            in (c1, length registered_machines < length all_machines))
         else (c, False))"

definition apply_elem ::
    "'p placement_fun \<Rightarrow> download \<Rightarrow> int \<Rightarrow> flow_dict \<Rightarrow> string list \<Rightarrow> params list \<Rightarrow> params list \<Rightarrow> int \<Rightarrow> 'p controller \<Rightarrow>
     ('p controller \<times> int list) res" where
  "apply_elem get_placement d app_desc flow element_names parameters controller_params application_object c0 =
     rbind (update_preferences element_names controller_params c0) (\<lambda>c1.
     case wait_for_machines c1 of
       (c2, True) \<Rightarrow> Inr (c2, [- 4])
     | (c2, False) \<Rightarrow>
         rbind (get_unique_flowspace_desc (c_f2e c2) (FlowDictArg flow)) (\<lambda>(f2e, flowspace_desc).
         let c3 = c2\<lparr>c_f2e := f2e\<rparr> in
         if \<not> is_there_traffic c3 then Inr (c3, [- 5])
         else
           rbind (get_placement c3 flowspace_desc element_names) (\<lambda>(c4, answer).
           case answer of
             None \<Rightarrow> Inr (c4, [- 1])
           | Some [] \<Rightarrow> Inr (c4, [- 1])
           | Some mac_addrs \<Rightarrow>
               rbind (get_placeless_element_names element_names mac_addrs) (\<lambda>placeless.
               if placeless \<noteq> [] then Inr (c4, [- 1])
               else install_placed d \<lparr>aa_app_desc = app_desc, aa_flow = flow, aa_application_object = application_object,
                                     aa_flowspace_desc = flowspace_desc\<rparr>
                      element_names parameters controller_params (map the mac_addrs) c4))))"

definition configure_elem :: "int \<Rightarrow> int \<Rightarrow> params \<Rightarrow> 'p controller \<Rightarrow> 'p controller res" where
  "configure_elem app_desc elem_desc application_conf_params c =
     rbind (eta_get_app_desc (c_e2a c) elem_desc) (\<lambda>owner.
     if owner = app_desc then
       rbind (eta_get_app_handle (c_e2a c) elem_desc) (\<lambda>app_handle.
       case etm_get (c_e2m c) elem_desc of
         None \<Rightarrow> Inr c
       | Some msg_dst \<Rightarrow> send_configure_msg elem_desc application_conf_params (Some msg_dst) c)
     else Inr c)"

text \<open>\<^verbatim>\<open>elem_to_mac.remove(None, ed)\<close>, for a descriptor on no machine, is not reached: the message would
  have no destination.\<close>

definition remove_elem :: "int \<Rightarrow> int \<Rightarrow> 'p controller \<Rightarrow> 'p controller res" where
  "remove_elem app_desc elem_desc c =
     rbind (eta_get_elem_parameters (c_e2a c) elem_desc) (\<lambda>parameters.
     let msg_dst = etm_get (c_e2m c) elem_desc in
     rbind (send_remove_msg elem_desc parameters msg_dst c) (\<lambda>(c1, sent).
     let c2 = (case msg_dst of
                 Some m \<Rightarrow> if sent then c1\<lparr>c_e2m := fst (etm_remove (c_e2m c1) m (Some elem_desc))\<rparr> else c1
               | None \<Rightarrow> c1);
         c3 = c2\<lparr>c_f2e := remove_element_instance (c_f2e c2) elem_desc\<rparr>
     in rbind (eta_remove (c_e2a c3) elem_desc) (\<lambda>e2a.
        rbind (remove_placement (c_net c3) elem_desc) (\<lambda>nm.
        Inr (c3\<lparr>c_e2a := e2a, c_net := nm\<rparr>)))))"

end
