(* ===== verification/Deployment.thy ===== *)
theory Deployment
  imports Controller
begin

text \<open>
  What the controller promises to applications: the deployment, a partial function from element
  descriptors to element instances, and its implementation by four tables the operations of
  \<^verbatim>\<open>slick_controller.py\<close> keep in step: the network model's two indexes, the machine of a descriptor
  (\<^verbatim>\<open>elem_to_mac\<close>), its owner (\<^verbatim>\<open>elem_to_app\<close>) and the chains of the flow spaces (\<^verbatim>\<open>flow_to_elems\<close>).
  The placement module the controller was started with acts on the controller's state; what the
  operations need of it is the locale \<open>placement_service\<close>.
\<close>

section \<open>The placement module of a running controller\<close>

text \<open>The state of the modules: the position in the random stream, the round-robin tables and the list
  \<^verbatim>\<open>_used_macs\<close> of the centrality-based modules.\<close>

record placement_state =
  ps_draws :: nat
  ps_round_robin :: round_robin
  ps_used_macs :: "mac list"

definition placement_state_init :: placement_state where
  "placement_state_init = \<lparr>ps_draws = 0, ps_round_robin = round_robin_init, ps_used_macs = []\<rparr>"

record placement_env =
  pe_rnd :: "nat \<Rightarrow> nat"
  pe_weighted :: "nx_graph \<Rightarrow> (dpid \<times> dpid \<times> int) list \<Rightarrow> centralities"
  pe_na :: na_env

abbreviation with_used :: "mac list \<Rightarrow> placement_state controller \<Rightarrow> placement_state controller" where
  "with_used used c \<equiv> c\<lparr>c_placement := (c_placement c)\<lparr>ps_used_macs := used\<rparr>\<rparr>"

definition controller_get_placement :: "placement_env \<Rightarrow> placement_choice \<Rightarrow> placement_state placement_fun" where
  "controller_get_placement env selected c flowspace_desc elements_to_install =
     (let ps = c_placement c in
      case selected of
        RandomP \<Rightarrow>
          (case random_get_placement (pe_rnd env) (c_m2i c) (ps_draws ps) elements_to_install of
             None \<Rightarrow> Inr (c, None)
           | Some rv \<Rightarrow> Inr (c\<lparr>c_placement := ps\<lparr>ps_draws := ps_draws ps + length elements_to_install\<rparr>\<rparr>, Some (map Some rv)))
      | RoundRobinP \<Rightarrow>
          (case rr_get_placement (c_m2i c) (ps_round_robin ps) elements_to_install of
             (rr, rv) \<Rightarrow> Inr (c\<lparr>c_placement := ps\<lparr>ps_round_robin := rr\<rparr>\<rparr>, Some rv))
      | IncrementalKP \<Rightarrow>
          rbind (inc_k_get_placement (na_betweenness (pe_na env)) (c_e2m c) (c_m2i c) (c_net c) (ps_used_macs ps) elements_to_install)
            (\<lambda>(used, rv). Inr (with_used used c, Some rv))
      | NetworkAwareP \<Rightarrow>
          rbind (na_get_placement (pe_na env) (c_e2m c) (c_m2i c) flowspace_desc (c_net c, ps_used_macs ps) elements_to_install)
            (\<lambda>((nm, used), rv). Inr (with_used used (c\<lparr>c_net := nm\<rparr>), Some rv))
      | WeightedP \<Rightarrow>
          rbind (weighted_get_placement (pe_weighted env) (c_e2m c) (c_m2i c) (c_net c) flowspace_desc
                   (ps_used_macs ps, l2_flow_matrices (c_l2 c)) elements_to_install)
            (\<lambda>((used, fms), rv). Inr (with_used used (c\<lparr>c_l2 := (c_l2 c)\<lparr>l2_flow_matrices := fms\<rparr>\<rparr>), Some rv)))"

section \<open>The deployment and the tables that implement it\<close>

definition deployment :: "'p controller \<Rightarrow> int \<rightharpoonup> element_instance" where
  "deployment c = map_of (ed_to_instance (c_net c))"

definition flow_instances :: "'p controller \<Rightarrow> flow_tuple \<Rightarrow> element_instance list" where
  "flow_instances c f = insts_of (c_f2e c) f"

text \<open>The four tables describe one deployment: a descriptor's machine and owner are those of its
  instance, a flow space lists exactly the instances that were applied to it, no descriptor in use
  is ahead of the counter, and the machine of every instance has a connection.\<close>

definition consistent :: "'p controller \<Rightarrow> bool" where
  "consistent c \<longleftrightarrow> nm_wf (c_net c) \<and> etm_wf (c_e2m c) \<and> fte_ids_wf (c_f2e c) \<and>
     (\<forall>ed. etm_get (c_e2m c) ed = map_option ei_location (deployment c ed)) \<and>
     (\<forall>ed. map_option ae_app_desc (map_of (c_e2a c) ed) = map_option ei_app_desc (deployment c ed)) \<and>
     (\<forall>ed i. deployment c ed = Some i \<longrightarrow> ed \<le> c_latest_ed c \<and> has_key (c_conns c) (ei_location i) \<and>
        (\<exists>f. map_of (flow_to_id (c_f2e c)) f = Some (ei_flowspace_desc i))) \<and>
     (\<forall>f. distinct (map ei_elem_desc (flow_instances c f))) \<and>
     (\<forall>f i. i \<in> set (flow_instances c f) \<longleftrightarrow>
        deployment c (ei_elem_desc i) = Some i \<and> map_of (flow_to_id (c_f2e c)) f = Some (ei_flowspace_desc i))"

text \<open>The part of the state the invariant reads, and the machines.\<close>

definition books :: "'p controller \<Rightarrow> _" where
  "books c = (name_to_instances (c_net c), ed_to_instance (c_net c), c_e2m c, c_e2a c, c_f2e c, c_latest_ed c, c_m2i c, c_conns c)"

lemma nm_wf_cong:
  "name_to_instances nm = name_to_instances nm' \<Longrightarrow> ed_to_instance nm = ed_to_instance nm' \<Longrightarrow> nm_wf nm = nm_wf nm'"
  by (simp add: nm_wf_def instances_named_def)

lemma books_same:
  assumes "books c' = books c"
  shows "consistent c' = consistent c" and "deployment c' = deployment c" and "c_m2i c' = c_m2i c" and "c_conns c' = c_conns c"
    and "c_latest_ed c' = c_latest_ed c" and "c_f2e c' = c_f2e c" and "c_e2m c' = c_e2m c" and "c_e2a c' = c_e2a c"
proof -
  have "nm_wf (c_net c') = nm_wf (c_net c)" using assms by (intro nm_wf_cong) (simp_all add: books_def)
  with assms show "consistent c' = consistent c"
    by (simp add: books_def consistent_def deployment_def flow_instances_def)
qed (use assms in \<open>simp_all add: books_def deployment_def\<close>)

lemma consistentD:
  assumes "consistent c"
  shows "nm_wf (c_net c)" and "etm_wf (c_e2m c)" and "fte_ids_wf (c_f2e c)"
    and "etm_get (c_e2m c) ed = map_option ei_location (deployment c ed)"
    and "map_option ae_app_desc (map_of (c_e2a c) ed) = map_option ei_app_desc (deployment c ed)"
    and "deployment c ed = Some i \<Longrightarrow> ed \<le> c_latest_ed c"
    and "deployment c ed = Some i \<Longrightarrow> \<exists>f. map_of (flow_to_id (c_f2e c)) f = Some (ei_flowspace_desc i)"
    and "distinct (map ei_elem_desc (flow_instances c f))"
    and "i \<in> set (flow_instances c f) \<longleftrightarrow>
        deployment c (ei_elem_desc i) = Some i \<and> map_of (flow_to_id (c_f2e c)) f = Some (ei_flowspace_desc i)"
    and "deployment c ed = Some i \<Longrightarrow> has_key (c_conns c) (ei_location i)"
  using assms unfolding consistent_def by simp_all

lemma deployment_desc: "consistent c \<Longrightarrow> deployment c ed = Some i \<Longrightarrow> ei_elem_desc i = ed"
  using nm_wf_ed(1) [OF consistentD(1)] by (simp add: deployment_def)

lemma controller_init_consistent: "consistent (controller_init p specs)"
  by (simp add: consistent_def controller_init_def deployment_def flow_instances_def net_model_init_wf fte_init_wf
      etm_wf_def etm_get_def) (simp add: net_model_init_def)

section \<open>Steps that leave the tables alone\<close>

lemma books_preferences: "update_preferences names cps c = Inr c' \<Longrightarrow> books c' = books c"
  by (auto simp: update_preferences_def nm_update_admin_elem_specs_def books_def split: list.splits if_splits prod.splits sum.splits)

lemma books_wait: "wait_for_machines c = (c', b) \<Longrightarrow> books c' = books c"
  by (auto simp: wait_for_machines_def Let_def books_def split: if_splits)

lemma books_send: "send_msg m msg c = Inr (c', b) \<Longrightarrow> books c' = books c \<and> (b \<longleftrightarrow> c_conns c \<noteq> [])"
  by (cases "c_conns c") (auto simp: send_msg_def rbind_eq_Inr books_def split: option.splits)

lemma books_raise: "raise_instance_created m ed n c = Inr c' \<Longrightarrow> books c' = books c"
  by (auto simp: raise_instance_created_def rbind_eq_Inr books_def)

lemma books_send_install:
  "send_install_msg ed flow n ps m c = Inr (c', b) \<Longrightarrow> books c' = books c \<and> (b \<longleftrightarrow> c_conns c \<noteq> [])"
  unfolding send_install_msg_def
  by (auto simp: rbind_eq_Inr dest!: books_send books_raise split: if_splits)

lemma books_configure: "configure_elem a ed ps c = Inr c' \<Longrightarrow> books c' = books c"
  by (auto simp: configure_elem_def send_configure_msg_def rbind_eq_Inr dest: books_send split: if_splits option.splits)

lemma new_descriptors_eq:
  "new_descriptors n c = (c\<lparr>c_latest_ed := c_latest_ed c + int n\<rparr>, map (\<lambda>k. c_latest_ed c + 1 + int k) [0..<n])"
proof (induction n arbitrary: c)
  case (Suc n)
  have "map (\<lambda>k. c_latest_ed c + 1 + int k) [0..<Suc n] =
      (c_latest_ed c + 1) # map (\<lambda>k. c_latest_ed c + 2 + int k) [0..<n]"
    by (rule nth_equalityI) (auto simp: nth_Cons simp del: upt_Suc split: nat.split)
  with Suc show ?case by (simp add: get_unique_element_descriptor_def Let_def algebra_simps)
qed simp

section \<open>Installing\<close>

definition new_instance :: "apply_args \<Rightarrow> string \<Rightarrow> int \<Rightarrow> mac \<Rightarrow> element_instance" where
  "new_instance a n ed m = \<lparr>ei_name = n, ei_app_desc = aa_app_desc a, ei_elem_desc = ed, ei_location = m,
     ei_flowspace_desc = aa_flowspace_desc a\<rparr>"

lemma new_instance_sel [simp]:
  "ei_name (new_instance a n ed m) = n" "ei_app_desc (new_instance a n ed m) = aa_app_desc a"
  "ei_elem_desc (new_instance a n ed m) = ed" "ei_location (new_instance a n ed m) = m"
  "ei_flowspace_desc (new_instance a n ed m) = aa_flowspace_desc a"
  by (simp_all add: new_instance_def)

lemma add_element_instances: "add_element fm p d e = Inr fm' \<Longrightarrow>
    flow_to_element_instance_mapping fm' = flow_to_element_instance_mapping fm \<and> flow_to_id fm' = flow_to_id fm \<and>
    flowspace_id fm' = flowspace_id fm"
  by (auto simp: add_element_def Let_def rbind_eq_Inr split: option.splits if_splits)

lemma add_element_instance_lists:
  "flow_to_tuple p d = Inr f \<Longrightarrow> add_element_instance fm p d e = Inr fm' \<Longrightarrow>
    insts_of fm' g = (if g = f then insts_of fm f @ [e] else insts_of fm g) \<and> flow_to_id fm' = flow_to_id fm \<and>
    flowspace_id fm' = flowspace_id fm"
  by (auto simp: add_element_instance_def rbind_eq_Inr split: option.splits)

lemma fte_ids_wf_cong: "flow_to_id fm = flow_to_id fm' \<Longrightarrow> flowspace_id fm = flowspace_id fm' \<Longrightarrow> fte_ids_wf fm = fte_ids_wf fm'"
  by (simp add: fte_ids_wf_def)

lemma fte_ids_inj: "fte_ids_wf fm \<Longrightarrow> map_of (flow_to_id fm) f = Some i \<Longrightarrow> map_of (flow_to_id fm) g = Some i \<Longrightarrow> f = g"
  by (metis get_flowspace_iff option.inject)

text \<open>The state after one installed element, with the parts the invariant reads.\<close>

lemma install_element_eq:
  assumes "install_element a (n, ed, p, cp, m) c = Inr (c', True)" and "flow_to_tuple FNone (aa_flow a) = Inr f"
    and "\<not> has_key (c_e2a c) ed"
  shows "c_e2m c' = etm_add (c_e2m c) (Some m) (Some ed)" and "c_m2i c' = c_m2i c" and "c_conns c' = c_conns c"
    and "c_latest_ed c' = c_latest_ed c"
    and "map_of (c_e2a c') = (map_of (c_e2a c))(ed \<mapsto> \<lparr>ae_application_object = aa_application_object a,
           ae_app_desc = aa_app_desc a, ae_parameter = p, ae_controller_param = cp\<rparr>)"
    and "flow_instances c' g = (if g = f then flow_instances c f @ [new_instance a n ed m] else flow_instances c g)"
    and "flow_to_id (c_f2e c') = flow_to_id (c_f2e c)" and "flowspace_id (c_f2e c') = flowspace_id (c_f2e c)"
    and "deployment c' = (deployment c)(ed \<mapsto> new_instance a n ed m)"
    and "nm_wf (c_net c) \<Longrightarrow> \<not> has_key (ed_to_instance (c_net c)) ed \<Longrightarrow> nm_wf (c_net c')"
proof -
  from assms(1) obtain c1 ip f1 f2 where c1: "send_install_msg ed (aa_flow a) n p m c = Inr (c1, True)"
      "mti_get (c_m2i c1) (Some m) = Inr ip"
      "add_element (c_f2e c1) FNone (aa_flow a) (new_instance a n ed m) = Inr f1"
      "add_element_instance f1 FNone (aa_flow a) (new_instance a n ed m) = Inr f2"
      "c' = c1\<lparr>c_e2m := etm_add (c_e2m c1) (Some m) (Some ed), c_m2i := mti_add (c_m2i c1) m ip, c_f2e := f2,
         c_e2a := eta_update (c_e2a c1) ed (aa_application_object a) (aa_app_desc a) p cp,
         c_net := add_placement (c_net c1) n (aa_app_desc a) ed m (aa_flowspace_desc a)\<rparr>"
    by (auto simp: install_element_def Let_def rbind_eq_Inr new_instance_def split: if_splits)
  have bk: "books c1 = books c" using books_send_install [OF c1(1)] by simp
  note same = books_same [OF bk]
  have known: "mti_add (c_m2i c1) m ip = c_m2i c1" using c1(2) by (simp add: mti_get_def mti_add_def)
  note f1 = add_element_instances [OF c1(3)]
  note f2 = add_element_instance_lists [OF assms(2) c1(4)]
  show "c_e2m c' = etm_add (c_e2m c) (Some m) (Some ed)" "c_m2i c' = c_m2i c" "c_conns c' = c_conns c"
      "c_latest_ed c' = c_latest_ed c" using same known by (simp_all add: c1(5))
  show "map_of (c_e2a c') = (map_of (c_e2a c))(ed \<mapsto> \<lparr>ae_application_object = aa_application_object a,
           ae_app_desc = aa_app_desc a, ae_parameter = p, ae_controller_param = cp\<rparr>)"
    using same(8) assms(3) by (simp add: c1(5) eta_update_def)
  show "flow_instances c' g = (if g = f then flow_instances c f @ [new_instance a n ed m] else flow_instances c g)"
      "flow_to_id (c_f2e c') = flow_to_id (c_f2e c)" "flowspace_id (c_f2e c') = flowspace_id (c_f2e c)"
    using same(6) f1 f2 [of g] by (simp_all add: c1(5) flow_instances_def)
  have "ed_to_instance (c_net c1) = ed_to_instance (c_net c)" using bk by (simp add: books_def)
  then show "deployment c' = (deployment c)(ed \<mapsto> new_instance a n ed m)"
    by (simp add: c1(5) deployment_def add_placement_eds new_instance_def)
  assume "nm_wf (c_net c)" "\<not> has_key (ed_to_instance (c_net c)) ed"
  moreover have "nm_wf (c_net c1) = nm_wf (c_net c)" using bk by (intro nm_wf_cong) (simp_all add: books_def)
  ultimately show "nm_wf (c_net c')"
    using \<open>ed_to_instance (c_net c1) = ed_to_instance (c_net c)\<close> by (simp add: c1(5) add_placement_wf)
qed

lemma send_install_connected: "send_install_msg ed flow n ps m c = Inr (c', True) \<Longrightarrow> has_key (c_conns c) m"
  by (auto simp: send_install_msg_def send_msg_def rbind_eq_Inr split: if_splits)

lemma install_element_connected: "install_element a (n, ed, p, cp, m) c = Inr (c', True) \<Longrightarrow> has_key (c_conns c) m"
  by (auto simp: install_element_def rbind_eq_Inr split: if_splits dest: send_install_connected)

lemma install_element_consistent:
  assumes "consistent c" and "install_element a (n, ed, p, cp, m) c = Inr (c', True)"
    and "flow_to_tuple FNone (aa_flow a) = Inr f" and "map_of (flow_to_id (c_f2e c)) f = Some (aa_flowspace_desc a)"
    and "deployment c ed = None" and "ed \<le> c_latest_ed c"
  shows "consistent c'"
proof -
  note inv = consistentD [OF assms(1)]
  have "\<not> has_key (c_e2a c) ed" using inv(5) [of ed] assms(5) by simp
  note c' = install_element_eq [OF assms(2,3) this]
  have none: "etm_get (c_e2m c) ed = None" using inv(4) assms(5) by simp
  have "\<not> has_key (ed_to_instance (c_net c)) ed" using assms(5) by (simp add: deployment_def)
  then have "nm_wf (c_net c')" by (rule c'(10) [OF inv(1)])
  moreover have "etm_wf (c_e2m c')" using none by (simp add: c'(1) etm_wf_add inv(2) etm_get_None_iff)
  moreover have "fte_ids_wf (c_f2e c')" using inv(3) fte_ids_wf_cong [OF c'(7,8)] by simp
  moreover have "etm_get (c_e2m c') e = map_option ei_location (deployment c' e)" for e
    using inv(4) [of e] by (simp add: c'(1,9) etm_get_add [OF inv(2) none])
  moreover have "map_option ae_app_desc (map_of (c_e2a c') e) = map_option ei_app_desc (deployment c' e)" for e
    using inv(5) [of e] by (simp add: c'(5,9))
  moreover have "e \<le> c_latest_ed c' \<and> has_key (c_conns c') (ei_location i) \<and>
      (\<exists>f. map_of (flow_to_id (c_f2e c')) f = Some (ei_flowspace_desc i))" if "deployment c' e = Some i" for e i
    using that assms(4,6) inv(6,7,10) [of e i] install_element_connected [OF assms(2)]
    by (auto simp: c'(3,4,7,9) split: if_splits)
  moreover have other: "ei_elem_desc i \<noteq> ed" if "i \<in> set (flow_instances c g)" for i g
    using that inv(9) assms(5) by auto
  have "distinct (map ei_elem_desc (flow_instances c' g))" for g
    using inv(8) [of g] other [of _ g] by (auto simp: c'(6))
  moreover have "i \<in> set (flow_instances c' g) \<longleftrightarrow>
      deployment c' (ei_elem_desc i) = Some i \<and> map_of (flow_to_id (c_f2e c')) g = Some (ei_flowspace_desc i)" for i g
  proof (cases "ei_elem_desc i = ed")
    case True
    have "i \<in> set (flow_instances c' g) \<longleftrightarrow> g = f \<and> i = new_instance a n ed m"
      using True other by (auto simp: c'(6))
    also have "\<dots> \<longleftrightarrow> i = new_instance a n ed m \<and> map_of (flow_to_id (c_f2e c)) g = Some (aa_flowspace_desc a)"
      using assms(4) fte_ids_inj [OF inv(3) _ assms(4)] by blast
    also have "\<dots> \<longleftrightarrow> deployment c' ed = Some i \<and> map_of (flow_to_id (c_f2e c')) g = Some (ei_flowspace_desc i)"
      by (auto simp: c'(7,9))
    finally show ?thesis by (simp only: True)
  next
    case False
    then show ?thesis using inv(9) [of i g] by (auto simp: c'(6,7,9))
  qed
  ultimately show ?thesis unfolding consistent_def by blast
qed

lemma install_element_sent:
  "install_element a item c = Inr (c', ok) \<Longrightarrow> (ok \<longleftrightarrow> c_conns c \<noteq> []) \<and> c_conns c' = c_conns c"
  by (auto simp: install_element_def Let_def rbind_eq_Inr split: prod.splits if_splits dest!: books_send_install books_same(4))

lemma install_elements_sent: "install_elements a items c = Inr (c', ok) \<Longrightarrow> ok \<longleftrightarrow> items = [] \<or> c_conns c \<noteq> []"
proof (induction items arbitrary: c)
  case (Cons item items)
  then obtain c1 ok1 where c1: "install_element a item c = Inr (c1, ok1)"
      "(if ok1 then install_elements a items c1 else Inr (c1, False)) = Inr (c', ok)" by (auto simp: rbind_eq_Inr)
  with install_element_sent [OF c1(1)] Cons.IH [of c1] show ?case by (auto split: if_splits)
qed simp

text \<open>Installing a list of elements under fresh descriptors extends the deployment by one instance
  each; the message can only fail to be sent before the first, when no shim is connected.\<close>

abbreviation placed_instances :: "apply_args \<Rightarrow> (string \<times> int \<times> params \<times> params \<times> mac) list \<Rightarrow> (int \<times> element_instance) list" where
  "placed_instances a items \<equiv> map (\<lambda>(n, ed, p, cp, m). (ed, new_instance a n ed m)) items"

lemma install_elements_consistent:
  assumes "consistent c" and "install_elements a items c = Inr (c', ok)"
    and "flow_to_tuple FNone (aa_flow a) = Inr f" and "map_of (flow_to_id (c_f2e c)) f = Some (aa_flowspace_desc a)"
    and "distinct (map (fst \<circ> snd) items)"
    and "\<forall>ed \<in> set (map (fst \<circ> snd) items). deployment c ed = None \<and> ed \<le> c_latest_ed c"
  shows "consistent c' \<and> flow_to_id (c_f2e c') = flow_to_id (c_f2e c) \<and>
     deployment c' = (if ok then deployment c ++ map_of (placed_instances a items) else deployment c)"
  using assms
proof (induction items arbitrary: c)
  case Nil
  then show ?case by simp
next
  case (Cons item items)
  obtain n ed p cp m where item: "item = (n, ed, p, cp, m)" by (metis prod_cases5)
  from Cons.prems(2) obtain c1 ok1 where c1: "install_element a item c = Inr (c1, ok1)"
      "(if ok1 then install_elements a items c1 else Inr (c1, False)) = Inr (c', ok)" by (auto simp: rbind_eq_Inr)
  have fresh: "deployment c ed = None" "ed \<le> c_latest_ed c" using Cons.prems(6) by (simp_all add: item)
  show ?case
  proof (cases ok1)
    case True
    have i1: "install_element a (n, ed, p, cp, m) c = Inr (c1, True)" using c1(1) True by (simp add: item)
    have cons: "consistent c1" by (rule install_element_consistent [OF Cons.prems(1) i1 Cons.prems(3,4) fresh])
    have "\<not> has_key (c_e2a c) ed" using consistentD(5) [OF Cons.prems(1), of ed] fresh(1) by simp
    note e1 = install_element_eq [OF i1 Cons.prems(3) this]
    have "consistent c' \<and> flow_to_id (c_f2e c') = flow_to_id (c_f2e c1) \<and>
        deployment c' = (if ok then deployment c1 ++ map_of (placed_instances a items) else deployment c1)"
    proof (rule Cons.IH [OF cons _ Cons.prems(3)])
      show "\<forall>e \<in> set (map (fst \<circ> snd) items). deployment c1 e = None \<and> e \<le> c_latest_ed c1"
        using Cons.prems(5,6) by (auto simp: e1(4,9) item)
    qed (use c1(2) True Cons.prems(4,5) e1(7) in simp_all)
    moreover have ok
      using c1(2) True install_elements_sent [of a items c1 c' ok] install_element_sent [OF i1] by auto
    moreover have "map_of (placed_instances a items) ed = None"
      using Cons.prems(5) by (auto simp: item map_of_eq_None_iff rev_image_eqI)
    ultimately show ?thesis using e1(7,9) by (auto simp: item map_add_def fun_eq_iff split: option.splits)
  next
    case False
    then have "books c1 = books c" "\<not> ok" "c1 = c'"
      using c1 by (auto simp: item install_element_def rbind_eq_Inr Let_def split: if_splits dest!: books_send_install)
    with Cons.prems(1) books_same [of c1 c] show ?thesis by auto
  qed
qed

section \<open>Applying elements\<close>

text \<open>The chain an application gets: element \<open>k\<close> under descriptor \<open>k\<close> on machine \<open>k\<close>.\<close>

definition deployed_chain :: "apply_args \<Rightarrow> string list \<Rightarrow> int list \<Rightarrow> mac list \<Rightarrow> (int \<times> element_instance) list" where
  "deployed_chain a names eds macs = map (\<lambda>(n, ed, m). (ed, new_instance a n ed m)) (zip names (zip eds macs))"

definition fresh_descriptors :: "'p controller \<Rightarrow> nat \<Rightarrow> int list" where
  "fresh_descriptors c n = map (\<lambda>k. c_latest_ed c + 1 + int k) [0..<n]"

lemma placed_instances_chain:
  "length eds = length names \<Longrightarrow> length ps = length names \<Longrightarrow> length cps = length names \<Longrightarrow> length macs = length names \<Longrightarrow>
   placed_instances a (zip names (zip eds (zip ps (zip cps macs)))) = deployed_chain a names eds macs"
  unfolding deployed_chain_def by (rule nth_equalityI) simp_all

lemma map_desc_zip:
  "length eds = length names \<Longrightarrow> length rest = length names \<Longrightarrow> map (fst \<circ> snd) (zip names (zip eds rest)) = eds"
  by (rule nth_equalityI) simp_all

lemma download_each_registered:
  "download_each d m2i names macs = Inr () \<Longrightarrow> length macs = length names \<Longrightarrow> set macs \<subseteq> registered m2i"
proof (induction macs arbitrary: names)
  case (Cons m macs)
  then obtain n ns where names: "names = n # ns" by (cases names) auto
  with Cons.prems obtain ip where "map_of m2i m = Some ip" "download_each d m2i ns macs = Inr ()"
    by (auto simp: rbind_eq_Inr mti_get_def split: if_splits)
  with Cons.IH [of ns] Cons.prems(2) names show ?case
    by (auto simp: registered_def mti_get_all_macs_def intro: rev_image_eqI dest!: map_of_SomeD)
qed simp

text \<open>What an installation leaves: the old deployment with an error code, or the chain.\<close>

definition extends_deployment :: "'p controller \<Rightarrow> apply_args \<Rightarrow> string list \<Rightarrow> int list \<Rightarrow> 'p controller \<Rightarrow> bool" where
  "extends_deployment c a names eds c' \<longleftrightarrow> eds = fresh_descriptors c (length names) \<and>
     (\<exists>macs. length macs = length names \<and> set macs \<subseteq> registered (c_m2i c) \<and>
        deployment c' = deployment c ++ map_of (deployed_chain a names eds macs))"

lemma latest_consistent:
  assumes "consistent c" and "c_latest_ed c \<le> n"
  shows "consistent (c\<lparr>c_latest_ed := n\<rparr>)" and "deployment (c\<lparr>c_latest_ed := n\<rparr>) = deployment c"
proof -
  show "deployment (c\<lparr>c_latest_ed := n\<rparr>) = deployment c" by (simp add: deployment_def)
  with assms show "consistent (c\<lparr>c_latest_ed := n\<rparr>)" unfolding consistent_def by (fastforce simp: flow_instances_def)
qed

lemma install_placed_refines:
  assumes "consistent c" and "install_placed d a names ps cps macs c = Inr (c', eds)"
    and "flow_to_tuple FNone (aa_flow a) = Inr f" and "map_of (flow_to_id (c_f2e c)) f = Some (aa_flowspace_desc a)"
  shows "consistent c' \<and> flow_to_id (c_f2e c') = flow_to_id (c_f2e c) \<and>
     (eds \<in> {[- 1], [- 2]} \<and> deployment c' = deployment c \<or> extends_deployment c a names eds c')"
proof (cases "download_files d names macs c")
  case (Inl e)
  then have "eds = [- 2] \<and> c' = c"
    using assms(2) by (auto simp: install_placed_def rbind_eq_Inr split: py_error.splits slick_exception.splits)
  with assms(1) show ?thesis by simp
next
  case (Inr u)
  let ?n = "length names" and ?c1 = "c\<lparr>c_latest_ed := c_latest_ed c + int (length names)\<rparr>"
  let ?eds = "fresh_descriptors c (length names)"
  let ?items = "zip names (zip ?eds (zip ps (zip cps macs)))"
  have macs: "length macs = ?n" "set macs \<subseteq> registered (c_m2i c)"
    using Inr download_each_registered [of d "c_m2i c" names macs] by (auto simp: download_files_def split: if_splits)
  have new_descs: "new_descriptors ?n c = (?c1, ?eds)" by (simp add: new_descriptors_eq fresh_descriptors_def)
  have "rbind (rmapM (\<lambda>m. mac_to_str [] m False) macs) (\<lambda>_. if ?n \<noteq> length ps \<or> ?n \<noteq> length cps then Inl AssertionError
      else rbind (install_elements a ?items ?c1) (\<lambda>(c2, ok). Inr (c2, if ok then ?eds else [- 1]))) = Inr (c', eds)"
    using assms(2) unfolding install_placed_def Inr new_descs by simp
  then obtain ok where lens: "length ps = ?n" "length cps = ?n"
    and inst: "install_elements a ?items ?c1 = Inr (c', ok)" and eds: "eds = (if ok then ?eds else [- 1])"
    unfolding rbind_eq_Inr by (fastforce simp: rbind_eq_Inr split: if_split_asm)
  have descs: "map (fst \<circ> snd) ?items = ?eds" using lens macs(1) by (intro map_desc_zip) (simp_all add: fresh_descriptors_def)
  have c1: "consistent ?c1" "deployment ?c1 = deployment c" using latest_consistent [OF assms(1)] by simp_all
  have new: "deployment c ed = None" if "ed \<in> set ?eds" for ed
  proof (cases "deployment c ed")
    case (Some i)
    from consistentD(6) [OF assms(1) this] that show ?thesis by (auto simp: fresh_descriptors_def)
  qed simp
  have "consistent c' \<and> flow_to_id (c_f2e c') = flow_to_id (c_f2e ?c1) \<and>
      deployment c' = (if ok then deployment ?c1 ++ map_of (placed_instances a ?items) else deployment ?c1)"
  proof (rule install_elements_consistent [OF c1(1) inst assms(3)])
    show "distinct (map (fst \<circ> snd) ?items)" unfolding descs by (simp add: fresh_descriptors_def distinct_map inj_on_def)
    show "\<forall>ed \<in> set (map (fst \<circ> snd) ?items). deployment ?c1 ed = None \<and> ed \<le> c_latest_ed ?c1"
      unfolding descs using new c1(2) by (auto simp: fresh_descriptors_def)
  qed (simp add: assms(4))
  moreover have "placed_instances a ?items = deployed_chain a names ?eds macs"
    using lens macs(1) by (intro placed_instances_chain) (simp_all add: fresh_descriptors_def)
  ultimately show ?thesis using macs eds c1(2) by (auto simp: extends_deployment_def)
qed

lemma flowspace_desc_consistent:
  assumes "consistent c" and "get_unique_flowspace_desc (c_f2e c) (FlowDictArg flow) = Inr (fm, fd)"
  shows "consistent (c\<lparr>c_f2e := fm\<rparr>) \<and> deployment (c\<lparr>c_f2e := fm\<rparr>) = deployment c \<and>
     (\<exists>f. flow_to_tuple FNone flow = Inr f \<and> map_of (flow_to_id fm) f = Some fd)"
proof -
  note inv = consistentD [OF assms(1)]
  from assms(2) obtain f where f: "flow_to_tuple FNone flow = Inr f"
    by (auto simp: get_unique_flowspace_desc_def rbind_eq_Inr)
  have insts: "flow_to_element_instance_mapping fm = flow_to_element_instance_mapping (c_f2e c)"
    and id: "map_of (flow_to_id fm) f = Some fd"
    using assms(2) f by (auto simp: get_unique_flowspace_desc_def Let_def dict_getitem_def split: if_splits option.splits)
  obtain fm' i where "get_unique_flowspace_desc (c_f2e c) (FlowDictArg flow) = Inr (fm', i)" "fte_ids_wf fm'"
    using get_unique_flowspace_desc_ok [OF inv(3) f] by blast
  with assms(2) have wf: "fte_ids_wf fm" by simp
  have grows: "flow_to_id fm = flow_to_id (c_f2e c) \<or>
      map_of (flow_to_id (c_f2e c)) f = None \<and> map_of (flow_to_id fm) = (map_of (flow_to_id (c_f2e c)))(f \<mapsto> fd)"
    using assms(2) f by (auto simp: get_unique_flowspace_desc_def Let_def dict_getitem_def split: if_splits option.splits)
  have old: "map_of (flow_to_id fm) g = Some (ei_flowspace_desc e) \<longleftrightarrow> map_of (flow_to_id (c_f2e c)) g = Some (ei_flowspace_desc e)"
    if dep: "deployment c ed = Some e" for g ed e
  proof -
    obtain g' where g': "map_of (flow_to_id (c_f2e c)) g' = Some (ei_flowspace_desc e)" using inv(7) [OF dep] ..
    with grows have "map_of (flow_to_id fm) g' = Some (ei_flowspace_desc e)" by auto
    with g' grows fte_ids_inj [OF wf, of g "ei_flowspace_desc e" g'] show ?thesis by auto
  qed
  let ?c = "c\<lparr>c_f2e := fm\<rparr>"
  have dep: "deployment ?c = deployment c" "flow_instances ?c = flow_instances c"
    by (simp_all add: deployment_def flow_instances_def insts fun_eq_iff)
  have "consistent ?c"
    unfolding consistent_def dep
    using inv wf old by (auto simp: deployment_def)
  with f id dep show ?thesis by blast
qed

text \<open>What applying elements relies on of a placement module: it leaves the tables alone.\<close>

locale placement_service =
  fixes place :: "'p placement_fun"
  assumes keeps_books: "place c fd names = Inr (c', answer) \<Longrightarrow> books c' = books c"
begin

lemma apply_elem_refines:
  assumes "consistent c" and "apply_elem place d app flow names ps cps obj c = Inr (c', eds)"
  shows "consistent c' \<and> (eds \<in> {[- 1], [- 2], [- 4], [- 5]} \<and> deployment c' = deployment c \<or>
    (\<exists>f fd. flow_to_tuple FNone flow = Inr f \<and> map_of (flow_to_id (c_f2e c')) f = Some fd \<and>
       extends_deployment c \<lparr>aa_app_desc = app, aa_flow = flow, aa_application_object = obj, aa_flowspace_desc = fd\<rparr> names eds c'))"
proof -
  from assms(2) obtain c1 where c1: "update_preferences names cps c = Inr c1"
    by (auto simp: apply_elem_def rbind_eq_Inr)
  obtain c2 b where c2: "wait_for_machines c1 = (c2, b)" by fastforce
  have bk: "books c2 = books c" using books_preferences [OF c1] books_wait [OF c2] by simp
  note c2s = books_same [OF bk]
  show ?thesis
  proof (cases b)
    case True
    with assms(2) c1 c2 have "c' = c2 \<and> eds = [- 4]" by (simp add: apply_elem_def)
    with c2s assms(1) show ?thesis by simp
  next
    case False
    with assms(2) c1 c2 obtain fm fd where fm: "get_unique_flowspace_desc (c_f2e c2) (FlowDictArg flow) = Inr (fm, fd)"
      by (auto simp: apply_elem_def rbind_eq_Inr)
    let ?c3 = "c2\<lparr>c_f2e := fm\<rparr>"
    let ?a = "\<lparr>aa_app_desc = app, aa_flow = flow, aa_application_object = obj, aa_flowspace_desc = fd\<rparr>"
    obtain f where c3: "consistent ?c3" "deployment ?c3 = deployment c"
        and f: "flow_to_tuple FNone flow = Inr f" "map_of (flow_to_id fm) f = Some fd"
      using flowspace_desc_consistent [OF _ fm] c2s assms(1) by auto
    show ?thesis
    proof (cases "is_there_traffic ?c3")
      case False
      with assms(2) c1 c2 \<open>\<not> b\<close> fm have "c' = ?c3 \<and> eds = [- 5]" by (simp add: apply_elem_def Let_def)
      with c3 show ?thesis by simp
    next
      case True
      with assms(2) c1 c2 \<open>\<not> b\<close> fm obtain c4 answer where c4: "place ?c3 fd names = Inr (c4, answer)"
        and rest: "(case answer of None \<Rightarrow> Inr (c4, [- 1]) | Some [] \<Rightarrow> Inr (c4, [- 1])
          | Some mac_addrs \<Rightarrow> rbind (get_placeless_element_names names mac_addrs) (\<lambda>placeless.
               if placeless \<noteq> [] then Inr (c4, [- 1]) else install_placed d ?a names ps cps (map the mac_addrs) c4)) = Inr (c', eds)"
        by (auto simp: apply_elem_def Let_def rbind_eq_Inr)
      note c4s = books_same [OF keeps_books [OF c4]]
      from rest have "c' = c4 \<and> eds = [- 1] \<or> (\<exists>macs. install_placed d ?a names ps cps macs c4 = Inr (c', eds))"
        by (auto simp: rbind_eq_Inr split: option.splits list.splits if_splits)
      then show ?thesis
      proof
        assume "c' = c4 \<and> eds = [- 1]"
        with c3 c4s show ?thesis by simp
      next
        assume "\<exists>macs. install_placed d ?a names ps cps macs c4 = Inr (c', eds)"
        then obtain macs where inst: "install_placed d ?a names ps cps macs c4 = Inr (c', eds)" ..
        have "consistent c' \<and> flow_to_id (c_f2e c') = flow_to_id (c_f2e c4) \<and>
            (eds \<in> {[- 1], [- 2]} \<and> deployment c' = deployment c4 \<or> extends_deployment c4 ?a names eds c')"
          using c3(1) c4s f by (intro install_placed_refines [OF _ inst]) simp_all
        moreover have "extends_deployment c4 ?a names eds c' = extends_deployment c ?a names eds c'"
          using c4s c3(2) c2s by (simp add: extends_deployment_def fresh_descriptors_def)
        ultimately show ?thesis using f c3(2) c4s by auto
      qed
    qed
  qed
qed

end

lemma na_keeps_model: "na_get_placement env e2m m2i fd (nm, used) names = Inr ((nm', used'), rv) \<Longrightarrow>
    name_to_instances nm' = name_to_instances nm \<and> ed_to_instance nm' = ed_to_instance nm"
  by (auto simp: na_get_placement_def Let_def rbind_def split: sum.splits prod.splits option.splits)

lemma books_placement: "controller_get_placement env selected c fd names = Inr (c', answer) \<Longrightarrow> books c' = books c"
  by (cases selected)
    (auto simp: controller_get_placement_def Let_def rbind_eq_Inr books_def dest: na_keeps_model split: option.splits prod.splits)

interpretation running: placement_service "controller_get_placement env selected"
  by unfold_locales (rule books_placement)

section \<open>Removing elements\<close>

lemma remove_instances:
  assumes "\<And>f. distinct (map ei_elem_desc (insts_of fm f))"
  shows "insts_of (remove_element_instance fm ed) f = filter (\<lambda>e. ei_elem_desc e \<noteq> ed) (insts_of fm f)"
proof -
  have "insts_of (remove_element_instance fm ed) f = del_while_iterating (\<lambda>e. ei_elem_desc e = ed) 0 (insts_of fm f)"
    unfolding remove_element_instance_def by (auto simp: map_of_map del_while_iterating.simps [of _ 0 "[]"] split: option.splits)
  also have "\<dots> = filter (\<lambda>e. ei_elem_desc e \<noteq> ed) (insts_of fm f)"
    by (intro del_while_iterating_filter filter_desc_once assms) simp
  finally show ?thesis .
qed

lemma remove_elem_eq:
  assumes "consistent c" and "deployment c ed = Some i"
  obtains ps sock nm where "map_of (c_conns c) (ei_location i) = Some sock"
    "map_option ae_parameter (map_of (c_e2a c) ed) = Some ps"
    "remove_placement (c_net c) ed = Inr nm"
    "remove_elem app ed c = Inr (c\<lparr>c_sent := c_sent c @ [(sock, RemoveMsg ed ps)],
       c_e2m := fst (etm_remove (c_e2m c) (ei_location i) (Some ed)), c_f2e := remove_element_instance (c_f2e c) ed,
       c_e2a := AList.delete ed (c_e2a c), c_net := nm\<rparr>)"
proof -
  note inv = consistentD [OF assms(1)]
  obtain sock where sock: "map_of (c_conns c) (ei_location i) = Some sock" using inv(10) [OF assms(2)] by auto
  obtain ae where ae: "map_of (c_e2a c) ed = Some ae" using inv(5) [of ed] assms(2) by auto
  obtain nm where nm: "remove_placement (c_net c) ed = Inr nm"
    using remove_placement_ok [OF inv(1), of ed i] assms(2) by (auto simp: deployment_def)
  have dst: "etm_get (c_e2m c) ed = Some (ei_location i)" using inv(4) [of ed] assms(2) by simp
  have "length (c_conns c) \<ge> 1" using sock by (cases "c_conns c") auto
  then have "remove_elem app ed c = Inr (c\<lparr>c_sent := c_sent c @ [(sock, RemoveMsg ed (ae_parameter ae))],
       c_e2m := fst (etm_remove (c_e2m c) (ei_location i) (Some ed)), c_f2e := remove_element_instance (c_f2e c) ed,
       c_e2a := AList.delete ed (c_e2a c), c_net := nm\<rparr>)"
    using sock ae nm dst
    by (simp add: remove_elem_def send_remove_msg_def send_msg_def json_dumps_def eta_get_elem_parameters_def eta_remove_def
        dict_getitem_def)
  with sock ae nm show thesis by (intro that) simp_all
qed

lemma remove_elem_refines:
  assumes "consistent c" and "deployment c ed = Some i"
  shows "\<exists>c' sock ps. remove_elem app ed c = Inr c' \<and> consistent c' \<and> deployment c' = (deployment c)(ed := None) \<and>
     map_of (c_conns c) (ei_location i) = Some sock \<and> map_option ae_parameter (map_of (c_e2a c) ed) = Some ps \<and>
     c_sent c' = c_sent c @ [(sock, RemoveMsg ed ps)]"
proof -
  note inv = consistentD [OF assms(1)]
  obtain ps sock nm where facts: "map_of (c_conns c) (ei_location i) = Some sock"
      "map_option ae_parameter (map_of (c_e2a c) ed) = Some ps" and nm: "remove_placement (c_net c) ed = Inr nm"
    and eq: "remove_elem app ed c = Inr (c\<lparr>c_sent := c_sent c @ [(sock, RemoveMsg ed ps)],
       c_e2m := fst (etm_remove (c_e2m c) (ei_location i) (Some ed)), c_f2e := remove_element_instance (c_f2e c) ed,
       c_e2a := AList.delete ed (c_e2a c), c_net := nm\<rparr>)" (is "_ = Inr ?c")
    by (rule remove_elem_eq [OF assms])
  have loc: "etm_get (c_e2m c) ed = Some (ei_location i)" using inv(4) [of ed] assms(2) by simp
  have dep: "deployment ?c = (deployment c)(ed := None)"
    using remove_placement_ok [OF inv(1), of ed i] assms(2) nm by (auto simp: deployment_def)
  have insts: "flow_instances ?c f = filter (\<lambda>e. ei_elem_desc e \<noteq> ed) (flow_instances c f)" for f
    using remove_instances [of "c_f2e c" ed f] inv(8) by (simp add: flow_instances_def)
  have ids: "flow_to_id (c_f2e ?c) = flow_to_id (c_f2e c)" "flowspace_id (c_f2e ?c) = flowspace_id (c_f2e c)"
    by (simp_all add: remove_element_instance_def)
  have "consistent ?c"
    unfolding consistent_def dep insts ids
  proof (intro conjI allI)
    show "nm_wf (c_net ?c)" using remove_placement_wf [OF inv(1) nm] by simp
    show "etm_wf (c_e2m ?c)" using etm_wf_remove [OF inv(2)] by simp
    show "fte_ids_wf (c_f2e ?c)" using inv(3) fte_ids_wf_cong [OF ids] by simp
    show "etm_get (c_e2m ?c) e = map_option ei_location (((deployment c)(ed := None)) e)" for e
      using inv(4) [of e] by (simp add: etm_get_remove [OF inv(2) loc])
    show "map_option ae_app_desc (map_of (c_e2a ?c) e) = map_option ei_app_desc (((deployment c)(ed := None)) e)" for e
      using inv(5) [of e] by simp
    show "((deployment c)(ed := None)) e = Some j \<longrightarrow> e \<le> c_latest_ed ?c \<and> has_key (c_conns ?c) (ei_location j) \<and>
        (\<exists>f. map_of (flow_to_id (c_f2e c)) f = Some (ei_flowspace_desc j))" for e j
      using inv(6,7,10) [of e j] by simp
    show "distinct (map ei_elem_desc (filter (\<lambda>e. ei_elem_desc e \<noteq> ed) (flow_instances c f)))" for f
      using inv(8) [of f] by (simp add: distinct_map_filter)
    show "j \<in> set (filter (\<lambda>e. ei_elem_desc e \<noteq> ed) (flow_instances c f)) \<longleftrightarrow>
        ((deployment c)(ed := None)) (ei_elem_desc j) = Some j \<and> map_of (flow_to_id (c_f2e c)) f = Some (ei_flowspace_desc j)" for f j
      using inv(9) [of j f] by auto
  qed
  with eq dep facts show ?thesis by auto
qed

lemma remove_elem_known: "remove_elem app ed c = Inr c' \<Longrightarrow> consistent c \<Longrightarrow> \<exists>i. deployment c ed = Some i"
  using consistentD(5) [of c ed] by (cases "deployment c ed") (auto simp: remove_elem_def eta_get_elem_parameters_def)

section \<open>Registering machines\<close>

definition machine_idle :: "'p controller \<Rightarrow> mac \<Rightarrow> bool" where
  "machine_idle c m \<longleftrightarrow> (\<forall>ed i. deployment c ed = Some i \<longrightarrow> ei_location i \<noteq> m)"

lemma etm_get_reset:
  assumes "etm_wf m"
  shows "etm_get (etm_add m (Some mc) None) ed = (if etm_get m ed = Some mc then None else etm_get m ed)"
proof -
  let ?m = "etm_add m (Some mc) None"
  have wf: "etm_wf ?m" using assms by (rule etm_wf_reset)
  have "etm_get ?m ed = Some x \<longleftrightarrow> x \<noteq> mc \<and> etm_get m ed = Some x" for x
    unfolding etm_get_iff [OF wf] etm_get_iff [OF assms] map_of_etm_reset by auto
  then show ?thesis by (metis not_None_eq)
qed

lemma register_consistent:
  assumes "consistent c" and "machine_idle c m" and "process_msg trigger handle (RegisterIn ip m) sock c = Inr (c', r)"
  shows "consistent c' \<and> deployment c' = deployment c"
proof -
  note inv = consistentD [OF assms(1)]
  have c': "c_e2m c' = etm_add (c_e2m c) (Some m) None" "c_conns c' = AList.update m sock (c_conns c)" "c_f2e c' = c_f2e c"
      "c_e2a c' = c_e2a c" "c_latest_ed c' = c_latest_ed c" "name_to_instances (c_net c') = name_to_instances (c_net c)"
      "ed_to_instance (c_net c') = ed_to_instance (c_net c)"
    using assms(3) by (auto simp: process_msg_def register_machine_def Let_def rbind_eq_Inr)
  have dep: "deployment c' = deployment c" "flow_instances c' = flow_instances c"
    by (simp_all add: deployment_def flow_instances_def c' fun_eq_iff)
  have "etm_get (c_e2m c') ed = etm_get (c_e2m c) ed" for ed
    using inv(4) [of ed] assms(2) by (auto simp: c'(1) etm_get_reset [OF inv(2)] machine_idle_def)
  moreover have "nm_wf (c_net c')" using inv(1) nm_wf_cong [OF c'(6,7)] by simp
  moreover have "etm_wf (c_e2m c')" using inv(2) by (simp add: c'(1) etm_wf_reset)
  ultimately have "consistent c'"
    using inv by (simp add: consistent_def dep c'(2-5))
  with dep show ?thesis by simp
qed

section \<open>The controller as a state machine\<close>

text \<open>The calls that return, in any order: shims register (a machine that holds no element), applications
  apply, configure and remove elements, and the other components work on their own parts of the state.\<close>

inductive step ::
    "placement_env \<Rightarrow> placement_choice \<Rightarrow> download \<Rightarrow> placement_state controller \<Rightarrow> placement_state controller \<Rightarrow> bool"
  for env selected d where
  Register: "machine_idle c m \<Longrightarrow> process_msg trigger handle (RegisterIn ip m) sock c = Inr (c', r) \<Longrightarrow> step env selected d c c'"
| Apply: "apply_elem (controller_get_placement env selected) d app flow names ps cps obj c = Inr (c', eds) \<Longrightarrow> step env selected d c c'"
| Configure: "configure_elem app ed ps c = Inr c' \<Longrightarrow> step env selected d c c'"
| Remove: "remove_elem app ed c = Inr c' \<Longrightarrow> step env selected d c c'"
| Elsewhere: "books c' = books c \<Longrightarrow> step env selected d c c'"

inductive_cases stepE: "step env selected d c c'"

definition reachable :: "placement_env \<Rightarrow> placement_choice \<Rightarrow> download \<Rightarrow> specs \<Rightarrow> placement_state controller \<Rightarrow> bool" where
  "reachable env selected d specs c \<longleftrightarrow> (step env selected d)\<^sup>*\<^sup>* (controller_init placement_state_init specs) c"

lemma step_consistent: "step env selected d c c' \<Longrightarrow> consistent c \<Longrightarrow> consistent c'"
proof (induction rule: step.induct)
  case (Register c m trigger handle ip sock c' r)
  then show ?case using register_consistent by blast
next
  case (Apply app flow names ps cps obj c c' eds)
  then show ?case using running.apply_elem_refines by blast
next
  case (Configure app ed ps c c')
  then show ?case using books_same(1) [OF books_configure] by blast
next
  case (Remove app ed c c')
  then obtain i where "deployment c ed = Some i" using remove_elem_known by blast
  with remove_elem_refines [OF Remove.prems, of ed i app] Remove.hyps show ?case by auto
next
  case (Elsewhere c' c)
  then show ?case using books_same(1) by blast
qed

lemma reachable_steps: "(step env selected d)\<^sup>*\<^sup>* c c' \<Longrightarrow> consistent c \<Longrightarrow> consistent c'"
  by (induction rule: rtranclp_induct) (auto intro: step_consistent)

text \<open>A run: one machine registers, traffic appears, an application applies a logger to web traffic.\<close>

definition demo_env :: placement_env where
  "demo_env = \<lparr>pe_rnd = \<lambda>k. 0, pe_weighted = \<lambda>g ws. [], pe_na = noop_env\<rparr>"

definition demo_download :: download where
  "demo_download = \<lparr>add_mb_client = \<lambda>m ip. Inr True, put_file = \<lambda>m n. Inr True\<rparr>"

definition demo_start :: "placement_state controller" where
  "demo_start = controller_init placement_state_init logger_specs"

definition ignore_trigger :: "params \<Rightarrow> 'p controller \<Rightarrow> 'p controller res" where
  "ignore_trigger ps c = Inr c"

definition ignore_event :: "int \<Rightarrow> int \<Rightarrow> params \<Rightarrow> 'p controller \<Rightarrow> 'p controller res" where
  "ignore_event a ed ps c = Inr c"

definition demo_machine :: "placement_state controller" where
  "demo_machine = fst (projr (process_msg ignore_trigger ignore_event (RegisterIn ''10.0.0.5'' (MacInt 5)) ''sock'' demo_start))"

definition demo_traffic :: "placement_state controller" where
  "demo_traffic = demo_machine\<lparr>
     c_net := (c_net demo_machine)\<lparr>nm_overlay := (nm_overlay (c_net demo_machine))\<lparr>hosts := [(''00:00:00:00:00:05'', (1, 2))]\<rparr>\<rparr>,
     c_l2 := (c_l2 demo_machine)\<lparr>l2_flow_matrices := [\<lparr>fm_flow = web_tuple, flow_tm = [((1, 2), Some 1)], fm_flowspace_desc = 1\<rparr>]\<rparr>\<rparr>"

abbreviation demo_apply :: "(placement_state controller \<times> int list) res" where
  "demo_apply \<equiv> apply_elem (controller_get_placement demo_env RoundRobinP) demo_download 101 web_flow [''Logger''] [[]] [[]] 7 demo_traffic"

definition demo_logger :: element_instance where
  "demo_logger = \<lparr>ei_name = ''Logger'', ei_app_desc = 101, ei_elem_desc = 2, ei_location = MacInt 5, ei_flowspace_desc = 1\<rparr>"

lemma demo_registers: "map_sum id snd (process_msg ignore_trigger ignore_event (RegisterIn ''10.0.0.5'' (MacInt 5)) ''sock'' demo_start) = Inr True"
  by code_simp

lemma demo_applies: "map_sum id (\<lambda>(c, eds). (eds, ed_to_instance (c_net c))) demo_apply = Inr ([2], [(2, demo_logger)])"
  by code_simp

lemma demo_deployed: "\<exists>c. demo_apply = Inr (c, [2]) \<and> deployment c = [2 \<mapsto> demo_logger]"
  using demo_applies by (cases demo_apply) (auto simp: deployment_def)

lemma demo_traffic_reachable: "(step env selected d)\<^sup>*\<^sup>* demo_start demo_traffic"
proof -
  obtain r where "process_msg ignore_trigger ignore_event (RegisterIn ''10.0.0.5'' (MacInt 5)) ''sock'' demo_start = Inr (demo_machine, r)"
    using demo_registers unfolding demo_machine_def
    by (cases "process_msg ignore_trigger ignore_event (RegisterIn ''10.0.0.5'' (MacInt 5)) ''sock'' demo_start") auto
  moreover have "machine_idle demo_start (MacInt 5)"
    by (simp add: machine_idle_def deployment_def demo_start_def controller_init_def net_model_init_def)
  ultimately have "step env selected d demo_start demo_machine" by (rule Register [rotated])
  moreover have "step env selected d demo_machine demo_traffic"
    by (rule Elsewhere) (simp add: books_def demo_traffic_def)
  ultimately show ?thesis by simp
qed

lemma demo_traffic_consistent: "consistent demo_traffic"
  using reachable_steps [OF demo_traffic_reachable] by (simp add: demo_start_def controller_init_consistent)

section \<open>Properties\<close>

text \<open>
  Whatever the order in which machines register and applications apply, configure and remove
  elements, and whichever placement module is in use, the tables of the controller keep describing
  one deployment: name index, descriptor index, machine, owner and flow-space chain of every
  descriptor agree, descriptors are never ahead of the counter, and the machine of every
  instance has a connection.
\<close>

lemma reachable_consistent:
  assumes "reachable env selected d specs c"
  shows "consistent c"
  using assms controller_init_consistent unfolding reachable_def by (rule reachable_steps)

lemma reachable_consistent_example:
  "\<exists>c. demo_apply = Inr (c, [2]) \<and> deployment c 2 = Some demo_logger \<and> consistent c \<and> etm_get (c_e2m c) 2 = Some (MacInt 5)"
proof -
  obtain c where c: "demo_apply = Inr (c, [2])" "deployment c = [2 \<mapsto> demo_logger]" using demo_deployed by blast
  have "step demo_env RoundRobinP demo_download demo_traffic c" using c(1) by (rule Apply)
  with demo_traffic_reachable have "reachable demo_env RoundRobinP demo_download logger_specs c"
    unfolding reachable_def demo_start_def by (rule rtranclp.rtrancl_into_rtrancl)
  then have "consistent c" by (rule reachable_consistent)
  with c consistentD(4) [OF this, of 2] show ?thesis by (auto simp: demo_logger_def)
qed

text \<open>
  C4. \<^verbatim>\<open>apply_elem\<close> implements an atomic extension of the deployment.  If it returns, then either the
  answer is one of the error codes and the deployment is unchanged, or it is the list of the next
  descriptors of the counter, one per element, and the deployment has grown by exactly these
  elements, in order, for this application and flow space, each on a registered machine; nothing
  else is touched.
\<close>

theorem apply_elem_deploys:
  assumes "consistent c"
    and "apply_elem (controller_get_placement env selected) d app flow names ps cps obj c = Inr (c', eds)"
  shows "consistent c' \<and> (eds \<in> {[- 1], [- 2], [- 4], [- 5]} \<and> deployment c' = deployment c \<or>
    (\<exists>f fd. flow_to_tuple FNone flow = Inr f \<and> map_of (flow_to_id (c_f2e c')) f = Some fd \<and>
       extends_deployment c \<lparr>aa_app_desc = app, aa_flow = flow, aa_application_object = obj, aa_flowspace_desc = fd\<rparr> names eds c'))"
  using assms by (rule running.apply_elem_refines)

theorem apply_elem_deploys_witness:
  "\<exists>c fd. demo_apply = Inr (c, [2]) \<and> consistent c \<and> extends_deployment demo_traffic
     \<lparr>aa_app_desc = 101, aa_flow = web_flow, aa_application_object = 7, aa_flowspace_desc = fd\<rparr> [''Logger''] [2] c"
proof -
  obtain c where c: "demo_apply = Inr (c, [2])" using demo_deployed by blast
  from apply_elem_deploys [OF demo_traffic_consistent c] c show ?thesis by auto
qed

text \<open>
  C5. \<^verbatim>\<open>remove_elem\<close> always succeeds on a deployed element: it returns, the deployment loses that
  descriptor and nothing else, the tables stay in agreement, and exactly one message, the removal
  with the element's parameters, goes to the connection of the element's machine.  The application
  that asks is not compared with the owner.
\<close>

theorem remove_elem_undeploys:
  assumes "consistent c" and "deployment c ed = Some i"
  shows "\<exists>c' sock ps. remove_elem app ed c = Inr c' \<and> consistent c' \<and> deployment c' = (deployment c)(ed := None) \<and>
     map_of (c_conns c) (ei_location i) = Some sock \<and> map_option ae_parameter (map_of (c_e2a c) ed) = Some ps \<and>
     c_sent c' = c_sent c @ [(sock, RemoveMsg ed ps)]"
  using assms by (rule remove_elem_refines)

theorem remove_elem_undeploys_witness:
  "\<exists>c c'. demo_apply = Inr (c, [2]) \<and> remove_elem 999 2 c = Inr c' \<and> consistent c' \<and> deployment c' = Map.empty"
proof -
  obtain c where c: "demo_apply = Inr (c, [2])" "deployment c = [2 \<mapsto> demo_logger]" using demo_deployed by blast
  have "consistent c" using running.apply_elem_refines [OF demo_traffic_consistent c(1)] by blast
  from remove_elem_undeploys [OF this, of 2 demo_logger 999] c show ?thesis by auto
qed

text \<open>
  C39. A machine whose shim registers again loses its elements: the deployment still has them, but
  \<^verbatim>\<open>elem_to_mac\<close> has forgotten where they are, so configuring such an element does nothing and
  removing it raises \<^verbatim>\<open>KeyError\<close>.
\<close>

theorem reregistration_forgets:
  assumes "consistent c" and "deployment c ed = Some i"
    and "process_msg trigger handle (RegisterIn ip (ei_location i)) sock c = Inr (c', r)"
  shows "deployment c' ed = Some i \<and> etm_get (c_e2m c') ed = None \<and>
    configure_elem (ei_app_desc i) ed ps c' = Inr c' \<and> remove_elem app ed c' = Inl KeyError"
proof -
  note inv = consistentD [OF assms(1)]
  have c': "c_e2m c' = etm_add (c_e2m c) (Some (ei_location i)) None" "c_conns c' = AList.update (ei_location i) sock (c_conns c)"
      "c_e2a c' = c_e2a c" "deployment c' = deployment c"
    using assms(3) by (auto simp: process_msg_def register_machine_def Let_def rbind_eq_Inr deployment_def)
  obtain ae where ae: "map_of (c_e2a c) ed = Some ae" "ae_app_desc ae = ei_app_desc i" using inv(5) [of ed] assms(2) by auto
  have gone: "etm_get (c_e2m c') ed = None" using inv(4) [of ed] assms(2) by (simp add: c'(1) etm_get_reset [OF inv(2)])
  have "length (c_conns c') \<ge> 1" by (cases "c_conns c") (auto simp: c'(2))
  with ae gone assms(2) show ?thesis
    by (simp add: c'(3,4) configure_elem_def eta_get_app_desc_def eta_get_app_handle_def remove_elem_def eta_get_elem_parameters_def
        send_remove_msg_def send_msg_def dict_getitem_def)
qed

theorem reregistration_forgets_witness:
  "\<exists>c c' r. demo_apply = Inr (c, [2]) \<and> process_msg ignore_trigger ignore_event (RegisterIn ''10.0.0.5'' (MacInt 5)) ''sock'' c = Inr (c', r) \<and>
     deployment c' 2 = Some demo_logger \<and> remove_elem 101 2 c' = Inl KeyError"
proof -
  obtain c where c: "demo_apply = Inr (c, [2])" "deployment c = [2 \<mapsto> demo_logger]" using demo_deployed by blast
  have con: "consistent c" using running.apply_elem_refines [OF demo_traffic_consistent c(1)] by blast
  have "inet_aton ''10.0.0.5'' = Inr 167772165" by code_simp
  then obtain c' r where c': "process_msg ignore_trigger ignore_event (RegisterIn ''10.0.0.5'' (ei_location demo_logger)) ''sock'' c = Inr (c', r)"
    by (simp add: process_msg_def Let_def)
  from reregistration_forgets [OF con _ c', of 2 "[]" 101] c c' show ?thesis by (auto simp: demo_logger_def)
qed

end
