(* ===== verification/Steering.thy ===== *)
theory Steering
  imports Network_Model
begin

text \<open>
  Steering: which replica of every element of its chain a flow visits
  (\<^verbatim>\<open>steering/*.py\<close>).  The modules \<^verbatim>\<open>RandomSteering\<close>, \<^verbatim>\<open>ShortestHopCountSteering\<close>,
  \<^verbatim>\<open>ShortestPathSteering\<close>, \<^verbatim>\<open>LoadAwareShortestPathSteering\<close> and \<^verbatim>\<open>LASPSHeuristics\<close>; the contract
  their documentation states (one replica of each set, in order, or \<^verbatim>\<open>None\<close>) is the locale
  \<open>steering_module\<close>.

  \<^verbatim>\<open>random.choice\<close> draws an index: the \<open>k\<close>-th draw is the \<open>k\<close>-th value of an arbitrary stream,
  reduced to the length of the list.
\<close>

definition draw :: "(nat \<Rightarrow> nat) \<Rightarrow> nat \<Rightarrow> 'a list \<Rightarrow> 'a" where
  "draw rnd k xs = xs ! (rnd k mod length xs)"

lemma draw_in_set: "xs \<noteq> [] \<Longrightarrow> draw rnd k xs \<in> set xs"
  by (simp add: draw_def)

section \<open>RandomSteering\<close>

fun random_get_steering :: "(nat \<Rightarrow> nat) \<Rightarrow> nat \<Rightarrow> int list list \<Rightarrow> int list option" where
  "random_get_steering rnd k [] = Some []"
| "random_get_steering rnd k (replicas # replica_sets) =
     (if length replicas = 0 then None
      else map_option (\<lambda>rv. draw rnd k replicas # rv) (random_get_steering rnd (Suc k) replica_sets))"

section \<open>ShortestHopCountSteering\<close>

type_synonym overlay_edges = "(dpid \<times> dpid, link_weight) dict"

definition maxint :: int where
  "maxint = 2 ^ 63 - 1"

text \<open>Python 2 orders \<^verbatim>\<open>None\<close> below every number.\<close>

definition opt_less :: "int option \<Rightarrow> int option \<Rightarrow> bool" where
  "opt_less a b = (case (a, b) of (Some x, Some y) \<Rightarrow> x < y | (None, Some _) \<Rightarrow> True | _ \<Rightarrow> False)"

definition ed_switch :: "elem_to_mac \<Rightarrow> net_model \<Rightarrow> int \<Rightarrow> dpid res" where
  "ed_switch e2m nm ed = get_connected_switch (nm_overlay nm) (get_machine_mac e2m ed)"

definition edge_hops :: "overlay_edges \<Rightarrow> dpid \<Rightarrow> dpid \<Rightarrow> int option res" where
  "edge_hops subgraph a b =
     (case map_of subgraph (a, b) of None \<Rightarrow> Inl TypeError | Some w \<Rightarrow> Inr (map_option int (hop_count w)))"

definition get_nearest_replica ::
    "elem_to_mac \<Rightarrow> net_model \<Rightarrow> overlay_edges \<Rightarrow> dpid \<Rightarrow> int list \<Rightarrow> int option res" where
  "get_nearest_replica e2m nm subgraph start_node element_replicas =
     rbind (rfoldM (\<lambda>(min_distance, nearest_replica) element_desc.
        rbind (ed_switch e2m nm element_desc) (\<lambda>machine_switch_mac.
        rbind (edge_hops subgraph start_node machine_switch_mac) (\<lambda>distance.
        Inr (if opt_less distance min_distance then (distance, Some element_desc)
             else (min_distance, nearest_replica))))) (Some maxint, None) element_replicas)
       (\<lambda>(min_distance, nearest_replica). Inr nearest_replica)"

fun hop_loop :: "elem_to_mac \<Rightarrow> net_model \<Rightarrow> overlay_edges \<Rightarrow> dpid \<Rightarrow> int list list \<Rightarrow> int list res" where
  "hop_loop e2m nm subgraph start [] = Inr []"
| "hop_loop e2m nm subgraph start (replicas # replica_sets) =
     rbind (get_nearest_replica e2m nm subgraph start replicas) (\<lambda>nearest.
     case nearest of
       None \<Rightarrow> Inl TypeError
     | Some ed \<Rightarrow>
         rbind (ed_switch e2m nm ed) (\<lambda>sw.
         rbind (hop_loop e2m nm subgraph sw replica_sets) (\<lambda>rv. Inr (ed # rv))))"

definition hop_get_steering ::
    "elem_to_mac \<Rightarrow> net_model \<Rightarrow> int list list \<Rightarrow> dpid \<Rightarrow> dpid \<Rightarrow> int list option res" where
  "hop_get_steering e2m nm replica_sets src dst =
     rbind (get_overlay_subgraph e2m nm src dst replica_sets) (\<lambda>subgraph.
     if list_ex (\<lambda>replicas. length replicas = 0) replica_sets then Inr None
     else rbind (hop_loop e2m nm subgraph src replica_sets) (\<lambda>rv. Inr (Some rv)))"

section \<open>Enumerating chains\<close>

text \<open>\<^verbatim>\<open>_get_all_paths\<close> lists \<^verbatim>\<open>itertools.product\<close> of the replica sets; \<^verbatim>\<open>_is_valid_path\<close> compares
  lengths; \<^verbatim>\<open>_convert_ed_to_switches\<close> replaces descriptors by switches.\<close>

definition get_all_paths :: "int list list \<Rightarrow> int list list" where
  "get_all_paths replica_sets = product_lists replica_sets"

definition is_valid_path :: "int list \<Rightarrow> int list list \<Rightarrow> bool" where
  "is_valid_path path replica_sets = (if length path \<noteq> length replica_sets then False else True)"

definition convert_ed_to_switches ::
    "elem_to_mac \<Rightarrow> net_model \<Rightarrow> dpid \<Rightarrow> dpid \<Rightarrow> int list list \<Rightarrow> dpid list list res" where
  "convert_ed_to_switches e2m nm src_switch dst_switch paths =
     rmapM (\<lambda>p. rbind (rmapM (ed_switch e2m nm) p) (\<lambda>sws. Inr ([src_switch] @ sws @ [dst_switch]))) paths"

text \<open>The distance of a chain of switches in the three modules.  \<^verbatim>\<open>ShortestPathSteering\<close> needs every
  edge; the load-aware modules give a chain with a missing edge the distance \<^verbatim>\<open>sys.maxint\<close>, and
  \<^verbatim>\<open>LASPSHeuristics\<close> scales a leg by the factor of the element it leaves.\<close>

fun sp_distance :: "overlay_edges \<Rightarrow> dpid list \<Rightarrow> int \<Rightarrow> int res" where
  "sp_distance subgraph (a # b # p) acc =
     rbind (edge_hops subgraph a b) (\<lambda>d. case d of None \<Rightarrow> Inl TypeError | Some n \<Rightarrow> sp_distance subgraph (b # p) (acc + n))"
| "sp_distance subgraph p acc = Inr acc"

fun la_distance :: "overlay_edges \<Rightarrow> dpid list \<Rightarrow> int \<Rightarrow> int res" where
  "la_distance subgraph (a # b # p) acc =
     (case map_of subgraph (a, b) of
        None \<Rightarrow> Inr maxint
      | Some w \<Rightarrow> (case hop_count w of None \<Rightarrow> Inl TypeError | Some n \<Rightarrow> la_distance subgraph (b # p) (acc + int n)))"
| "la_distance subgraph p acc = Inr acc"

definition pv_number :: "pval \<Rightarrow> rat option" where
  "pv_number v = (case v of PvInt n \<Rightarrow> Some (of_int n) | PvNum r \<Rightarrow> Some r | PvBool b \<Rightarrow> Some (if b then 1 else 0) | _ \<Rightarrow> None)"

fun lasps_distance :: "net_model \<Rightarrow> overlay_edges \<Rightarrow> int list \<Rightarrow> nat \<Rightarrow> dpid list \<Rightarrow> rat \<Rightarrow> rat res" where
  "lasps_distance nm subgraph eds index (a # b # p) acc =
     (case map_of subgraph (a, b) of
        None \<Rightarrow> Inr (of_int maxint)
      | Some w \<Rightarrow>
          rbind (if index > 0 then rbind (list_getitem eds (index - 1)) (\<lambda>ed. get_elem_leg_factor nm None ed)
                 else Inr (PvInt 1)) (\<lambda>leg.
          case (hop_count w, pv_number leg) of
            (Some n, Some f) \<Rightarrow> lasps_distance nm subgraph eds (Suc index) (b # p) (acc + of_nat n * f)
          | _ \<Rightarrow> Inl TypeError))"
| "lasps_distance nm subgraph eds index p acc = Inr acc"

text \<open>The loop that keeps the first chain of strictly smallest distance.\<close>

fun shortest_loop :: "('d :: linorder) \<Rightarrow> 'p \<Rightarrow> ('d \<times> 'p) list \<Rightarrow> 'p" where
  "shortest_loop min_dist shortest [] = shortest"
| "shortest_loop min_dist shortest ((d, p) # rest) =
     (if d < min_dist then shortest_loop d p rest else shortest_loop min_dist shortest rest)"

definition sp_get_shortest_path ::
    "elem_to_mac \<Rightarrow> net_model \<Rightarrow> overlay_edges \<Rightarrow> dpid \<Rightarrow> dpid \<Rightarrow> int list list \<Rightarrow> dpid list option res" where
  "sp_get_shortest_path e2m nm subgraph src_switch dst_switch paths =
     rbind (convert_ed_to_switches e2m nm src_switch dst_switch paths) (\<lambda>switch_paths.
     rbind (rmapM (\<lambda>p. rbind (sp_distance subgraph p 0) (\<lambda>d. Inr (d, Some p))) switch_paths) (\<lambda>ds.
     Inr (shortest_loop maxint None ds)))"

definition or_direct :: "dpid \<Rightarrow> dpid \<Rightarrow> dpid list \<Rightarrow> dpid list" where
  "or_direct src_switch dst_switch shortest_path =
     (if shortest_path = [] then [src_switch, dst_switch] else shortest_path)"

definition la_get_shortest_path ::
    "elem_to_mac \<Rightarrow> net_model \<Rightarrow> overlay_edges \<Rightarrow> dpid \<Rightarrow> dpid \<Rightarrow> int list list \<Rightarrow> dpid list res" where
  "la_get_shortest_path e2m nm subgraph src_switch dst_switch paths =
     rbind (convert_ed_to_switches e2m nm src_switch dst_switch paths) (\<lambda>switch_paths.
     rbind (rmapM (\<lambda>p. rbind (la_distance subgraph p 0) (\<lambda>d. Inr (d, p))) switch_paths) (\<lambda>ds.
     Inr (or_direct src_switch dst_switch (shortest_loop maxint [] ds))))"

definition lasps_get_shortest_path ::
    "elem_to_mac \<Rightarrow> net_model \<Rightarrow> overlay_edges \<Rightarrow> dpid \<Rightarrow> dpid \<Rightarrow> int list list \<Rightarrow> dpid list res" where
  "lasps_get_shortest_path e2m nm subgraph src_switch dst_switch paths =
     rbind (convert_ed_to_switches e2m nm src_switch dst_switch paths) (\<lambda>switch_paths.
     rbind (rmapM (\<lambda>(eds, p). rbind (lasps_distance nm subgraph eds 0 p 0) (\<lambda>d. Inr (d, p))) (zip paths switch_paths)) (\<lambda>ds.
     Inr (or_direct src_switch dst_switch (shortest_loop (of_int maxint) [] ds))))"

text \<open>Back from switches to descriptors, with \<^verbatim>\<open>get_elem_descriptor\<close>.\<close>

definition switches_to_eds :: "net_model \<Rightarrow> dpid list \<Rightarrow> int list res" where
  "switches_to_eds nm path_switches =
     rmapM (\<lambda>sw. case get_elem_descriptor nm sw of
        None \<Rightarrow> Inl GenericException | Some ed \<Rightarrow> if ed = 0 then Inl GenericException else Inr ed)
       (if length path_switches \<ge> 2 then butlast (tl path_switches) else path_switches)"

definition sp_get_element_instances ::
    "elem_to_mac \<Rightarrow> net_model \<Rightarrow> overlay_edges \<Rightarrow> dpid \<Rightarrow> dpid \<Rightarrow> int list list \<Rightarrow> int list option res" where
  "sp_get_element_instances e2m nm subgraph src dst replica_sets =
     (if list_ex (\<lambda>replicas. length replicas = 0) replica_sets then Inr None
      else
        (let pruned_paths = (if replica_sets \<noteq> []
                             then filter (\<lambda>p. is_valid_path p replica_sets) (get_all_paths replica_sets) else [])
         in rbind (if pruned_paths \<noteq> [] then sp_get_shortest_path e2m nm subgraph src dst pruned_paths
                   else Inr (Some [])) (\<lambda>path_switches.
            case path_switches of
              None \<Rightarrow> Inl TypeError
            | Some sws \<Rightarrow> rbind (switches_to_eds nm sws) (\<lambda>rv. Inr (Some rv)))))"

definition sp_get_steering ::
    "elem_to_mac \<Rightarrow> net_model \<Rightarrow> int list list \<Rightarrow> dpid \<Rightarrow> dpid \<Rightarrow> int list option res" where
  "sp_get_steering e2m nm replica_sets src dst =
     rbind (get_overlay_subgraph e2m nm src dst replica_sets) (\<lambda>subgraph.
     sp_get_element_instances e2m nm subgraph src dst replica_sets)"

text \<open>The load-aware modules share this; the chain distance is the argument.\<close>

type_synonym chain_search =
  "elem_to_mac \<Rightarrow> net_model \<Rightarrow> overlay_edges \<Rightarrow> dpid \<Rightarrow> dpid \<Rightarrow> int list list \<Rightarrow> dpid list res"

definition la_get_element_instances ::
    "chain_search \<Rightarrow> elem_to_mac \<Rightarrow> net_model \<Rightarrow> overlay_edges \<Rightarrow> dpid \<Rightarrow> dpid \<Rightarrow> int list list \<Rightarrow> int list option res" where
  "la_get_element_instances search e2m nm subgraph src dst replica_sets =
     (if list_ex (\<lambda>replicas. length replicas = 0) replica_sets then Inr None
      else
        (let pruned_paths = (if replica_sets \<noteq> []
                             then filter (\<lambda>p. is_valid_path p replica_sets) (get_all_paths replica_sets) else [])
         in rbind (if pruned_paths \<noteq> [] then search e2m nm subgraph src dst pruned_paths else Inr []) (\<lambda>path_switches.
            rbind (switches_to_eds nm path_switches) (\<lambda>rv. Inr (Some rv)))))"

section \<open>Load awareness\<close>

definition LINK_USAGE_THRESHOLD :: rat where
  "LINK_USAGE_THRESHOLD = 90"

definition get_congested_overlay_links :: "overlay_edges \<Rightarrow> (dpid \<times> dpid) list" where
  "get_congested_overlay_links subgraph =
     map fst (filter (\<lambda>(e, w). case utilization w of None \<Rightarrow> False | Some u \<Rightarrow> u > LINK_USAGE_THRESHOLD) subgraph)"

definition remove_congested_links :: "overlay_edges \<Rightarrow> overlay_edges" where
  "remove_congested_links subgraph =
     foldl (\<lambda>g e. if has_key g e then AList.delete e g else g) subgraph (get_congested_overlay_links subgraph)"

definition remove_loaded_element_instances :: "int list \<Rightarrow> int list list \<Rightarrow> int list list" where
  "remove_loaded_element_instances overloaded replica_sets =
     map (\<lambda>replicas. remove_while_iterating (\<lambda>r. r \<in> set overloaded) 0 replicas) replica_sets"

text \<open>
  \<^verbatim>\<open>update_replicas\<close> and \<^verbatim>\<open>get_steering\<close> call back into the controller: the load figures, the
  iterative placement, the replica sets of the flow, the partition check.  The callbacks act on a
  controller state of type \<open>'c\<close>.
\<close>

record 'c steer_env =
  se_net :: "'c \<Rightarrow> net_model"
  se_e2m :: "'c \<Rightarrow> elem_to_mac"
  se_loaded :: "'c \<Rightarrow> int list"
  se_place_n_steer :: "'c \<Rightarrow> 'c res"
  se_replicas :: "'c \<Rightarrow> ofp_match \<Rightarrow> int list list res"
  se_resolve_partitions :: "'c \<Rightarrow> dpid \<Rightarrow> dpid \<Rightarrow> int list option \<Rightarrow> 'c res"

definition update_replicas ::
    "'c steer_env \<Rightarrow> 'c \<Rightarrow> int list list \<Rightarrow> int list list \<Rightarrow> ofp_match \<Rightarrow> ('c \<times> int list list) res" where
  "update_replicas env c orig_replica_sets replica_sets flow =
     (if length orig_replica_sets \<noteq> length replica_sets then Inl AssertionError
      else rbind (rfoldM (\<lambda>c (orig, replicas).
             if length replicas = 0 then (if length orig = 0 then Inl RuntimeError else se_place_n_steer env c)
             else Inr c) c (zip orig_replica_sets replica_sets)) (\<lambda>c'.
           rbind (se_replicas env c' flow) (\<lambda>rs. Inr (c', rs))))"

definition la_get_steering ::
    "chain_search \<Rightarrow> 'c steer_env \<Rightarrow> 'c \<Rightarrow> int list list \<Rightarrow> dpid \<Rightarrow> dpid \<Rightarrow> ofp_match \<Rightarrow> ('c \<times> int list option) res" where
  "la_get_steering search env c replica_sets src dst flow =
     rbind (get_overlay_subgraph (se_e2m env c) (se_net env c) src dst replica_sets) (\<lambda>subgraph0.
     let subgraph = remove_congested_links subgraph0;
         pruned = remove_loaded_element_instances (se_loaded env c) replica_sets
     in rbind (update_replicas env c replica_sets pruned flow) (\<lambda>(c1, updated).
        rbind (la_get_element_instances search (se_e2m env c1) (se_net env c1) subgraph src dst updated) (\<lambda>rv.
        rbind (se_resolve_partitions env c1 src dst rv) (\<lambda>c2. Inr (c2, rv)))))"

section \<open>The contract of a steering module\<close>

text \<open>One replica is chosen from every set, in the order of the sets; \<^verbatim>\<open>None\<close> when a set is empty.\<close>

locale steering_module =
  fixes steer :: "int list list \<Rightarrow> dpid \<Rightarrow> dpid \<Rightarrow> int list option res"
  assumes chosen: "steer rs src dst = Inr (Some eds) \<Longrightarrow> list_all2 (\<lambda>ed r. ed \<in> set r) eds rs"
    and refused: "steer rs src dst = Inr None \<Longrightarrow> [] \<in> set rs"
begin

lemma length_chosen: "steer rs src dst = Inr (Some eds) \<Longrightarrow> length eds = length rs"
  by (rule list_all2_lengthD [OF chosen])

lemma nth_chosen: "steer rs src dst = Inr (Some eds) \<Longrightarrow> i < length rs \<Longrightarrow> eds ! i \<in> set (rs ! i)"
  by (rule list_all2_nthD2 [OF chosen])

lemma chosen_known: "steer rs src dst = Inr (Some eds) \<Longrightarrow> set eds \<subseteq> set (concat rs)"
  using length_chosen nth_chosen by (fastforce simp: in_set_conv_nth)

lemma nonempty_answer: "steer rs src dst = Inr r \<Longrightarrow> [] \<notin> set rs \<Longrightarrow> \<exists>eds. r = Some eds"
  using refused by (cases r) auto

end

lemma random_chosen: "random_get_steering rnd k rs = Some eds \<Longrightarrow> list_all2 (\<lambda>ed r. ed \<in> set r) eds rs"
  by (induction rnd k rs arbitrary: eds rule: random_get_steering.induct)
    (auto simp: draw_in_set split: if_splits)

lemma random_refused: "random_get_steering rnd k rs = None \<Longrightarrow> [] \<in> set rs"
  by (induction rnd k rs rule: random_get_steering.induct) (auto split: if_splits)

interpretation random: steering_module "\<lambda>rs src dst. Inr (random_get_steering rnd k rs)" for rnd k
  by unfold_locales (auto dest: random_chosen random_refused)

text \<open>The nearest replica: where it is found, it is a replica and no other one is nearer.\<close>

definition replica_distance :: "elem_to_mac \<Rightarrow> net_model \<Rightarrow> overlay_edges \<Rightarrow> dpid \<Rightarrow> int \<Rightarrow> int option res" where
  "replica_distance e2m nm subgraph start ed = rbind (ed_switch e2m nm ed) (edge_hops subgraph start)"

lemma nearest_loop:
  assumes "rfoldM (\<lambda>(min_distance, nearest_replica) element_desc.
        rbind (ed_switch e2m nm element_desc) (\<lambda>machine_switch_mac.
        rbind (edge_hops subgraph start_node machine_switch_mac) (\<lambda>distance.
        Inr (if opt_less distance min_distance then (distance, Some element_desc)
             else (min_distance, nearest_replica))))) (m, n) eds = Inr (m', n')"
  shows "(n' = n \<and> m' = m \<or> (\<exists>ed \<in> set eds. n' = Some ed \<and> replica_distance e2m nm subgraph start_node ed = Inr m')) \<and>
    \<not> opt_less m m' \<and>
    (\<forall>ed \<in> set eds. \<exists>d. replica_distance e2m nm subgraph start_node ed = Inr d \<and> \<not> opt_less d m')"
  using assms
proof (induction eds arbitrary: m n)
  case Nil
  then show ?case by (auto simp: opt_less_def split: option.splits)
next
  case (Cons ed eds)
  from Cons.prems obtain sw d where d: "ed_switch e2m nm ed = Inr sw" "edge_hops subgraph start_node sw = Inr d"
    by (auto simp: rbind_eq_Inr)
  then have dist: "replica_distance e2m nm subgraph start_node ed = Inr d" by (simp add: replica_distance_def)
  have trans: "\<not> opt_less a c" if "\<not> opt_less a b" "\<not> opt_less b c" for a b c
    using that by (auto simp: opt_less_def split: option.splits)
  have asym: "\<not> opt_less b a" if "opt_less a b" for a b
    using that by (auto simp: opt_less_def split: option.splits)
  show ?case
  proof (cases "opt_less d m")
    case True
    from Cons.IH [of d "Some ed"] Cons.prems d True
    have "(n' = Some ed \<and> m' = d \<or> (\<exists>ed \<in> set eds. n' = Some ed \<and> replica_distance e2m nm subgraph start_node ed = Inr m')) \<and>
      \<not> opt_less d m' \<and> (\<forall>ed \<in> set eds. \<exists>d. replica_distance e2m nm subgraph start_node ed = Inr d \<and> \<not> opt_less d m')"
      by simp
    then show ?thesis using dist trans [of m d m'] asym [OF True] by auto
  next
    case False
    from Cons.IH [of m n] Cons.prems d False
    have "(n' = n \<and> m' = m \<or> (\<exists>ed \<in> set eds. n' = Some ed \<and> replica_distance e2m nm subgraph start_node ed = Inr m')) \<and>
      \<not> opt_less m m' \<and> (\<forall>ed \<in> set eds. \<exists>d. replica_distance e2m nm subgraph start_node ed = Inr d \<and> \<not> opt_less d m')"
      by simp
    then show ?thesis using dist trans [OF False, of m'] by auto
  qed
qed

lemma nearest_replica_in:
  "get_nearest_replica e2m nm subgraph start eds = Inr (Some ed) \<Longrightarrow> ed \<in> set eds"
  unfolding get_nearest_replica_def rbind_eq_Inr by (auto dest!: nearest_loop)

lemma hop_loop_chosen: "hop_loop e2m nm subgraph start rs = Inr eds \<Longrightarrow> list_all2 (\<lambda>ed r. ed \<in> set r) eds rs"
proof (induction rs arbitrary: start eds)
  case (Cons r rs)
  from Cons.prems obtain ed sw rv where "get_nearest_replica e2m nm subgraph start r = Inr (Some ed)"
      "hop_loop e2m nm subgraph sw rs = Inr rv" "eds = ed # rv"
    by (auto simp: rbind_eq_Inr split: option.splits)
  then show ?case using Cons.IH nearest_replica_in by auto
qed simp

interpretation hop_count: steering_module "hop_get_steering e2m nm" for e2m nm
  by unfold_locales
    (auto simp: hop_get_steering_def rbind_eq_Inr list_ex_iff dest: hop_loop_chosen split: if_splits)

section \<open>Properties of the modules\<close>

text \<open>
  \<^verbatim>\<open>RandomSteering\<close>, whatever the random draws: it answers \<^verbatim>\<open>None\<close> exactly when a replica set is
  empty, and otherwise a list of the same length whose \<open>i\<close>-th descriptor is a member of the
  \<open>i\<close>-th replica set.
\<close>

lemma random_steering_contract:
  "case random_get_steering rnd k rs of
     None \<Rightarrow> [] \<in> set rs
   | Some eds \<Rightarrow> [] \<notin> set rs \<and> list_all2 (\<lambda>ed replicas. ed \<in> set replicas) eds rs"
proof (cases "random_get_steering rnd k rs")
  case None
  then show ?thesis using random.refused [of rnd k rs] by simp
next
  case (Some eds)
  then have len: "length eds = length rs" and nth: "\<forall>i < length rs. eds ! i \<in> set (rs ! i)"
    using random.length_chosen [of rnd k rs eds] random.nth_chosen [of rnd k rs eds] by auto
  have "[] \<notin> set rs"
  proof
    assume "[] \<in> set rs"
    then obtain i where "i < length rs" "rs ! i = []" by (auto simp: in_set_conv_nth)
    with nth show False by force
  qed
  with Some len nth show ?thesis by (simp add: list_all2_conv_all_nth)
qed

text \<open>The greedy specification: every replica is a nearest one from the switch before it.\<close>

fun greedy :: "elem_to_mac \<Rightarrow> net_model \<Rightarrow> overlay_edges \<Rightarrow> dpid \<Rightarrow> int list \<Rightarrow> int list list \<Rightarrow> bool" where
  "greedy e2m nm g start [] [] = True"
| "greedy e2m nm g start (ed # eds) (r # rs) =
     (\<exists>d sw. replica_distance e2m nm g start ed = Inr d \<and> ed_switch e2m nm ed = Inr sw \<and>
        (\<forall>ed' \<in> set r. \<exists>d'. replica_distance e2m nm g start ed' = Inr d' \<and> \<not> opt_less d' d) \<and>
        greedy e2m nm g sw eds rs)"
| "greedy e2m nm g start _ _ = False"

lemma nearest_replica_min:
  assumes "get_nearest_replica e2m nm g start eds = Inr (Some ed)"
  shows "\<exists>d. replica_distance e2m nm g start ed = Inr d \<and>
    (\<forall>ed' \<in> set eds. \<exists>d'. replica_distance e2m nm g start ed' = Inr d' \<and> \<not> opt_less d' d)"
  using assms unfolding get_nearest_replica_def rbind_eq_Inr by (auto dest!: nearest_loop)

lemma hop_loop_greedy: "hop_loop e2m nm g start rs = Inr eds \<Longrightarrow> greedy e2m nm g start eds rs"
proof (induction rs arbitrary: start eds)
  case (Cons r rs)
  from Cons.prems obtain ed sw rv where step: "get_nearest_replica e2m nm g start r = Inr (Some ed)"
      "ed_switch e2m nm ed = Inr sw" "hop_loop e2m nm g sw rs = Inr rv" "eds = ed # rv"
    by (auto simp: rbind_eq_Inr split: option.splits)
  from nearest_replica_min [OF step(1)] Cons.IH [OF step(3)] step(2,4) show ?case by auto
qed simp


text \<open>A network with two replicas of one element, one hop and two hops from the source.\<close>

definition two_hosts :: net_model where
  "two_hosts = (net_model_init [])\<lparr>nm_overlay := overlay_init\<lparr>
     hosts := [(''a'', (1, 1)), (''b'', (2, 1))],
     overlay_graph_nx := [((0, 1), \<lparr>hop_count = Some 2, utilization = None, latency = None\<rparr>),
       ((0, 2), \<lparr>hop_count = Some 1, utilization = None, latency = None\<rparr>),
       ((1, 0), \<lparr>hop_count = Some 2, utilization = None, latency = None\<rparr>),
       ((2, 0), \<lparr>hop_count = Some 1, utilization = None, latency = None\<rparr>)]\<rparr>,
     elem_to_switch := [(11, 1), (12, 2)]\<rparr>"

definition two_hosts_e2m :: elem_to_mac where
  "two_hosts_e2m = [(MacStr ''a'', [11]), (MacStr ''b'', [12])]"

lemma two_hosts_switch:
  "ed_switch two_hosts_e2m two_hosts 11 = Inr 1" "ed_switch two_hosts_e2m two_hosts 12 = Inr 2"
  by (simp_all add: ed_switch_def get_machine_mac_def etm_get_def two_hosts_e2m_def two_hosts_def get_connected_switch_def
      host_name_def dict_getitem_def)

lemma two_hosts_subgraph:
  "get_overlay_subgraph two_hosts_e2m two_hosts 0 0 [[11, 12]] = Inr (overlay_graph_nx (nm_overlay two_hosts))"
  using two_hosts_switch
  by (simp add: get_overlay_subgraph_def get_subgraph_def subgraph_nodes_def ed_switch_def get_machine_mac_def set_add_def)
    (simp add: two_hosts_def)

lemma two_hosts_hops:
  "edge_hops (overlay_graph_nx (nm_overlay two_hosts)) 0 1 = Inr (Some 2)"
  "edge_hops (overlay_graph_nx (nm_overlay two_hosts)) 0 2 = Inr (Some 1)"
  by (simp_all add: two_hosts_def edge_hops_def)


section \<open>Shortest chains\<close>

lemma shortest_loop_spec:
  "(\<exists>d p. (d, p) \<in> set ds \<and> d < m \<and> shortest_loop m s ds = p \<and> (\<forall>(d', p') \<in> set ds. d \<le> d')) \<or>
   (shortest_loop m s ds = s \<and> (\<forall>(d', p') \<in> set ds. m \<le> d'))"
proof (induction ds arbitrary: m s)
  case Nil
  then show ?case by simp
next
  case (Cons x ds)
  obtain d p where x: "x = (d, p)" by (cases x)
  show ?case
  proof (cases "d < m")
    case True
    from Cons.IH [of d p] show ?thesis
    proof
      assume "\<exists>d1 p1. (d1, p1) \<in> set ds \<and> d1 < d \<and> shortest_loop d p ds = p1 \<and> (\<forall>(d', p') \<in> set ds. d1 \<le> d')"
      then obtain d1 where "(d1, shortest_loop d p ds) \<in> set ds" "d1 < d" "\<forall>(d', p') \<in> set ds. d1 \<le> d'" by blast
      then show ?thesis using True by (intro disjI1 exI [of _ d1]) (auto simp: x)
    next
      assume "shortest_loop d p ds = p \<and> (\<forall>(d', p') \<in> set ds. d \<le> d')"
      then show ?thesis using True by (intro disjI1 exI [of _ d]) (auto simp: x)
    qed
  next
    case False
    from Cons.IH [of m s] show ?thesis
    proof
      assume "\<exists>d1 p1. (d1, p1) \<in> set ds \<and> d1 < m \<and> shortest_loop m s ds = p1 \<and> (\<forall>(d', p') \<in> set ds. d1 \<le> d')"
      then obtain d1 where "(d1, shortest_loop m s ds) \<in> set ds" "d1 < m" "\<forall>(d', p') \<in> set ds. d1 \<le> d'" by blast
      then show ?thesis using False by (intro disjI1 exI [of _ d1]) (auto simp: x)
    next
      assume "shortest_loop m s ds = s \<and> (\<forall>(d', p') \<in> set ds. m \<le> d')"
      then show ?thesis using False by (intro disjI2) (auto simp: x)
    qed
  qed
qed

lemma all_paths_valid: "filter (\<lambda>p. is_valid_path p rs) (get_all_paths rs) = get_all_paths rs"
  by (auto simp: filter_id_conv is_valid_path_def get_all_paths_def dest: in_set_product_lists_length)

lemma in_product: "p \<in> set (product_lists rs) \<longleftrightarrow> list_all2 (\<lambda>ed r. ed \<in> set r) p rs"
  by (simp add: product_lists_set)

lemma product_known: "p \<in> set (product_lists rs) \<Longrightarrow> ed \<in> set p \<Longrightarrow> ed \<in> set (concat rs)"
  unfolding in_product by (induction rule: list_all2_induct) auto

lemma product_not_Nil: "[] \<notin> set rs \<Longrightarrow> product_lists rs \<noteq> []"
proof -
  assume "[] \<notin> set rs"
  then have "list_all2 (\<lambda>ed r. ed \<in> set r) (map hd rs) rs" by (induction rs) auto
  then have "map hd rs \<in> set (product_lists rs)" by (simp add: in_product)
  then show ?thesis by auto
qed





text \<open>
  Load awareness has no effect on the choice: as long as no replica set loses its last member,
  \<^verbatim>\<open>get_steering\<close> of the load-aware modules answers the same whatever instances are reported as
  overloaded, since \<^verbatim>\<open>update_replicas\<close> discards the pruned sets.
\<close>

lemma overloaded_instances_ignored:
  assumes "[] \<notin> set rs" and "[] \<notin> set (remove_loaded_element_instances (se_loaded env c) rs)"
  shows "la_get_steering search env c rs src dst flow = la_get_steering search (env\<lparr>se_loaded := \<lambda>_. []\<rparr>) c rs src dst flow"
proof -
  let ?step = "\<lambda>place c (orig, replicas). if length replicas = (0 :: nat) then (if length orig = (0 :: nat) then Inl RuntimeError else place c)
      else Inr c"
  have skip: "rfoldM (?step place) c (zip xs ys) = Inr c" if "[] \<notin> set ys" for place :: "'a \<Rightarrow> 'a res" and xs ys :: "int list list"
    using that by (induction xs ys rule: list_induct2') auto
  have none: "remove_loaded_element_instances [] rs = rs"
  proof -
    have "remove_while_iterating (\<lambda>r :: int. False) i xs = xs" for i xs
      by (induction "\<lambda>r :: int. False" i xs rule: remove_while_iterating.induct)
        (subst remove_while_iterating.simps, simp)
    then show ?thesis by (simp add: remove_loaded_element_instances_def)
  qed
  have len: "length (remove_loaded_element_instances l rs) = length rs" for l
    by (simp add: remove_loaded_element_instances_def)
  have "update_replicas env c rs (remove_loaded_element_instances (se_loaded env c) rs) flow =
      update_replicas (env\<lparr>se_loaded := \<lambda>_. []\<rparr>) c rs rs flow"
    using skip [OF assms(2)] skip [OF assms(1)] by (simp add: update_replicas_def len)
  then show ?thesis by (simp add: la_get_steering_def Let_def none)
qed

definition two_hosts_env :: "unit steer_env" where
  "two_hosts_env = \<lparr>se_net = \<lambda>_. two_hosts, se_e2m = \<lambda>_. two_hosts_e2m, se_loaded = \<lambda>_. [12], se_place_n_steer = Inr,
     se_replicas = \<lambda>_ _. Inr [[11, 12]], se_resolve_partitions = \<lambda>_ _ _ _. Inr ()\<rparr>"

lemma overloaded_instances_ignored_example:
  "la_get_steering la_get_shortest_path two_hosts_env () [[11, 12]] 0 0 web_packet =
   la_get_steering la_get_shortest_path (two_hosts_env\<lparr>se_loaded := \<lambda>_. []\<rparr>) () [[11, 12]] 0 0 web_packet"
  by (rule overloaded_instances_ignored)
    (simp_all add: two_hosts_env_def remove_loaded_element_instances_def remove_while_iterating_eq)

end
