(* ===== verification/Place_N_Steer.thy ===== *)
theory Place_N_Steer
  imports Deployment Steering
begin

text \<open>
  The module that decides whether to add instances, move them or steer traffic (\<^verbatim>\<open>place_n_steer.py\<close>,
  class \<^verbatim>\<open>PlacenSteer\<close>), and the operator's queries (\<^verbatim>\<open>queryengine.py\<close>).  Its dictionaries
  (\<^verbatim>\<open>migrating_elems\<close>, \<^verbatim>\<open>migrating_flows\<close>, \<^verbatim>\<open>active_elems\<close>) are fields of the controller's record.
  The loads the network monitor reports are arguments.
\<close>

section \<open>Environment\<close>

text \<open>What the running controller uses from outside: the placement module's environment, downloads, and
  the platform's parser of \<^verbatim>\<open>a.b.c.d/n\<close> addresses.\<close>

record controller_env =
  ce_placement :: placement_env
  ce_selected :: placement_choice
  ce_download :: download
  ce_parse_cidr :: "string \<Rightarrow> (32 word) res"

type_synonym ctl = "placement_state controller"

text \<open>Assigning to a field of an \<^verbatim>\<open>ofp_match\<close>: the network addresses are parsed, everything else is kept.\<close>

definition match_nw :: "(string \<Rightarrow> (32 word) res) \<Rightarrow> fval \<Rightarrow> fval res" where
  "match_nw parse_cidr v =
     (case v of
        FStr s \<Rightarrow> rbind (if length s \<noteq> 4 \<and> CHR ''/'' \<in> set s then parse_cidr s else ip_of_str s) (\<lambda>w. Inr (FIP w))
      | _ \<Rightarrow> Inr v)"

definition convert_fd_to_fm :: "(string \<Rightarrow> (32 word) res) \<Rightarrow> flow_dict option \<Rightarrow> ofp_match res" where
  "convert_fd_to_fm parse_cidr flow_dict =
     (case flow_dict of
        None \<Rightarrow> Inl TypeError
      | Some flow \<Rightarrow>
          rbind (dict_getitem flow ''dl_src'') (\<lambda>dl_src.
          rbind (dict_getitem flow ''dl_dst'') (\<lambda>dl_dst.
          rbind (dict_getitem flow ''dl_vlan'') (\<lambda>dl_vlan.
          rbind (dict_getitem flow ''dl_vlan_pcp'') (\<lambda>dl_vlan_pcp.
          rbind (dict_getitem flow ''dl_type'') (\<lambda>dl_type.
          rbind (dict_getitem flow ''nw_proto'') (\<lambda>nw_proto.
          rbind (dict_getitem flow ''nw_src'') (\<lambda>nw_src.
          rbind (match_nw parse_cidr nw_src) (\<lambda>nw_src.
          rbind (dict_getitem flow ''nw_dst'') (\<lambda>nw_dst.
          rbind (match_nw parse_cidr nw_dst) (\<lambda>nw_dst.
          rbind (dict_getitem flow ''tp_dst'') (\<lambda>tp_dst.
          rbind (dict_getitem flow ''tp_src'') (\<lambda>tp_src.
          Inr \<lparr>in_port = FNone, dl_src = dl_src, dl_dst = dl_dst, dl_vlan = dl_vlan, dl_vlan_pcp = dl_vlan_pcp,
               dl_type = dl_type, nw_src = nw_src, nw_dst = nw_dst, nw_proto = nw_proto, tp_src = tp_src, tp_dst = tp_dst,
               nw_tos = FNone\<rparr>)))))))))))))"

section \<open>Active elements\<close>

definition update_active_elements :: "int list \<Rightarrow> 'p controller \<Rightarrow> 'p controller res" where
  "update_active_elements eds c =
     rfoldM (\<lambda>c elem_desc.
        rbind (get_connected_switch (nm_overlay (c_net c)) (etm_get (c_e2m c) elem_desc)) (\<lambda>elem_switch_mac.
        Inr (c\<lparr>c_active_elems :=
               (case map_of (c_active_elems c) elem_switch_mac of
                  Some l \<Rightarrow> AList.update elem_switch_mac (l @ [elem_desc]) (c_active_elems c)
                | None \<Rightarrow> AList.update elem_switch_mac [elem_desc] (c_active_elems c))\<rparr>)))
       c eds"

definition remove_active_elements :: "dpid \<Rightarrow> ofp_match \<Rightarrow> 'p controller \<Rightarrow> 'p controller res" where
  "remove_active_elements dpid flow_match c =
     rbind (fte_get (c_f2e c) FNone flow_match) (\<lambda>replica_sets.
     Inr (foldl (\<lambda>c ed.
            case map_of (c_active_elems c) dpid of
              None \<Rightarrow> c
            | Some l \<Rightarrow> if ed \<in> set l then c\<lparr>c_active_elems := AList.update dpid (remove1 ed l) (c_active_elems c)\<rparr> else c)
          c (concat replica_sets)))"

definition get_active_element_descs :: "(dpid, int list) dict \<Rightarrow> int list \<Rightarrow> int list" where
  "get_active_element_descs active eds =
     foldl (\<lambda>active_elems ed.
        foldl (\<lambda>active_elems (dpid, elem_descs).
           if ed \<in> set elem_descs then (if ed \<notin> set active_elems then active_elems @ [ed] else active_elems) else active_elems)
          active_elems active)
       [] eds"

section \<open>The end of a flow\<close>

definition finish_migrating_elem :: "flow_tuple option \<Rightarrow> 'p controller \<Rightarrow> 'p controller res" where
  "finish_migrating_elem removed_flow_tuple c =
     (case map_of (c_migrating_elems c) removed_flow_tuple of
        None \<Rightarrow> Inr c
      | Some (old_ed, app_desc) \<Rightarrow>
          rbind (remove_elem app_desc old_ed c) (\<lambda>c1.
          let c2 = c1\<lparr>c_migrating_elems := AList.delete removed_flow_tuple (c_migrating_elems c1)\<rparr>
          in rbind (end_migration (c_migration c2) old_ed) (\<lambda>m. Inr (c2\<lparr>c_migration := m\<rparr>))))"

definition finish_migrating_flow :: "flow_tuple option \<Rightarrow> 'p controller \<Rightarrow> 'p controller res" where
  "finish_migrating_flow removed_flow_tuple c =
     (case map_of (c_migrating_flows c) removed_flow_tuple of
        None \<Rightarrow> Inr c
      | Some old_ed \<Rightarrow>
          rbind (end_migration (c_migration c) old_ed) (\<lambda>m.
          Inr (c\<lparr>c_migration := m, c_migrating_flows := AList.delete removed_flow_tuple (c_migrating_flows c)\<rparr>)))"

definition handle_FlowRemoved :: "dpid \<Rightarrow> ofp_match \<Rightarrow> 'p controller \<Rightarrow> 'p controller res" where
  "handle_FlowRemoved dpid flow_match c =
     rbind (get_matching_flow (c_f2e c) flow_match) (\<lambda>removed_flow_tuple.
     rbind (remove_active_elements dpid flow_match c) (\<lambda>c1.
     rbind (finish_migrating_elem removed_flow_tuple c1) (\<lambda>c2.
     finish_migrating_flow removed_flow_tuple c2)))"

section \<open>New instances\<close>

text \<open>\<^verbatim>\<open>dpid_to_str\<close> of the platform, in the log messages; only whether it raises matters.\<close>

definition print_machine :: "mac option \<Rightarrow> unit res" where
  "print_machine m =
     (case m of
        None \<Rightarrow> Inl TypeError
      | Some (MacInt n) \<Rightarrow> rbind (dpid_to_str n ''-'' False) (\<lambda>_. Inr ())
      | Some (MacStr s) \<Rightarrow> if length s = 8 then Inr () else Inl AssertionError)"

text \<open>\<^verbatim>\<open>ElementInstance\<close> takes five arguments and is given four, so the code after it is not reached.  A
  descriptor with an owner has a name in every consistent state; without one the download of \<^verbatim>\<open>None\<close> raises.\<close>

definition create_element_copy :: "controller_env \<Rightarrow> int \<Rightarrow> mac \<Rightarrow> ctl \<Rightarrow> (ctl \<times> int) res" where
  "create_element_copy env ed dst_mac c =
     (let element_name = get_elem_name (c_net c) ed in
      rbind (eta_get_app_desc (c_e2a c) ed) (\<lambda>app_desc.
      rbind (eta_get_app_handle (c_e2a c) ed) (\<lambda>application_object.
      let flow = (case get_element_flow (c_f2e c) ed of None \<Rightarrow> [] | Some f \<Rightarrow> f) in
      rbind (eta_get_elem_parameters (c_e2a c) ed) (\<lambda>parameter.
      rbind (eta_get_controller_params (c_e2a c) ed) (\<lambda>controller_param.
      rbind (if eta_contains_app (c_e2a c) app_desc
             then rbind (print_machine (etm_get (c_e2m c) ed)) (\<lambda>_. print_machine (Some dst_mac))
             else Inr ()) (\<lambda>_.
      case element_name of
        None \<Rightarrow> Inl AttributeError
      | Some name \<Rightarrow>
          (case download_files (ce_download env) [name] [dst_mac] c of
             Inl (SlickException ElementDownloadFailed) \<Rightarrow> Inr (c, - 2)
           | Inl e \<Rightarrow> Inl e
           | Inr _ \<Rightarrow>
               (case get_unique_element_descriptor c of
                  (c1, elem_desc) \<Rightarrow>
                    rbind (send_install_msg elem_desc flow name parameter dst_mac c1) (\<lambda>(c2, sent).
                    if sent then rbind (mti_get (c_m2i c2) (Some dst_mac)) (\<lambda>ip_addr. Inl TypeError)
                    else Inr (c2, - 1))))))))))"

definition create_element_instance :: "controller_env \<Rightarrow> int \<Rightarrow> ctl \<Rightarrow> (ctl \<times> int option) res" where
  "create_element_instance env ed c =
     rbind (eta_get_app_desc (c_e2a c) ed) (\<lambda>app_desc.
     rbind (eta_get_app_handle (c_e2a c) ed) (\<lambda>application_object.
     rbind (eta_get_elem_parameters (c_e2a c) ed) (\<lambda>param_dict.
     rbind (eta_get_controller_params (c_e2a c) ed) (\<lambda>controller_param.
     case (get_elem_name (c_net c) ed, get_element_flow (c_f2e c) ed) of
       (Some e_name, Some flow) \<Rightarrow>
         rbind (apply_elem (controller_get_placement (ce_placement env) (ce_selected env)) (ce_download env)
                  app_desc flow [e_name] [param_dict] [controller_param] application_object c) (\<lambda>(c1, created_elem_descs).
         case created_elem_descs of
           ed' # _ \<Rightarrow> Inr (c1, Some ed')
         | [] \<Rightarrow> Inr (c1, None))
     | _ \<Rightarrow> Inl TypeError))))"

section \<open>Steering and migration\<close>

definition steer_traffic :: "controller_env \<Rightarrow> int \<Rightarrow> int \<Rightarrow> 'p controller \<Rightarrow> 'p controller res" where
  "steer_traffic env old_ed new_ed c =
     (if old_ed = new_ed then Inl AssertionError
      else
        rbind (convert_fd_to_fm (ce_parse_cidr env) (get_element_flow (c_f2e c) old_ed)) (\<lambda>flow_match.
        rbind (get_matching_flow (c_f2e c) flow_match) (\<lambda>matched_flow_tuple.
        Inr (c\<lparr>c_migration := init_migration (c_migration c) old_ed new_ed,
               c_net := remove_elem_to_switch_mapping (c_net c) old_ed,
               c_migrating_flows := AList.update matched_flow_tuple old_ed (c_migrating_flows c)\<rparr>))))"

definition perform_stateless_migration :: "controller_env \<Rightarrow> int \<Rightarrow> mac \<Rightarrow> ctl \<Rightarrow> ctl res" where
  "perform_stateless_migration env ed dst_mac c =
     (let element_name = (case get_elem_name (c_net c) ed of None \<Rightarrow> [] | Some n \<Rightarrow> n) in
      if dst_mac \<notin> set (get_compatible_machines (c_m2i c) element_name) then Inr c
      else
        rbind (convert_fd_to_fm (ce_parse_cidr env) (get_element_flow (c_f2e c) ed)) (\<lambda>flow_match.
        rbind (get_matching_flow (c_f2e c) flow_match) (\<lambda>matched_flow_tuple.
        rbind (eta_get_app_desc (c_e2a c) ed) (\<lambda>app_desc.
        let c1 = c\<lparr>c_migrating_elems := AList.update matched_flow_tuple (ed, app_desc) (c_migrating_elems c)\<rparr> in
        rbind (create_element_copy env ed dst_mac c1) (\<lambda>(c2, new_ed).
        if ed = new_ed then Inl AssertionError
        else
          let c3 = c2\<lparr>c_migration := init_migration (c_migration c2) ed new_ed,
                      c_net := remove_elem_to_switch_mapping (c_net c2) ed\<rparr>
          in case get_elem_name (c_net c3) ed of
               None \<Rightarrow> Inl KeyError
             | Some old_elem_name \<Rightarrow>
                 rbind (is_affinity_required (c_e2a c3) (c_net c3) ed old_elem_name) (\<lambda>required.
                 if required
                 then rbind (update_flow_affinity (c_affinity c3) ed new_ed) (\<lambda>fa. Inr (c3\<lparr>c_affinity := fa\<rparr>))
                 else Inr c3))))))"

definition move_element :: "controller_env \<Rightarrow> int \<Rightarrow> mac \<Rightarrow> ctl \<Rightarrow> ctl res" where
  "move_element env ed dst_mac c = perform_stateless_migration env ed dst_mac c"

text \<open>\<^verbatim>\<open>avail_eds.pop()\<close> takes the last of the descriptors that are not loaded.\<close>

definition handle_loaded_name :: "controller_env \<Rightarrow> ctl \<Rightarrow> string option \<Rightarrow> ctl res" where
  "handle_loaded_name env c element_name =
     (case get_elem_descs (c_net c) element_name of
        [] \<Rightarrow> Inl RuntimeError
      | ed # _ \<Rightarrow>
          (let avail_eds = get_not_loaded_element_descs (c_net c) (case element_name of None \<Rightarrow> [] | Some n \<Rightarrow> n)
           in if length avail_eds = 0 then rbind (create_element_instance env ed c) (\<lambda>(c1, new_ed). Inr c1)
              else steer_traffic env ed (last avail_eds) c))"

definition handle_loaded_elements :: "controller_env \<Rightarrow> int list \<Rightarrow> ctl \<Rightarrow> ctl res" where
  "handle_loaded_elements env loaded_element_descs c =
     rfoldM (handle_loaded_name env) c (map (get_elem_name (c_net c)) loaded_element_descs)"

definition place_n_steer :: "controller_env \<Rightarrow> int list \<Rightarrow> link list \<Rightarrow> ctl \<Rightarrow> ctl res" where
  "place_n_steer env loaded_elements congested_links c =
     (let c1 = c\<lparr>c_net := update_function_loads (c_net c) loaded_elements\<rparr>
      in if length loaded_elements \<noteq> 0 \<and> length congested_links = 0 then handle_loaded_elements env loaded_elements c1
         else Inr c1)"

section \<open>Garbage collection\<close>

fun remove_passive :: "int list \<Rightarrow> 'p controller \<Rightarrow> 'p controller res" where
  "remove_passive [] c = Inr c"
| "remove_passive (ed # eds) c =
     rbind (eta_get_app_desc (c_e2a c) ed) (\<lambda>app_desc.
     rbind (remove_elem app_desc ed c) (\<lambda>c1. remove_passive eds c1))"

definition collect_name :: "'p controller \<Rightarrow> string \<Rightarrow> 'p controller res" where
  "collect_name c elem_name =
     (let avail_eds = get_not_loaded_element_descs (c_net c) elem_name in
      if length avail_eds \<noteq> 0 then
        (let active_eds = get_active_element_descs (c_active_elems c) avail_eds;
             passive_eds = filter (\<lambda>ed. ed \<notin> set active_eds) avail_eds
         in if int (length passive_eds) > get_min_elem_descs elem_name then remove_passive passive_eds c else Inr c)
      else Inr c)"

definition collect_garbage :: "'p controller \<Rightarrow> 'p controller res" where
  "collect_garbage c = rfoldM collect_name c (get_elem_names (c_net c))"

section \<open>Test drivers and partitions\<close>

definition machine_loads :: "'p controller \<Rightarrow> (mac \<times> int list) list res" where
  "machine_loads c =
     rmapM (\<lambda>mac. rbind (etm_get_elem_descs (c_e2m c) mac) (\<lambda>eds. Inr (mac, eds))) (get_all_registered_machines c)"

definition random_move :: "controller_env \<Rightarrow> ctl \<Rightarrow> ctl res" where
  "random_move env c =
     rbind (machine_loads c) (\<lambda>loads.
     let all_elem_descs = concat (map snd loads); free_machines = map fst (filter (\<lambda>(mac, eds). length eds = 0) loads)
     in if length free_machines \<ge> 2 \<and> length all_elem_descs = 1
        then move_element env (all_elem_descs ! 0) (free_machines ! 0) c else Inr c)"

definition test_steer_traffic :: "controller_env \<Rightarrow> ctl \<Rightarrow> ctl res" where
  "test_steer_traffic env c =
     rbind (machine_loads c) (\<lambda>loads.
     let all_elem_descs = concat (map snd loads); free_machines = map fst (filter (\<lambda>(mac, eds). length eds = 0) loads)
     in if length free_machines \<ge> 1 \<and> length all_elem_descs = 1
        then rbind (create_element_copy env (all_elem_descs ! 0) (free_machines ! 0) c) (\<lambda>(c1, new_ed).
             steer_traffic env (all_elem_descs ! 0) new_ed c1)
        else Inr c)"

text \<open>\<^verbatim>\<open>policy_direction\<close> is always \<^verbatim>\<open>NS\<close>; every element outside the source's partition is created again.\<close>

definition resolve_partitions :: "controller_env \<Rightarrow> dpid \<Rightarrow> dpid \<Rightarrow> int list option \<Rightarrow> ctl \<Rightarrow> ctl res" where
  "resolve_partitions env src dst element_descs c =
     (let src_partition_number = get_partition_number (nm_physical (c_net c)) src in
      case element_descs of
        None \<Rightarrow> Inl TypeError
      | Some eds \<Rightarrow>
          rbind (rmapM (\<lambda>ed.
             rbind (get_connected_switch (nm_overlay (c_net c)) (get_machine_mac (c_e2m c) ed)) (\<lambda>switch_mac.
             Inr (ed, get_partition_number (nm_physical (c_net c)) switch_mac))) eds) (\<lambda>element_partition_number_vector.
          rfoldM (\<lambda>c ed. rbind (create_element_instance env ed c) (\<lambda>(c1, new_ed). Inr c1)) c
            (map fst (filter (\<lambda>(ed, elem_part_number). elem_part_number \<noteq> src_partition_number) element_partition_number_vector))))"

section \<open>Queries\<close>

record summary =
  num_apps :: nat
  num_mbs :: nat
  num_elem_descs :: nat
  num_elems :: nat

definition process_summary_request :: "'p controller \<Rightarrow> summary" where
  "process_summary_request c =
     \<lparr>num_apps = card (eta_get_app_descs (c_e2a c)), num_mbs = length (get_all_registered_machines c),
      num_elem_descs = length (get_elem_descs (c_net c) None), num_elems = length (get_elem_names (c_net c))\<rparr>"

definition fmt_int :: "int \<Rightarrow> string" where
  "fmt_int n = (if n < 0 then ''-'' @ fmt_d (nat (- n)) else fmt_d (nat n))"

definition details_line :: "'p controller \<Rightarrow> mac \<Rightarrow> string option res" where
  "details_line c mac =
     (let line = (case mac of MacInt n \<Rightarrow> dpid_to_str n ''-'' False
                  | MacStr s \<Rightarrow> if length s = 8 then dpid_to_str (int_of_bytes (map byte_of s)) ''-'' False else Inl AssertionError)
      in rbind line (\<lambda>name.
         rbind (etm_get_elem_descs (c_e2m c) mac) (\<lambda>elem_descs.
         rbind (rmapM (\<lambda>ed. case get_elem_name (c_net c) ed of
                  None \<Rightarrow> Inl TypeError
                | Some n \<Rightarrow> Inr ('' -> {element_name:'' @ n @ '' ,element_descriptor:'' @ fmt_int ed @ ''}'')) elem_descs) (\<lambda>parts.
         Inr (if length elem_descs \<noteq> 0 then Some (''Middlebox Machine: '' @ name @ concat parts) else None)))))"

definition process_details_request :: "'p controller \<Rightarrow> string list res" where
  "process_details_request c =
     rbind (rmapM (details_line c) (get_all_registered_machines c)) (\<lambda>lines.
     Inr (map the (filter (\<lambda>l. l \<noteq> None) lines)))"

section \<open>The decisions keep the tables in agreement\<close>

lemma books_switch_mapping: "books (c\<lparr>c_net := remove_elem_to_switch_mapping (c_net c) ed\<rparr>) = books c"
  by (simp add: books_def remove_elem_to_switch_mapping_def)

lemma books_steer: "steer_traffic env old new c = Inr c' \<Longrightarrow> books c' = books c"
  by (auto simp: steer_traffic_def rbind_eq_Inr books_def remove_elem_to_switch_mapping_def split: if_splits)

lemma loads_keep_instances:
  "name_to_instances (update_function_loads nm eds) = name_to_instances nm \<and>
   ed_to_instance (update_function_loads nm eds) = ed_to_instance nm"
  unfolding update_function_loads_def by (rule foldl_invariant) (auto simp: Let_def)

lemma books_loads: "books (c\<lparr>c_net := update_function_loads (c_net c) eds\<rparr>) = books c"
  using loads_keep_instances by (simp add: books_def)

lemma books_active: "update_active_elements eds c = Inr c' \<Longrightarrow> books c' = books c"
  unfolding update_active_elements_def
  by (erule rfoldM_invariant) (auto simp: rbind_eq_Inr books_def)

lemma books_inactive: "remove_active_elements sw m c = Inr c' \<Longrightarrow> books c' = books c"
proof -
  assume "remove_active_elements sw m c = Inr c'"
  then obtain eds where c': "c' = foldl (\<lambda>c ed. case map_of (c_active_elems c) sw of None \<Rightarrow> c
      | Some l \<Rightarrow> if ed \<in> set l then c\<lparr>c_active_elems := AList.update sw (remove1 ed l) (c_active_elems c)\<rparr> else c) c eds"
    by (auto simp: remove_active_elements_def rbind_eq_Inr)
  show ?thesis unfolding c' by (rule foldl_invariant [where P = "\<lambda>d. books d = books c"]) (auto simp: books_def split: option.splits)
qed

lemma create_instance_consistent:
  assumes "create_element_instance env ed c = Inr (c', r)" and "consistent c"
  shows "consistent c'"
proof -
  from assms(1) obtain app flow n ps cps obj eds where
    "apply_elem (controller_get_placement (ce_placement env) (ce_selected env)) (ce_download env) app flow [n] [ps] [cps] obj c = Inr (c', eds)"
    by (cases "get_elem_name (c_net c) ed"; cases "get_element_flow (c_f2e c) ed")
      (auto simp: create_element_instance_def rbind_def split: list.splits sum.splits)
  from running.apply_elem_refines [OF assms(2) this] show ?thesis by simp
qed

lemma handle_loaded_consistent: "handle_loaded_name env c n = Inr c' \<Longrightarrow> consistent c \<Longrightarrow> consistent c'"
  by (auto simp: handle_loaded_name_def Let_def rbind_eq_Inr books_same(1) [OF books_steer] split: list.splits if_splits
      dest: create_instance_consistent)

lemma place_n_steer_keeps: "place_n_steer env loaded congested c = Inr c' \<Longrightarrow> consistent c \<Longrightarrow> consistent c'"
  using books_same(1) [OF books_loads, of c loaded]
  by (auto simp: place_n_steer_def handle_loaded_elements_def Let_def split: if_splits
      elim!: rfoldM_invariant dest: handle_loaded_consistent)

lemma remove_elem_consistent: "remove_elem app ed c = Inr c' \<Longrightarrow> consistent c \<Longrightarrow> consistent c'"
  using remove_elem_known remove_elem_refines by (metis sum.inject(2))

lemma flow_removed_keeps: "handle_FlowRemoved sw m c = Inr c' \<Longrightarrow> consistent c \<Longrightarrow> consistent c'"
proof -
  assume "handle_FlowRemoved sw m c = Inr c'" and con: "consistent c"
  then obtain ft c1 c2 where c1: "remove_active_elements sw m c = Inr c1" and c2: "finish_migrating_elem ft c1 = Inr c2"
    and c': "finish_migrating_flow ft c2 = Inr c'" by (auto simp: handle_FlowRemoved_def rbind_eq_Inr)
  have "consistent c1" using con books_same(1) [OF books_inactive [OF c1]] by simp
  then have "consistent c2"
  proof (cases "map_of (c_migrating_elems c1) ft")
    case (Some p)
    with c2 obtain d where "remove_elem (snd p) (fst p) c1 = Inr d" "books c2 = books d"
      by (auto simp: finish_migrating_elem_def Let_def rbind_eq_Inr books_def split: prod.splits)
    with \<open>consistent c1\<close> show ?thesis using remove_elem_consistent books_same(1) by metis
  qed (use c2 in \<open>simp add: finish_migrating_elem_def\<close>)
  moreover have "books c' = books c2"
    using c' by (auto simp: finish_migrating_flow_def rbind_eq_Inr books_def split: option.splits)
  ultimately show "consistent c'" using books_same(1) by blast
qed

lemma resolve_partitions_keeps: "resolve_partitions env src dst eds c = Inr c' \<Longrightarrow> consistent c \<Longrightarrow> consistent c'"
  by (auto simp: resolve_partitions_def Let_def rbind_eq_Inr split: option.splits
      elim!: rfoldM_invariant dest: create_instance_consistent)

section \<open>What garbage collection removes\<close>

definition loaded_descs :: "'p controller \<Rightarrow> string \<Rightarrow> int list" where
  "loaded_descs c n = (case map_of (elem_name_to_loaded_descs (c_net c)) n of None \<Rightarrow> [] | Some eds \<Rightarrow> eds)"

definition idle_descs :: "'p controller \<Rightarrow> string \<Rightarrow> int set" where
  "idle_descs c n = {ed. \<exists>i. deployment c ed = Some i \<and> ei_name i = n \<and> ed \<notin> set (loaded_descs c n) \<and>
     (\<forall>(sw, eds) \<in> set (c_active_elems c). ed \<notin> set eds)}"

definition garbage :: "'p controller \<Rightarrow> string \<Rightarrow> int set" where
  "garbage c n = (if card (idle_descs c n) > 1 then idle_descs c n else {})"

lemma set_get_active: "set (get_active_element_descs active eds) = {ed \<in> set eds. \<exists>(sw, l) \<in> set active. ed \<in> set l}"
proof -
  have inner: "set (foldl (\<lambda>acc (sw, l). if ed \<in> set l then (if ed \<notin> set acc then acc @ [ed] else acc) else acc) acc active) =
      set acc \<union> {e. e = ed \<and> (\<exists>(sw, l) \<in> set active. ed \<in> set l)}" for ed acc
    by (induction active arbitrary: acc) auto
  have "set (foldl (\<lambda>acc ed. foldl (\<lambda>acc (sw, l). if ed \<in> set l then (if ed \<notin> set acc then acc @ [ed] else acc) else acc) acc active)
      acc eds) = set acc \<union> {ed \<in> set eds. \<exists>(sw, l) \<in> set active. ed \<in> set l}" for acc
    by (induction eds arbitrary: acc) (auto simp: inner)
  then show ?thesis by (simp add: get_active_element_descs_def)
qed

lemma element_descriptors_deployed:
  assumes "consistent c"
  shows "ed \<in> set (get_element_descriptors (c_net c) n) \<longleftrightarrow> (\<exists>i. deployment c ed = Some i \<and> ei_name i = n)"
proof
  assume "ed \<in> set (get_element_descriptors (c_net c) n)"
  then show "\<exists>i. deployment c ed = Some i \<and> ei_name i = n"
    using nm_wf_instance [OF consistentD(1) [OF assms]] by (auto simp: get_element_descriptors_def deployment_def)
next
  assume "\<exists>i. deployment c ed = Some i \<and> ei_name i = n"
  then show "ed \<in> set (get_element_descriptors (c_net c) n)"
    using nm_wf_ed [OF consistentD(1) [OF assms]] by (force simp: get_element_descriptors_def deployment_def)
qed

text \<open>The list the loop of one element works on is the set of its passive descriptors.\<close>

lemma passive_eds:
  fixes n :: string
  assumes "consistent c"
  defines "avail \<equiv> get_not_loaded_element_descs (c_net c) n"
  defines "eds \<equiv> filter (\<lambda>ed. ed \<notin> set (get_active_element_descs (c_active_elems c) avail)) avail"
  shows "set eds = idle_descs c n" and "distinct eds" and "length eds = card (idle_descs c n)"
proof -
  show set: "set eds = idle_descs c n"
    unfolding eds_def avail_def
    by (auto simp: idle_descs_def loaded_descs_def get_not_loaded_element_descs_def set_get_active element_descriptors_deployed [OF assms(1)] Let_def)
  show dist: "distinct eds" by (simp add: eds_def avail_def get_not_loaded_element_descs_def Let_def)
  show "length eds = card (idle_descs c n)" using set distinct_card [OF dist] by simp
qed

definition same_activity :: "'p controller \<Rightarrow> 'p controller \<Rightarrow> bool" where
  "same_activity c c' \<longleftrightarrow> c_active_elems c' = c_active_elems c \<and>
     elem_name_to_loaded_descs (c_net c') = elem_name_to_loaded_descs (c_net c)"

lemma remove_elem_activity:
  assumes "consistent c" and "deployment c ed = Some i"
  shows "\<exists>c'. remove_elem app ed c = Inr c' \<and> consistent c' \<and> deployment c' = (deployment c)(ed := None) \<and> same_activity c c'"
proof -
  obtain c' where c': "remove_elem app ed c = Inr c'" "consistent c'" "deployment c' = (deployment c)(ed := None)"
    using remove_elem_refines [OF assms] by blast
  obtain ps sock nm where nm: "remove_placement (c_net c) ed = Inr nm" and
    "remove_elem app ed c = Inr (c\<lparr>c_sent := c_sent c @ [(sock, RemoveMsg ed ps)],
       c_e2m := fst (etm_remove (c_e2m c) (ei_location i) (Some ed)), c_f2e := remove_element_instance (c_f2e c) ed,
       c_e2a := AList.delete ed (c_e2a c), c_net := nm\<rparr>)"
    by (rule remove_elem_eq [OF assms])
  moreover have "elem_name_to_loaded_descs nm = elem_name_to_loaded_descs (c_net c)"
    using nm by (auto simp: remove_placement_def rbind_eq_Inr split: option.splits)
  ultimately have "same_activity c c'" using c'(1) by (auto simp: same_activity_def)
  with c' show ?thesis by blast
qed

lemma remove_passive_all:
  assumes "consistent c" and "distinct eds" and "set eds \<subseteq> dom (deployment c)"
  shows "\<exists>c'. remove_passive eds c = Inr c' \<and> consistent c' \<and> deployment c' = deployment c |` (- set eds) \<and> same_activity c c'"
  using assms
proof (induction eds arbitrary: c)
  case Nil
  then show ?case by (simp add: same_activity_def)
next
  case (Cons ed eds)
  then obtain i where i: "deployment c ed = Some i" by auto
  obtain app where app: "eta_get_app_desc (c_e2a c) ed = Inr app"
    using consistentD(5) [OF Cons.prems(1), of ed] i by (auto simp: eta_get_app_desc_def dict_getitem_def)
  obtain c1 where c1: "remove_elem app ed c = Inr c1" "consistent c1" "deployment c1 = (deployment c)(ed := None)" "same_activity c c1"
    using remove_elem_activity [OF Cons.prems(1) i] by blast
  have "set eds \<subseteq> dom (deployment c1)" using Cons.prems(2,3) by (auto simp: c1(3))
  then obtain c' where "remove_passive eds c1 = Inr c'" "consistent c'" "deployment c' = deployment c1 |` (- set eds)" "same_activity c1 c'"
    using Cons.IH [OF c1(2)] Cons.prems(2) by auto
  with app c1 show ?case by (auto simp: same_activity_def restrict_map_def fun_eq_iff)
qed

lemma collect_name_removes:
  assumes "consistent c"
  shows "\<exists>c'. collect_name c n = Inr c' \<and> consistent c' \<and> deployment c' = deployment c |` (- garbage c n) \<and> same_activity c c'"
proof -
  let ?avail = "get_not_loaded_element_descs (c_net c) n"
  let ?eds = "filter (\<lambda>ed. ed \<notin> set (get_active_element_descs (c_active_elems c) ?avail)) ?avail"
  note eds = passive_eds [OF assms, of n]
  have whole: "collect_name c n = (if card (idle_descs c n) > 1 then remove_passive ?eds c else Inr c)"
    using eds(3) by (auto simp: collect_name_def Let_def get_min_elem_descs_def)
  show ?thesis
  proof (cases "card (idle_descs c n) > 1")
    case True
    have "set ?eds \<subseteq> dom (deployment c)" using eds(1) by (auto simp: idle_descs_def)
    from remove_passive_all [OF assms eds(2) this] True show ?thesis unfolding whole eds(1) by (simp add: garbage_def)
  next
    case False
    with assms show ?thesis unfolding whole by (simp add: garbage_def same_activity_def restrict_map_def)
  qed
qed

lemma garbage_other_names:
  assumes "same_activity c c'" and "deployment c' = deployment c |` (- garbage c n)" and "m \<noteq> n"
  shows "garbage c' m = garbage c m"
proof -
  have "ed \<notin> garbage c n" if "deployment c ed = Some i" "ei_name i = m" for ed i
    using that assms(3) by (auto simp: garbage_def idle_descs_def split: if_splits)
  then have "idle_descs c' m = idle_descs c m"
    using assms(1,2) by (auto simp: idle_descs_def same_activity_def loaded_descs_def restrict_map_def split: if_splits)
  then show ?thesis by (simp add: garbage_def)
qed

lemma collect_names:
  assumes "consistent c" and "distinct names"
  shows "\<exists>c'. rfoldM collect_name c names = Inr c' \<and> consistent c' \<and>
     deployment c' = deployment c |` (- (\<Union>n \<in> set names. garbage c n))"
  using assms
proof (induction names arbitrary: c)
  case Nil
  then show ?case by simp
next
  case (Cons n names)
  obtain c1 where c1: "collect_name c n = Inr c1" "consistent c1" "deployment c1 = deployment c |` (- garbage c n)" "same_activity c c1"
    using collect_name_removes [OF Cons.prems(1)] by blast
  have "garbage c1 m = garbage c m" if "m \<in> set names" for m
    using that Cons.prems(2) by (intro garbage_other_names [OF c1(4,3)]) auto
  then have "(\<Union>m \<in> set names. garbage c1 m) = (\<Union>m \<in> set names. garbage c m)" by simp
  moreover obtain c' where "rfoldM collect_name c1 names = Inr c'" "consistent c'"
      "deployment c' = deployment c1 |` (- (\<Union>m \<in> set names. garbage c1 m))"
    using Cons.IH [OF c1(2)] Cons.prems(2) by auto
  ultimately show ?case using c1 by (auto simp: restrict_map_def fun_eq_iff)
qed

text \<open>
  C21. Garbage collection always returns and keeps the tables in agreement.  It removes exactly the
  instances that are neither loaded nor active, of every element that has more than one of them.
  The check against deleting all instances only counts them: when all instances of an element
  are idle and there are at least two, none is left.
\<close>

theorem collect_garbage_removes:
  assumes "consistent c"
  shows "\<exists>c'. collect_garbage c = Inr c' \<and> consistent c' \<and>
    (\<forall>ed. deployment c' ed = (if \<exists>n. ed \<in> idle_descs c n \<and> card (idle_descs c n) > 1 then None else deployment c ed))"
proof -
  have names: "distinct (get_elem_names (c_net c))" using consistentD(1) [OF assms] by (simp add: nm_wf_def get_elem_names_def)
  have known: "n \<in> set (get_elem_names (c_net c))" if "ed \<in> garbage c n" for ed n
  proof -
    from that obtain i where "deployment c ed = Some i" "ei_name i = n"
      by (auto simp: garbage_def idle_descs_def split: if_splits)
    then have "instances_named (c_net c) n \<noteq> []"
      using nm_wf_ed(2) [OF consistentD(1) [OF assms]] by (force simp: deployment_def)
    then show ?thesis by (auto simp: instances_named_def get_elem_names_def split: option.splits dest!: map_of_SomeD intro: rev_image_eqI)
  qed
  obtain c' where c': "rfoldM collect_name c (get_elem_names (c_net c)) = Inr c'" "consistent c'"
      "deployment c' = deployment c |` (- (\<Union>n \<in> set (get_elem_names (c_net c)). garbage c n))"
    using collect_names [OF assms names] by blast
  have "ed \<in> (\<Union>n \<in> set (get_elem_names (c_net c)). garbage c n) \<longleftrightarrow> (\<exists>n. ed \<in> idle_descs c n \<and> card (idle_descs c n) > 1)" for ed
    using known by (auto simp: garbage_def split: if_splits)
  with c' show ?thesis unfolding collect_garbage_def restrict_map_def by auto
qed

text \<open>Two loggers on one machine, neither loaded nor active.\<close>

abbreviation demo_twice :: "(ctl \<times> int list) res" where
  "demo_twice \<equiv> rbind demo_apply (\<lambda>(c, eds).
     apply_elem (controller_get_placement demo_env RoundRobinP) demo_download 101 web_flow [''Logger''] [[]] [[]] 7 c)"

lemma demo_twice_state:
  "map_sum id (\<lambda>(c, eds). (eds, ed_to_instance (c_net c), c_active_elems c, elem_name_to_loaded_descs (c_net c))) demo_twice =
     Inr ([3], [(2, demo_logger), (3, demo_logger\<lparr>ei_elem_desc := 3\<rparr>)], [], [])"
  by code_simp

lemma demo_twice_deployed:
  "\<exists>c. demo_twice = Inr (c, [3]) \<and> consistent c \<and> deployment c = [2 \<mapsto> demo_logger, 3 \<mapsto> demo_logger\<lparr>ei_elem_desc := 3\<rparr>] \<and>
     c_active_elems c = [] \<and> elem_name_to_loaded_descs (c_net c) = []"
proof -
  obtain c1 where c1: "demo_apply = Inr (c1, [2])" using demo_deployed by blast
  obtain c where c: "demo_twice = Inr (c, [3])" "ed_to_instance (c_net c) = [(2, demo_logger), (3, demo_logger\<lparr>ei_elem_desc := 3\<rparr>)]"
      "c_active_elems c = []" "elem_name_to_loaded_descs (c_net c) = []"
    using demo_twice_state by (cases demo_twice) auto
  have "consistent c1" using running.apply_elem_refines [OF demo_traffic_consistent c1] by blast
  then have "consistent c" using running.apply_elem_refines c(1) c1 by (metis (no_types, lifting) prod.case rbind_Inr)
  with c show ?thesis by (auto simp: deployment_def fun_eq_iff)
qed

theorem collect_garbage_removes_witness:
  "\<exists>c c'. demo_twice = Inr (c, [3]) \<and> deployment c 2 = Some demo_logger \<and> collect_garbage c = Inr c' \<and> deployment c' = Map.empty"
proof -
  obtain c where c: "demo_twice = Inr (c, [3])" "consistent c"
      "deployment c = [2 \<mapsto> demo_logger, 3 \<mapsto> demo_logger\<lparr>ei_elem_desc := 3\<rparr>]"
      "c_active_elems c = []" "elem_name_to_loaded_descs (c_net c) = []" using demo_twice_deployed by blast
  have idle: "idle_descs c ''Logger'' = {2, 3}"
    using c(3-5) by (auto simp: idle_descs_def loaded_descs_def demo_logger_def)
  obtain c' where c': "collect_garbage c = Inr c'" "\<forall>ed. deployment c' ed =
      (if \<exists>n. ed \<in> idle_descs c n \<and> card (idle_descs c n) > 1 then None else deployment c ed)"
    using collect_garbage_removes [OF c(2)] by blast
  have "\<exists>n. ed \<in> idle_descs c n \<and> card (idle_descs c n) > 1" if "ed \<in> {2, 3}" for ed
    using that idle by (intro exI [of _ "''Logger''"]) auto
  then have "deployment c' = Map.empty" using c'(2) c(3) by (auto simp: fun_eq_iff)
  with c c'(1) show ?thesis by auto
qed

section \<open>Migration and steering\<close>

lemma create_copy_state: "create_element_copy env ed m c = Inr (c', r) \<Longrightarrow>
    r \<in> {- 1, - 2} \<and> (c' = c \<or> c' = c\<lparr>c_latest_ed := c_latest_ed c + 1\<rparr>)"
proof -
  assume copy: "create_element_copy env ed m c = Inr (c', r)"
  show ?thesis
  proof (cases "r = - 2 \<and> c' = c")
    case False
    with copy obtain flow n ps c1 e where "send_install_msg e flow n ps m c1 = Inr (c', False)" "r = - 1"
        "get_unique_element_descriptor c = (c1, e)"
      by (auto simp: create_element_copy_def Let_def rbind_def split: sum.splits option.splits prod.splits if_splits
          py_error.splits slick_exception.splits)
    moreover from this have "c_conns c1 = []" using books_send_install by fastforce
    ultimately have "c' = c1" by (auto simp: send_install_msg_def send_msg_def rbind_eq_Inr split: if_splits)
    with \<open>r = - 1\<close> \<open>get_unique_element_descriptor c = (c1, e)\<close> show ?thesis
      by (auto simp: get_unique_element_descriptor_def Let_def)
  qed simp
qed

lemma create_copy_fails: "create_element_copy env ed m c = Inr (c', r) \<Longrightarrow>
    r \<in> {- 1, - 2} \<and> deployment c' = deployment c \<and> c_migration c' = c_migration c"
  using create_copy_state [of env ed m c c' r] by (auto simp: deployment_def)

lemma create_copy_consistent: "create_element_copy env ed m c = Inr (c', r) \<Longrightarrow> consistent c \<Longrightarrow> consistent c'"
  using create_copy_state [of env ed m c c' r] latest_consistent(1) [of c "c_latest_ed c + 1"] by auto

lemma migration_keeps:
  assumes "perform_stateless_migration env ed m c = Inr c'" and "consistent c"
  shows "consistent c'"
proof (cases "m \<in> set (get_compatible_machines (c_m2i c) (case get_elem_name (c_net c) ed of None \<Rightarrow> [] | Some n \<Rightarrow> n))")
  case True
  with assms(1) obtain ft app c2 new_ed where
    c2: "create_element_copy env ed m (c\<lparr>c_migrating_elems := AList.update ft (ed, app) (c_migrating_elems c)\<rparr>) = Inr (c2, new_ed)"
    and "books c' = books c2"
    by (auto simp: perform_stateless_migration_def Let_def rbind_def books_def remove_elem_to_switch_mapping_def
        split: sum.splits option.splits if_splits prod.splits)
  moreover have "consistent (c\<lparr>c_migrating_elems := AList.update ft (ed, app) (c_migrating_elems c)\<rparr>)"
    using assms(2) books_same(1) [of "c\<lparr>c_migrating_elems := AList.update ft (ed, app) (c_migrating_elems c)\<rparr>" c]
    by (simp add: books_def)
  ultimately show ?thesis using create_copy_consistent books_same(1) by blast
qed (use assms in \<open>simp add: perform_stateless_migration_def Let_def\<close>)

text \<open>
  No element is ever moved: when the migration of an instance to a compatible machine returns,
  no copy has been made and the deployment is what it was, but the instance is recorded as
  migrating, to the error code -1 or -2 in the place of a descriptor.  (When the copy could be made,
  the constructor of its record is called with an argument missing, which raises.)
\<close>

lemma migration_never_completes:
  assumes "perform_stateless_migration env ed m c = Inr c'" and "m \<in> set (mti_get_all_macs (c_m2i c))"
  shows "deployment c' = deployment c \<and> is_migrating (c_migration c') ed = Some True \<and>
    map_of (c_migration c') ed \<in> {Some (- 1), Some (- 2)}"
proof -
  from assms obtain ft app c2 new_ed where
    c2: "create_element_copy env ed m (c\<lparr>c_migrating_elems := AList.update ft (ed, app) (c_migrating_elems c)\<rparr>) = Inr (c2, new_ed)"
    and rest: "(let c3 = c2\<lparr>c_migration := init_migration (c_migration c2) ed new_ed, c_net := remove_elem_to_switch_mapping (c_net c2) ed\<rparr>
        in case get_elem_name (c_net c3) ed of None \<Rightarrow> Inl KeyError
           | Some n \<Rightarrow> rbind (is_affinity_required (c_e2a c3) (c_net c3) ed n) (\<lambda>required.
               if required then rbind (update_flow_affinity (c_affinity c3) ed new_ed) (\<lambda>fa. Inr (c3\<lparr>c_affinity := fa\<rparr>)) else Inr c3)) = Inr c'"
    by (auto simp: perform_stateless_migration_def Let_def rbind_eq_Inr get_compatible_machines_def split: if_splits)
  from rest have c': "c_migration c' = init_migration (c_migration c2) ed new_ed" "deployment c' = deployment c2"
    by (auto simp: Let_def rbind_def deployment_def remove_elem_to_switch_mapping_def split: option.splits sum.splits if_splits)
  from create_copy_fails [OF c2] c' show ?thesis by (auto simp: init_migration_def is_migrating_def deployment_def)
qed

definition demo_controller_env :: controller_env where
  "demo_controller_env = \<lparr>ce_placement = demo_env, ce_selected = RoundRobinP,
     ce_download = demo_download\<lparr>put_file := \<lambda>m n. Inr False\<rparr>, ce_parse_cidr = \<lambda>s. Inl RuntimeError\<rparr>"

lemma demo_move: "map_sum id (\<lambda>(c, eds). (mti_get_all_macs (c_m2i c), map_sum id (\<lambda>c. c_migration c)
    (perform_stateless_migration demo_controller_env 2 (MacInt 5) c))) demo_apply = Inr ([MacInt 5], Inr [(2, - 2)])"
  by code_simp

lemma migration_never_completes_example:
  "\<exists>c c'. demo_apply = Inr (c, [2]) \<and> perform_stateless_migration demo_controller_env 2 (MacInt 5) c = Inr c' \<and>
     deployment c' = [2 \<mapsto> demo_logger] \<and> is_migrating (c_migration c') 2 = Some True"
proof -
  obtain c where c: "demo_apply = Inr (c, [2])" "deployment c = [2 \<mapsto> demo_logger]" using demo_deployed by blast
  with demo_move obtain c' where c': "perform_stateless_migration demo_controller_env 2 (MacInt 5) c = Inr c'"
      "MacInt 5 \<in> set (mti_get_all_macs (c_m2i c))"
    by (cases "perform_stateless_migration demo_controller_env 2 (MacInt 5) c") auto
  from migration_never_completes [OF this] c c' show ?thesis by auto
qed


lemma demo_steer:
  "map_sum id (\<lambda>(c, eds). (map_sum id (\<lambda>c. c_migration c) (steer_traffic demo_controller_env 2 3 c),
     rbind (convert_fd_to_fm (ce_parse_cidr demo_controller_env) (get_element_flow (c_f2e c) 2)) (\<lambda>m. get_matching_flow (c_f2e c) m),
     get_matching_flow (c_f2e c) web_packet, fte_get (c_f2e c) FNone web_packet, c_migrating_elems c)) demo_twice =
   Inr (Inr [(2, 3)], Inr (Some web_tuple), Inr (Some web_tuple), Inr [[2, 3]], [])"
  by code_simp


end
