(* ===== verification/Controller_Interface.thy ===== *)
theory Controller_Interface
  imports Place_N_Steer
begin

text \<open>
  The interface of the controller to the forwarding component (class \<^verbatim>\<open>POXInterface\<close> of
  \<^verbatim>\<open>slick_controller.py\<close>): steering a flow through its chain with flow affinity, paths, flow-space
  descriptors and the periodic re-placement.  The platform's \<^verbatim>\<open>EthAddr\<close> constructor is modelled on
  strings, as the interface uses it.
\<close>

section \<open>Addresses\<close>

text \<open>\<^verbatim>\<open>EthAddr(addr)\<close> for a string: six raw bytes, \<^verbatim>\<open>xx:xx:xx:xx:xx:xx\<close> (or with dashes), twelve hex
  digits, or six numbers separated by colons.  The value is the string of the six raw bytes.\<close>

definition eth_addr :: "string \<Rightarrow> string res" where
  "eth_addr addr =
     (if length addr = 6 then Inr addr
      else if length addr = 17 \<or> length addr = 12 \<or> count_list addr CHR '':'' = 5 then
        rbind (if length addr = 17 then
                 (let seps = map (\<lambda>i. addr ! i) [2, 5, 8, 11, 14]
                  in if seps \<noteq> '':::::'' \<and> seps \<noteq> ''-----'' then Inl RuntimeError
                     else Inr (concat (map (\<lambda>x. take 2 (drop (3 * x) addr)) [0..<6])))
               else if length addr = 12 then Inr addr
               else rbind (rmapM (py_int 16) (split_on CHR '':'' addr)) (\<lambda>ns.
                    Inr (concat (map (\<lambda>n. if n < 0 then ''-'' @ fmt_x (nat (- n)) else fmt_02x (nat n)) ns)))) (\<lambda>digits.
        rmapM (\<lambda>x. rbind (py_int 16 (take 2 (drop (2 * x) digits))) (\<lambda>n.
                   if 0 \<le> n \<and> n < 256 then Inr (char_of_byte (nat n)) else Inl ValueError)) [0..<6])
      else Inl RuntimeError)"

section \<open>Affinity\<close>

definition get_updated_replicas :: "int list \<Rightarrow> int list list \<Rightarrow> int list list" where
  "get_updated_replicas eds replica_sets =
     foldl (\<lambda>rs ed. map (\<lambda>replicas. if ed \<in> set replicas then remove_while_iterating (\<lambda>elem_desc. elem_desc \<noteq> ed) 0 replicas
                                     else replicas) rs) replica_sets eds"

definition update_flow_affinities :: "ofp_match \<Rightarrow> int list option \<Rightarrow> 'p controller \<Rightarrow> ('p controller \<times> int list option) res" where
  "update_flow_affinities flow element_descriptors c =
     rbind (lookup_element_instances (c_f2e c) (in_port flow) flow) (\<lambda>element_instances.
     rbind (rfoldM (\<lambda>c elem_inst.
        case element_descriptors of
          None \<Rightarrow> Inl TypeError
        | Some eds \<Rightarrow>
            if ei_elem_desc elem_inst \<in> set eds then
              rbind (is_affinity_required (c_e2a c) (c_net c) (ei_elem_desc elem_inst) (ei_name elem_inst)) (\<lambda>required.
              Inr (if required then c\<lparr>c_affinity := add_flow_affinity (c_affinity c) flow (ei_elem_desc elem_inst)\<rparr> else c))
            else Inr c) c element_instances) (\<lambda>c'.
     Inr (c', element_descriptors)))"

text \<open>\<^verbatim>\<open>is_flow_affined\<close> calls a method that \<^verbatim>\<open>FlowAffinity\<close> does not have.\<close>

definition is_flow_affined :: "ofp_match \<Rightarrow> 'p controller \<Rightarrow> int res" where
  "is_flow_affined flow c = Inl AttributeError"

section \<open>Steering\<close>

definition controller_steer_env :: "controller_env \<Rightarrow> int list \<Rightarrow> link list \<Rightarrow> ctl steer_env" where
  "controller_steer_env env loaded congested =
     \<lparr>se_net = c_net, se_e2m = c_e2m, se_loaded = \<lambda>c. loaded, se_place_n_steer = place_n_steer env loaded congested,
      se_replicas = \<lambda>c flow. fte_get (c_f2e c) (in_port flow) flow,
      se_resolve_partitions = \<lambda>c src dst eds. resolve_partitions env src dst eds c\<rparr>"

definition steering_module_get_steering ::
    "controller_env \<Rightarrow> steering_choice \<Rightarrow> int list \<Rightarrow> link list \<Rightarrow> int list list \<Rightarrow> dpid \<Rightarrow> dpid \<Rightarrow> ofp_match \<Rightarrow> ctl \<Rightarrow>
     (ctl \<times> int list option) res" where
  "steering_module_get_steering env steering loaded congested replica_sets src dst flow c =
     (case steering of
        RandomS \<Rightarrow>
          (let ps = c_placement c; draws = length (takeWhile (\<lambda>r. r \<noteq> []) replica_sets)
           in Inr (c\<lparr>c_placement := ps\<lparr>ps_draws := ps_draws ps + draws\<rparr>\<rparr>,
                   random_get_steering (pe_rnd (ce_placement env)) (ps_draws ps) replica_sets))
      | HopCountS \<Rightarrow> rbind (hop_get_steering (c_e2m c) (c_net c) replica_sets src dst) (\<lambda>rv. Inr (c, rv))
      | ShortestPathS \<Rightarrow> rbind (sp_get_steering (c_e2m c) (c_net c) replica_sets src dst) (\<lambda>rv. Inr (c, rv))
      | LoadAwareS \<Rightarrow>
          la_get_steering la_get_shortest_path (controller_steer_env env loaded congested) c replica_sets src dst flow
      | LASPSS \<Rightarrow>
          la_get_steering lasps_get_shortest_path (controller_steer_env env loaded congested) c replica_sets src dst flow)"

definition element_mac :: "'p controller \<Rightarrow> int \<Rightarrow> (int \<times> string) res" where
  "element_mac c elem_desc =
     (case etm_get (c_e2m c) elem_desc of
        None \<Rightarrow> Inl TypeError
      | Some mac_addr \<Rightarrow>
          rbind (mac_to_str [] mac_addr False) (\<lambda>s. rbind (eth_addr s) (\<lambda>eth. Inr (elem_desc, eth))))"

definition get_steering ::
    "controller_env \<Rightarrow> steering_choice \<Rightarrow> int list \<Rightarrow> link list \<Rightarrow> dpid option \<Rightarrow> dpid option \<Rightarrow> ofp_match \<Rightarrow> ctl \<Rightarrow>
     (ctl \<times> (int \<times> string) list) res" where
  "get_steering env steering loaded congested src dst flow c =
     (case (src, dst) of
        (Some src_switch, Some dst_switch) \<Rightarrow>
          rbind (fte_get (c_f2e c) (in_port flow) flow) (\<lambda>replica_sets_temp.
          let eds = affinity_get_element_descs (c_affinity c) flow;
              replica_sets = (if eds \<noteq> [] then get_updated_replicas eds replica_sets_temp else replica_sets_temp)
          in rbind (add_elem_to_switch_mapping (c_e2m c) (c_net c) replica_sets) (\<lambda>nm.
             rbind (steering_module_get_steering env steering loaded congested replica_sets src_switch dst_switch flow (c\<lparr>c_net := nm\<rparr>))
               (\<lambda>(c1, element_descs).
             rbind (if eds = [] then update_flow_affinities flow element_descs c1 else Inr (c1, element_descs))
               (\<lambda>(c2, element_descriptors).
             case element_descriptors of
               None \<Rightarrow> Inl TypeError
             | Some descs \<Rightarrow>
                 rbind (update_active_elements descs c2) (\<lambda>c3.
                 rbind (rmapM (element_mac c3) descs) (\<lambda>element_macs. Inr (c3, element_macs)))))))
      | _ \<Rightarrow> Inr (c, []))"

section \<open>Paths, directions, flow spaces\<close>

definition interface_get_path :: "loc \<Rightarrow> loc list \<Rightarrow> loc \<Rightarrow> 'p controller \<Rightarrow> 'p controller \<times> hop list option list res" where
  "interface_get_path src machine_sequence dst c =
     (case sp_get_path (c_l2 c) src machine_sequence dst of (l2, r) \<Rightarrow> (c\<lparr>c_l2 := l2\<rparr>, r))"

definition is_unidirection_required :: "int \<Rightarrow> 'p controller \<Rightarrow> bool res" where
  "is_unidirection_required ed c =
     rbind (is_bidirection_required (c_e2a c) (c_net c) ed) (\<lambda>bidirection. Inr (bidirection \<noteq> Some True))"

definition update_network_state :: "controller_env \<Rightarrow> int list \<Rightarrow> link list \<Rightarrow> params \<Rightarrow> ctl \<Rightarrow> ctl res" where
  "update_network_state env loaded congested trigger_msg c =
     (if trigger_msg \<noteq> [] then
        (case map_of trigger_msg ''max_flows'' of
           None \<Rightarrow> Inr c
         | Some v \<Rightarrow>
             if pv_truthy v then (if has_key trigger_msg ''mac'' then Inr c else Inl AssertionError) else Inr c)
      else place_n_steer env loaded congested c)"

definition get_generic_flow :: "ofp_match \<Rightarrow> 'p controller \<Rightarrow> flow_tuple option res" where
  "get_generic_flow flow c = get_matching_flow (c_f2e c) flow"

definition get_flowspace :: "int \<Rightarrow> 'p controller \<Rightarrow> flow_tuple res" where
  "get_flowspace flow_id c =
     (case fte_get_flowspace (c_f2e c) flow_id of Some flowspace \<Rightarrow> Inr flowspace | None \<Rightarrow> Inl GenericException)"

definition get_flowspace_desc :: "flow_arg \<Rightarrow> 'p controller \<Rightarrow> ('p controller \<times> int) res" where
  "get_flowspace_desc flowspace c =
     rbind (get_unique_flowspace_desc (c_f2e c) flowspace) (\<lambda>(fm, i). Inr (c\<lparr>c_f2e := fm\<rparr>, i))"

section \<open>Machine addresses\<close>

lemma length_fmt_02x: "b < 256 \<Longrightarrow> length (fmt_02x b) = 2"
proof -
  assume "b < 256"
  then have "b div 16 < 16" by simp
  then show ?thesis by (auto simp: fmt_02x_digits digits_of.simps [of 16 b] digits_of.simps [of 16 "b div 16"])
qed

lemma fmt_02x_pair: "b < 256 \<Longrightarrow> \<exists>h l. fmt_02x b = [h, l] \<and> py_int 16 [h, l] = Inr (int b)"
proof -
  assume "b < 256"
  then obtain h l where "fmt_02x b = [h, l]" using length_fmt_02x [of b] by (auto simp: numeral_2_eq_2 length_Suc_conv)
  with py_int_fmt_02x [of b] show ?thesis by (metis (full_types))
qed

lemma eth_addr_octstr:
  assumes "length bs = 6" and "\<forall>b \<in> set bs. b < 256"
  shows "eth_addr (array_to_octstr bs) = Inr (map char_of_byte bs)"
proof -
  obtain a b c d e f where bs: "bs = [a, b, c, d, e, f]" using assms(1) by (auto simp: numeral_eq_Suc length_Suc_conv)
  have small: "a < 256" "b < 256" "c < 256" "d < 256" "e < 256" "f < 256" using assms(2) by (auto simp: bs)
  obtain a1 a2 where a: "fmt_02x a = [a1, a2]" "py_int 16 [a1, a2] = Inr (int a)" using fmt_02x_pair [OF small(1)] by blast
  obtain b1 b2 where b: "fmt_02x b = [b1, b2]" "py_int 16 [b1, b2] = Inr (int b)" using fmt_02x_pair [OF small(2)] by blast
  obtain c1 c2 where c: "fmt_02x c = [c1, c2]" "py_int 16 [c1, c2] = Inr (int c)" using fmt_02x_pair [OF small(3)] by blast
  obtain d1 d2 where d: "fmt_02x d = [d1, d2]" "py_int 16 [d1, d2] = Inr (int d)" using fmt_02x_pair [OF small(4)] by blast
  obtain e1 e2 where e: "fmt_02x e = [e1, e2]" "py_int 16 [e1, e2] = Inr (int e)" using fmt_02x_pair [OF small(5)] by blast
  obtain f1 f2 where f: "fmt_02x f = [f1, f2]" "py_int 16 [f1, f2] = Inr (int f)" using fmt_02x_pair [OF small(6)] by blast
  have six: "[0..<6] = [0, 1, 2, 3, 4, 5 :: nat]" by (simp add: upt_rec)
  have str: "array_to_octstr bs = [a1, a2, CHR '':'', b1, b2, CHR '':'', c1, c2, CHR '':'', d1, d2, CHR '':'', e1, e2, CHR '':'', f1, f2]"
    by (simp add: array_to_octstr_def bs a b c d e f)
  show ?thesis
    unfolding str eth_addr_def six using small by (simp add: bs a b c d e f Let_def)
qed

lemma eth_addr_of_machine:
  assumes "0 \<le> n" and "n < 2 ^ 48"
  shows "\<exists>s eth. mac_to_str [] (MacInt n) False = Inr s \<and> eth_addr s = Inr eth \<and> mac_to_int eth = Inr n"
proof -
  let ?bs = "map (\<lambda>i. nat (n div 256 ^ i mod 256)) (rev [0..<6])"
  have small: "\<forall>b \<in> set ?bs. b < 256" by auto
  have "mac_array (MacInt n) = Inr ?bs" using assms by (intro mac_array_int) auto
  moreover obtain oui where "oui_of ?bs = Inr oui" using oui_of_ok [of ?bs] by auto
  ultimately have str: "mac_to_str [] (MacInt n) False = Inr (array_to_octstr ?bs)" by (simp add: mac_to_str_def)
  have "eth_addr (array_to_octstr ?bs) = Inr (map char_of_byte ?bs)" using small by (intro eth_addr_octstr) simp_all
  moreover have "map byte_of (map char_of_byte ?bs) = ?bs" using small by (auto intro!: map_idI)
  then have "mac_to_int (map char_of_byte ?bs) = Inr (int_of_bytes ?bs)"
    by (simp only: mac_to_int_eq length_map length_rev length_upt diff_zero)
  then have "mac_to_int (map char_of_byte ?bs) = Inr n" using assms by (simp add: bytes_horner)
  ultimately show ?thesis using str by blast
qed

section \<open>Steering keeps the tables in agreement\<close>

lemma books_mapping: "add_elem_to_switch_mapping e2m (c_net c) rs = Inr nm \<Longrightarrow> books (c\<lparr>c_net := nm\<rparr>) = books c"
proof -
  assume "add_elem_to_switch_mapping e2m (c_net c) rs = Inr nm"
  then have "name_to_instances nm = name_to_instances (c_net c) \<and> ed_to_instance nm = ed_to_instance (c_net c)"
    unfolding add_elem_to_switch_mapping_def by (rule rfoldM_invariant) (auto simp: rbind_eq_Inr)
  then show ?thesis by (simp add: books_def)
qed

lemma books_affinities: "update_flow_affinities flow eds c = Inr (c', r) \<Longrightarrow> books c' = books c"
  unfolding update_flow_affinities_def
  by (auto simp: rbind_eq_Inr elim!: rfoldM_invariant [where I = "\<lambda>d. books d = books c"] split: option.splits if_splits)
    (auto simp: books_def)

lemma update_replicas_keeps:
  assumes "update_replicas env c orig rs flow = Inr (c', rs')" and "P c"
    and "\<And>c c'. se_place_n_steer env c = Inr c' \<Longrightarrow> P c \<Longrightarrow> P c'"
  shows "P c'"
  using assms unfolding update_replicas_def
  by (auto simp: rbind_eq_Inr elim!: rfoldM_invariant split: if_splits)

lemma la_steering_keeps:
  assumes "la_get_steering search (controller_steer_env env loaded congested) c rs src dst flow = Inr (c', rv)" and "consistent c"
  shows "consistent c'"
proof -
  let ?env = "controller_steer_env env loaded congested"
  from assms(1) obtain pruned updated c1 where c1: "update_replicas ?env c rs pruned flow = Inr (c1, updated)"
    and c': "se_resolve_partitions ?env c1 src dst rv = Inr c'"
    by (auto simp: la_get_steering_def Let_def rbind_eq_Inr)
  have "consistent c1"
    using c1 assms(2) by (rule update_replicas_keeps) (auto simp: controller_steer_env_def dest: place_n_steer_keeps)
  with c' show ?thesis using resolve_partitions_keeps by (simp add: controller_steer_env_def)
qed

lemma books_draws: "books (c\<lparr>c_placement := ps\<rparr>) = books c"
  by (simp add: books_def)

lemma steering_module_keeps:
  "steering_module_get_steering env steering loaded congested rs src dst flow c = Inr (c', rv) \<Longrightarrow> consistent c \<Longrightarrow> consistent c'"
  by (cases steering)
    (auto simp: steering_module_get_steering_def Let_def rbind_eq_Inr books_same(1) [OF books_draws] dest: la_steering_keeps)

lemma get_steering_inv:
  assumes "get_steering env steering loaded congested (Some src) (Some dst) flow c = Inr (c', macs)"
  obtains rs nm c1 c2 eds where "add_elem_to_switch_mapping (c_e2m c) (c_net c) rs = Inr nm"
    "steering_module_get_steering env steering loaded congested rs src dst flow (c\<lparr>c_net := nm\<rparr>) = Inr (c1, Some eds)"
    "books c2 = books c1" "update_active_elements eds c2 = Inr c'" "rmapM (element_mac c') eds = Inr macs"
proof -
  let ?aff = "affinity_get_element_descs (c_affinity c) flow"
  from assms obtain rs nm c1 descs c2 descs' where 1: "add_elem_to_switch_mapping (c_e2m c) (c_net c) rs = Inr nm"
      "steering_module_get_steering env steering loaded congested rs src dst flow (c\<lparr>c_net := nm\<rparr>) = Inr (c1, descs)"
    and 2: "(if ?aff = [] then update_flow_affinities flow descs c1 else Inr (c1, descs)) = Inr (c2, descs')"
    and 3: "(case descs' of None \<Rightarrow> Inl TypeError | Some ds \<Rightarrow> rbind (update_active_elements ds c2) (\<lambda>c3.
        rbind (rmapM (element_mac c3) ds) (\<lambda>ms. Inr (c3, ms)))) = Inr (c', macs)"
    by (cases "?aff = []") (auto simp: get_steering_def Let_def rbind_eq_Inr)
  have "descs' = descs" "books c2 = books c1"
    using 2 books_affinities [of flow descs c1 c2 descs'] by (auto simp: update_flow_affinities_def rbind_eq_Inr split: if_splits)
  moreover from 3 obtain ds where "descs' = Some ds" "update_active_elements ds c2 = Inr c'" "rmapM (element_mac c') ds = Inr macs"
    by (auto simp: rbind_eq_Inr split: option.splits)
  ultimately show thesis using 1 by (intro that) simp_all
qed

lemma get_steering_keeps:
  assumes "get_steering env steering loaded congested src dst flow c = Inr (c', macs)" and "consistent c"
  shows "consistent c'"
proof (cases "\<exists>s d. src = Some s \<and> dst = Some d")
  case True
  with assms(1) obtain s d where "get_steering env steering loaded congested (Some s) (Some d) flow c = Inr (c', macs)" by auto
  then obtain rs nm c1 c2 eds where nm: "add_elem_to_switch_mapping (c_e2m c) (c_net c) rs = Inr nm"
    and c1: "steering_module_get_steering env steering loaded congested rs s d flow (c\<lparr>c_net := nm\<rparr>) = Inr (c1, Some eds)"
    and c2: "books c2 = books c1" "update_active_elements eds c2 = Inr c'"
    by (rule get_steering_inv)
  have "consistent (c\<lparr>c_net := nm\<rparr>)" using assms(2) books_same(1) [OF books_mapping [OF nm]] by simp
  then have "consistent c1" by (rule steering_module_keeps [OF c1])
  then show ?thesis using books_same(1) [OF c2(1)] books_same(1) [OF books_active [OF c2(2)]] by simp
next
  case False
  with assms show ?thesis by (auto simp: get_steering_def split: option.splits)
qed

text \<open>
  Steering answers addresses of deployed instances: in a consistent state, every pair
  \<^verbatim>\<open>get_steering\<close> returns names an instance of the deployment, and the hardware address beside it is
  that of the machine the instance runs on: for a machine registered with a 48-bit number, the six
  raw bytes of that number.  The tables stay in agreement.
\<close>

lemma steering_addresses:
  assumes "consistent c" and "get_steering env steering loaded congested src dst flow c = Inr (c', macs)"
    and "(ed, eth) \<in> set macs"
  shows "consistent c' \<and> (\<exists>i s. deployment c' ed = Some i \<and> mac_to_str [] (ei_location i) False = Inr s \<and> eth_addr s = Inr eth \<and>
    (\<forall>n. ei_location i = MacInt n \<and> 0 \<le> n \<and> n < 2 ^ 48 \<longrightarrow> mac_to_int eth = Inr n))"
proof -
  have con: "consistent c'" using get_steering_keeps [OF assms(2,1)] .
  from assms(2,3) obtain sw dw where sd: "src = Some sw" "dst = Some dw"
    by (cases src; cases dst) (auto simp: get_steering_def)
  obtain eds where macs: "rmapM (element_mac c') eds = Inr macs"
    using get_steering_inv [OF assms(2) [unfolded sd]] by metis
  have "\<exists>e. element_mac c' e = Inr (ed, eth)"
    using macs assms(3) unfolding rmapM_Inr_iff list_all2_conv_all_nth in_set_conv_nth by metis
  then obtain m s where m: "etm_get (c_e2m c') ed = Some m" "mac_to_str [] m False = Inr s" "eth_addr s = Inr eth"
    by (auto simp: element_mac_def rbind_eq_Inr split: option.splits)
  then obtain i where "deployment c' ed = Some i" "ei_location i = m" using consistentD(4) [OF con, of ed] by auto
  with con m eth_addr_of_machine show ?thesis by fastforce
qed

text \<open>One logger, asked for by a packet between two hosts of one switch.\<close>

definition demo_env_ok :: controller_env where
  "demo_env_ok = demo_controller_env\<lparr>ce_download := demo_download\<rparr>"

lemma demo_steers: "map_sum id (\<lambda>(c, eds). map_sum id snd
    (get_steering demo_env_ok RandomS [] [] (Some 1) (Some 1) web_packet c)) demo_apply = Inr (Inr [(2, map char_of_byte [0, 0, 0, 0, 0, 5])])"
  by code_simp

lemma steering_addresses_example:
  "\<exists>c c' eth. demo_apply = Inr (c, [2]) \<and> get_steering demo_env_ok RandomS [] [] (Some 1) (Some 1) web_packet c = Inr (c', [(2, eth)]) \<and>
     consistent c' \<and> mac_to_int eth = Inr 5"
proof -
  obtain c where c: "demo_apply = Inr (c, [2])" "deployment c = [2 \<mapsto> demo_logger]" using demo_deployed by blast
  have con: "consistent c" using running.apply_elem_refines [OF demo_traffic_consistent c(1)] by blast
  let ?eth = "map char_of_byte [0, 0, 0, 0, 0, 5]"
  from demo_steers c(1) obtain c' where c': "get_steering demo_env_ok RandomS [] [] (Some 1) (Some 1) web_packet c = Inr (c', [(2, ?eth)])"
    by (cases "get_steering demo_env_ok RandomS [] [] (Some 1) (Some 1) web_packet c") auto
  have "consistent c'" using steering_addresses [OF con c', of 2 ?eth] by simp
  moreover have "mac_to_int ?eth = Inr 5" by code_simp
  ultimately show ?thesis using c(1) c' by blast
qed

section \<open>Affinity\<close>

lemma get_updated_one:
  "distinct replicas \<Longrightarrow> ed \<in> set replicas \<Longrightarrow> get_updated_replicas [ed] [replicas] = [skip_remove (\<lambda>x. x \<noteq> ed) replicas]"
  by (simp add: get_updated_replicas_def remove_while_iterating_eq)

text \<open>
  Flow affinity does not pin a flow to its instance.  Of the replicas of an element the bound one
  is always kept, and of two replicas it is the only one left; but the loop removes from the list it
  iterates over, so that a set of three or more that begins with the bound replica keeps others,
  which the steering module may then choose.
\<close>

lemma affinity_not_exclusive:
  assumes "distinct replicas" and "ed \<in> set replicas"
  shows "\<exists>left. get_updated_replicas [ed] [replicas] = [left] \<and> ed \<in> set left \<and> set left \<subseteq> set replicas \<and>
    (length replicas \<le> 2 \<longrightarrow> left = [ed]) \<and> (\<forall>b x rest. replicas = ed # b # x # rest \<longrightarrow> x \<in> set left \<and> x \<noteq> ed)"
proof (intro exI conjI allI impI)
  let ?left = "skip_remove (\<lambda>x. x \<noteq> ed) replicas"
  show "get_updated_replicas [ed] [replicas] = [?left]" using assms by (rule get_updated_one)
  show "ed \<in> set ?left" using assms(2) by (rule skip_remove_keeps) simp
  show "set ?left \<subseteq> set replicas" by (rule set_skip_remove_subset)
  show "?left = [ed]" if "length replicas \<le> 2"
  proof -
    from that assms(2) consider "replicas = [ed]" | b where "replicas = [ed, b]" | b where "replicas = [b, ed]"
      by (cases replicas rule: remdups_adj.cases) auto
    then show ?thesis using assms(1) by cases auto
  qed
  fix b x rest assume "replicas = ed # b # x # rest"
  with assms(1) show "x \<in> set ?left" "x \<noteq> ed" by auto
qed

lemma affinity_not_exclusive_example:
  "\<exists>left. get_updated_replicas [7] [[7, 8, 9]] = [left] \<and> 9 \<in> set left"
  using affinity_not_exclusive [of "[7, 8, 9]" 7] by auto

end
