(* ===== verification/Forwarding.thy ===== *)
theory Forwarding
  imports Controller_Interface
begin

text \<open>
  The forwarding invariant on the state of the whole controller: the links are symmetric and between
  known switches, the path map is current (\<open>l2_wf\<close>), and hosts are known at known switches.  The
  operations of the controller read the forwarding state; only the traffic matrices of a weighted
  placement are written.
\<close>

section \<open>The forwarding invariant\<close>

text \<open>The part of the forwarding state the invariant reads.\<close>

definition l2_core :: "l2_state \<Rightarrow> _" where
  "l2_core s = (l2_switches s, l2_adjacency s, l2_mac_map s, l2_path_map s)"

text \<open>Hosts are learned at known switches only.\<close>

definition hosts_known :: "l2_state \<Rightarrow> bool" where
  "hosts_known s \<longleftrightarrow> (\<forall>mac sw port. map_of (l2_mac_map s) mac = Some (sw, port) \<longrightarrow> has_key (l2_switches s) sw)"

lemma l2_core_same:
  assumes "l2_core s' = l2_core s"
  shows "l2_wf s' = l2_wf s" and "hosts_known s' = hosts_known s" and "l2_switches s' = l2_switches s"
    and "l2_adjacency s' = l2_adjacency s" and "l2_mac_map s' = l2_mac_map s" and "l2_path_map s' = l2_path_map s"
  using assms by (simp_all add: l2_core_def l2_wf_def paths_current_def hosts_known_def)

lemma core_updates [simp]:
  "l2_core (send_to sw msg s) = l2_core s" "l2_core (s\<lparr>l2_middleboxes := ms\<rparr>) = l2_core s"
  "l2_core (s\<lparr>l2_flow_matrices := fms\<rparr>) = l2_core s" "l2_core (s\<lparr>l2_next_xid := x\<rparr>) = l2_core s"
  "l2_core (s\<lparr>l2_rules_installed := n\<rparr>) = l2_core s" "l2_core (add_xid p d x s) = l2_core s"
  "l2_core (s\<lparr>l2_wp_objects := ws\<rparr>) = l2_core s" "l2_core (expire_waiting_paths now s) = l2_core s"
  by (simp_all add: l2_core_def send_to_def add_xid_def expire_waiting_paths_def Let_def)


section \<open>The controller leaves the forwarding state alone\<close>

definition forwarding :: "'p controller \<Rightarrow> l2_state" where
  "forwarding c = (c_l2 c)\<lparr>l2_flow_matrices := []\<rparr>"

lemma forwarding_same:
  assumes "forwarding c' = forwarding c"
  shows "l2_core (c_l2 c') = l2_core (c_l2 c)" and "l2_sent (c_l2 c') = l2_sent (c_l2 c)"
    and "l2_wp_objects (c_l2 c') = l2_wp_objects (c_l2 c)" and "l2_waiting_paths (c_l2 c') = l2_waiting_paths (c_l2 c)"
    and "l2_installed (c_l2 c') = l2_installed (c_l2 c)"
  using assms by (auto simp: forwarding_def l2_core_def dest: arg_cong [where f = l2_switches] arg_cong [where f = l2_adjacency]
      arg_cong [where f = l2_mac_map] arg_cong [where f = l2_path_map] arg_cong [where f = l2_sent] arg_cong [where f = l2_wp_objects]
      arg_cong [where f = l2_waiting_paths] arg_cong [where f = l2_installed])

lemma forwarding_updates [simp]:
  "forwarding (c\<lparr>c_placement := x1\<rparr>) = forwarding c" "forwarding (c\<lparr>c_net := x2\<rparr>) = forwarding c"
  "forwarding (c\<lparr>c_e2a := x3\<rparr>) = forwarding c" "forwarding (c\<lparr>c_e2m := x4\<rparr>) = forwarding c"
  "forwarding (c\<lparr>c_f2e := x5\<rparr>) = forwarding c" "forwarding (c\<lparr>c_m2i := x6\<rparr>) = forwarding c"
  "forwarding (c\<lparr>c_affinity := x7\<rparr>) = forwarding c" "forwarding (c\<lparr>c_migration := x8\<rparr>) = forwarding c"
  "forwarding (c\<lparr>c_conns := x9\<rparr>) = forwarding c" "forwarding (c\<lparr>c_latest_ed := x10\<rparr>) = forwarding c"
  "forwarding (c\<lparr>c_sent := x11\<rparr>) = forwarding c" "forwarding (c\<lparr>c_migrating_elems := x12\<rparr>) = forwarding c"
  "forwarding (c\<lparr>c_migrating_flows := x13\<rparr>) = forwarding c" "forwarding (c\<lparr>c_active_elems := x14\<rparr>) = forwarding c"
  by (simp_all add: forwarding_def)

lemma fwd_placement: "controller_get_placement env selected c fd names = Inr (c', answer) \<Longrightarrow> forwarding c' = forwarding c"
  by (cases selected) (auto simp: controller_get_placement_def Let_def rbind_eq_Inr split: option.splits prod.splits, simp add: forwarding_def)

lemma fwd_send: "send_msg m msg c = Inr (c', b) \<Longrightarrow> forwarding c' = forwarding c"
  by (auto simp: send_msg_def rbind_eq_Inr split: if_splits option.splits)

lemma fwd_send_install: "send_install_msg ed flow n ps m c = Inr (c', b) \<Longrightarrow> forwarding c' = forwarding c"
  by (auto simp: send_install_msg_def raise_instance_created_def rbind_eq_Inr split: if_splits dest!: fwd_send)

lemma fwd_configure: "configure_elem a ed ps c = Inr c' \<Longrightarrow> forwarding c' = forwarding c"
  by (auto simp: configure_elem_def send_configure_msg_def rbind_eq_Inr dest: fwd_send split: if_splits option.splits)

lemma fwd_remove: "remove_elem app ed c = Inr c' \<Longrightarrow> forwarding c' = forwarding c"
  by (auto simp: remove_elem_def send_remove_msg_def Let_def rbind_eq_Inr split: option.splits if_splits dest!: fwd_send)

lemma fwd_install_element: "install_element a item c = Inr (c', ok) \<Longrightarrow> forwarding c' = forwarding c"
  by (auto simp: install_element_def Let_def rbind_eq_Inr split: prod.splits if_splits dest!: fwd_send_install)

lemma fwd_install_elements: "install_elements a items c = Inr (c', ok) \<Longrightarrow> forwarding c' = forwarding c"
  by (induction items arbitrary: c) (auto simp: rbind_eq_Inr split: if_splits dest!: fwd_install_element)

lemma fwd_install_placed: "install_placed d a names ps cps macs c = Inr (c', eds) \<Longrightarrow> forwarding c' = forwarding c"
  by (cases "download_files d names macs c")
    (auto simp: install_placed_def new_descriptors_eq rbind_eq_Inr split: py_error.splits slick_exception.splits if_splits
      dest!: fwd_install_elements)

lemma fwd_preferences: "update_preferences names cps c = Inr c' \<Longrightarrow> forwarding c' = forwarding c"
  by (auto simp: update_preferences_def split: list.splits if_splits prod.splits sum.splits)

lemma fwd_wait: "wait_for_machines c = (c', b) \<Longrightarrow> forwarding c' = forwarding c"
  by (auto simp: wait_for_machines_def Let_def split: if_splits)

text \<open>A placement module that also leaves the forwarding state alone.\<close>

locale quiet_placement = placement_service +
  assumes keeps_forwarding: "place c fd names = Inr (c', answer) \<Longrightarrow> forwarding c' = forwarding c"
begin

lemma fwd_apply:
  assumes "apply_elem place d app flow names ps cps obj c = Inr (c', eds)"
  shows "forwarding c' = forwarding c"
proof -
  from assms obtain c1 where c1: "update_preferences names cps c = Inr c1" by (auto simp: apply_elem_def rbind_eq_Inr)
  obtain c2 b where c2: "wait_for_machines c1 = (c2, b)" by fastforce
  have same: "forwarding c2 = forwarding c" using fwd_preferences [OF c1] fwd_wait [OF c2] by simp
  from assms c1 c2 same show ?thesis
    by (cases b) (auto simp: apply_elem_def Let_def rbind_def same split: sum.splits option.splits list.splits if_splits
        dest!: keeps_forwarding fwd_install_placed)
qed

end

interpretation running: quiet_placement "controller_get_placement env selected"
  by unfold_locales (rule fwd_placement)

lemma fwd_create_instance: "create_element_instance env ed c = Inr (c', r) \<Longrightarrow> forwarding c' = forwarding c"
  by (cases "get_elem_name (c_net c) ed"; cases "get_element_flow (c_f2e c) ed")
    (auto simp: create_element_instance_def rbind_def split: sum.splits list.splits dest!: running.fwd_apply)

lemma fwd_steer: "steer_traffic env old new c = Inr c' \<Longrightarrow> forwarding c' = forwarding c"
  by (auto simp: steer_traffic_def rbind_eq_Inr split: if_splits)

lemma fwd_loaded: "handle_loaded_name env c n = Inr c' \<Longrightarrow> forwarding c' = forwarding c"
  by (auto simp: handle_loaded_name_def Let_def rbind_eq_Inr split: list.splits if_splits dest: fwd_steer fwd_create_instance)

lemma fwd_place_n_steer: "place_n_steer env loaded congested c = Inr c' \<Longrightarrow> forwarding c' = forwarding c"
  by (auto simp: place_n_steer_def handle_loaded_elements_def Let_def split: if_splits
      elim!: rfoldM_invariant [where I = "\<lambda>d. forwarding d = forwarding c"] dest!: fwd_loaded)

lemma fwd_resolve: "resolve_partitions env src dst eds c = Inr c' \<Longrightarrow> forwarding c' = forwarding c"
  by (auto simp: resolve_partitions_def Let_def rbind_eq_Inr split: option.splits
      elim!: rfoldM_invariant [where I = "\<lambda>d. forwarding d = forwarding c"] dest!: fwd_create_instance)

lemma fwd_active: "update_active_elements eds c = Inr c' \<Longrightarrow> forwarding c' = forwarding c"
  unfolding update_active_elements_def by (erule rfoldM_invariant) (auto simp: rbind_eq_Inr)

lemma fwd_inactive: "remove_active_elements sw m c = Inr c' \<Longrightarrow> forwarding c' = forwarding c"
  by (auto simp: remove_active_elements_def rbind_eq_Inr split: option.splits
      intro!: foldl_invariant [where P = "\<lambda>d. forwarding d = forwarding c"])

lemma fwd_flow_removed: "handle_FlowRemoved sw m c = Inr c' \<Longrightarrow> forwarding c' = forwarding c"
  by (auto simp: handle_FlowRemoved_def finish_migrating_elem_def finish_migrating_flow_def Let_def rbind_eq_Inr
      split: option.splits dest!: fwd_inactive fwd_remove)

lemma fwd_passive: "remove_passive eds c = Inr c' \<Longrightarrow> forwarding c' = forwarding c"
  by (induction eds arbitrary: c) (auto simp: rbind_eq_Inr dest!: fwd_remove)

lemma fwd_collect: "collect_garbage c = Inr c' \<Longrightarrow> forwarding c' = forwarding c"
  unfolding collect_garbage_def
  by (erule rfoldM_invariant) (auto simp: collect_name_def Let_def split: if_splits dest!: fwd_passive)

lemma fwd_register: "process_msg trigger handle (RegisterIn ip m) sock c = Inr (c', r) \<Longrightarrow> forwarding c' = forwarding c"
  by (auto simp: process_msg_def register_machine_def Let_def rbind_eq_Inr)

lemma fwd_affinities: "update_flow_affinities flow eds c = Inr (c', r) \<Longrightarrow> forwarding c' = forwarding c"
  unfolding update_flow_affinities_def
  by (auto simp: rbind_eq_Inr elim!: rfoldM_invariant [where I = "\<lambda>d. forwarding d = forwarding c"] split: option.splits if_splits)

lemma fwd_la_steering:
  assumes "la_get_steering search (controller_steer_env env loaded congested) c rs src dst flow = Inr (c', rv)"
  shows "forwarding c' = forwarding c"
proof -
  let ?env = "controller_steer_env env loaded congested"
  from assms obtain pruned updated c1 where c1: "update_replicas ?env c rs pruned flow = Inr (c1, updated)"
    and c': "se_resolve_partitions ?env c1 src dst rv = Inr c'"
    by (auto simp: la_get_steering_def Let_def rbind_eq_Inr)
  have "forwarding c1 = forwarding c"
    using c1 by (rule update_replicas_keeps) (auto simp: controller_steer_env_def dest!: fwd_place_n_steer)
  with c' show ?thesis using fwd_resolve by (simp add: controller_steer_env_def)
qed

lemma fwd_steering_module:
  "steering_module_get_steering env steering loaded congested rs src dst flow c = Inr (c', rv) \<Longrightarrow> forwarding c' = forwarding c"
  by (cases steering) (auto simp: steering_module_get_steering_def Let_def rbind_eq_Inr dest: fwd_la_steering)

lemma fwd_get_steering:
  assumes "get_steering env steering loaded congested src dst flow c = Inr (c', macs)"
  shows "forwarding c' = forwarding c"
  using assms
  by (cases src; cases dst) (auto simp: get_steering_def Let_def rbind_eq_Inr split: option.splits if_splits
      dest!: fwd_affinities fwd_steering_module fwd_active)

end
