(* ===== verification/Packet_In.thy ===== *)
theory Packet_In
  imports Forwarding
begin

text \<open>
  Packets that no rule matches (\<^verbatim>\<open>Switch._handle_PacketIn\<close> of \<^verbatim>\<open>l2_multi_slick.py\<close>): the chain is asked of
  the controller, the source is learned, and the packet is flooded, dropped, or its path installed
  through the machines of the chain and back.

  The event carries what the platform extracted from the packet.  Serialising the ICMP message of an
  unreachable destination is the platform's packet library, an argument; the file of path lengths is
  not modelled.
\<close>

section \<open>Events\<close>

record packet_in =
  pi_switch :: dpid
  pi_port :: int
  pi_buffer_id :: "int option"
  pi_data :: string
  pi_src :: string
  pi_dst :: string
  pi_match :: ofp_match
  pi_is_lldp :: bool
  pi_has_ipv4 :: bool

definition eth_is_multicast :: "string \<Rightarrow> bool" where
  "eth_is_multicast a = (a \<noteq> [] \<and> odd (byte_of (hd a)))"

text \<open>\<^verbatim>\<open>self.connection.send\<close>.\<close>

definition send_self :: "dpid \<Rightarrow> of_msg \<Rightarrow> l2_state \<Rightarrow> l2_state res" where
  "send_self sw msg s =
     (case map_of (l2_switches s) sw of
        Some sobj \<Rightarrow> if sw_connected sobj then Inr (send_to sw msg s) else Inl AttributeError
      | None \<Rightarrow> Inl AttributeError)"

definition flood :: "packet_in \<Rightarrow> l2_state \<Rightarrow> l2_state res" where
  "flood event s = send_self (pi_switch event) (PacketOutFlood (pi_buffer_id event) (pi_port event)) s"

definition drop_packet :: "packet_in \<Rightarrow> l2_state \<Rightarrow> l2_state res" where
  "drop_packet event s =
     (case pi_buffer_id event of
        None \<Rightarrow> Inr s
      | Some b \<Rightarrow> send_self (pi_switch event) (PacketOutDrop b (pi_port event)) s)"

definition is_valid_buffer :: "l2_state \<Rightarrow> dpid \<Rightarrow> int \<Rightarrow> bool option" where
  "is_valid_buffer s mac_addr buffer_id = (if mac_addr \<in> set (l2_middleboxes s) then Some True else None)"

section \<open>Paths\<close>

definition match_flip :: "ofp_match \<Rightarrow> ofp_match" where
  "match_flip m = m\<lparr>dl_src := dl_dst m, dl_dst := dl_src m, nw_src := nw_dst m, nw_dst := nw_src m,
     tp_src := tp_dst m, tp_dst := tp_src m\<rparr>"

definition send_dest_unreachable ::
    "(dpid \<Rightarrow> ofp_match \<Rightarrow> unit res) \<Rightarrow> packet_in \<Rightarrow> ofp_match \<Rightarrow> loc \<Rightarrow> l2_state \<Rightarrow> l2_state res" where
  "send_dest_unreachable pack event match loc1 s =
     (if dl_type match = FInt 0x800 \<and> pi_has_ipv4 event then
        rbind (rbind (dpid_to_str (fst loc1) ''-'' False) eth_addr) (\<lambda>_.
        rbind (pack (fst loc1) match) (\<lambda>_. send_self (pi_switch event) (PacketOutUnreachable (snd loc1)) s))
      else Inr s)"

text \<open>The forward loop: the pathlets with the locations they start from; \<open>False\<close> when one is missing, and
  then the method returns.  The match keeps the port of the last rule.\<close>

fun install_forward ::
    "(dpid \<Rightarrow> ofp_match \<Rightarrow> unit res) \<Rightarrow> int \<Rightarrow> packet_in \<Rightarrow> hop list option list \<Rightarrow> loc list \<Rightarrow> ofp_match \<Rightarrow> l2_state \<Rightarrow>
     (l2_state \<times> ofp_match \<times> bool) res" where
  "install_forward pack now event (None # ps) (l # ls) match s =
     rbind (send_dest_unreachable pack event match l s) (\<lambda>s'. Inr (s', match, False))"
| "install_forward pack now event (Some p # ps) (l # ls) match s =
     rbind (l2_install_path now p match (Some (pi_data event)) s) (\<lambda>(s', match'). install_forward pack now event ps ls match' s')"
| "install_forward pack now event (p # ps) [] match s = Inl IndexError"
| "install_forward pack now event [] ls match s = Inr (s, match, True)"

fun install_backward ::
    "(dpid \<Rightarrow> ofp_match \<Rightarrow> unit res) \<Rightarrow> int \<Rightarrow> packet_in \<Rightarrow> hop list option list \<Rightarrow> loc list \<Rightarrow> ofp_match \<Rightarrow> l2_state \<Rightarrow> l2_state res" where
  "install_backward pack now event (None # ps) (l # ls) match s = send_dest_unreachable pack event (match_flip match) l s"
| "install_backward pack now event (Some p # ps) (l # ls) match s =
     rbind (l2_install_path now p (match_flip match) None s) (\<lambda>(s', match'). install_backward pack now event ps ls match s')"
| "install_backward pack now event (p # ps) [] match s = Inl IndexError"
| "install_backward pack now event [] ls match s = Inr s"

text \<open>\<^verbatim>\<open>get_reverse_mb_locs\<close> pops by the position in the list of descriptors, while the list of locations
  gets shorter.\<close>

fun get_reverse_mb_locs :: "(int \<Rightarrow> bool res) \<Rightarrow> nat \<Rightarrow> int list \<Rightarrow> 'a list \<Rightarrow> 'a list res" where
  "get_reverse_mb_locs unidirection index [] mb_locations = Inr mb_locations"
| "get_reverse_mb_locs unidirection index (ed # element_descs) mb_locations =
     rbind (unidirection ed) (\<lambda>u.
     if u then
       (if index < length mb_locations
        then get_reverse_mb_locs unidirection (Suc index) element_descs (take index mb_locations @ drop (Suc index) mb_locations)
        else Inl IndexError)
     else get_reverse_mb_locs unidirection (Suc index) element_descs mb_locations)"

text \<open>The second half of \<^verbatim>\<open>install_path_improved\<close>: the way back.\<close>

definition install_return ::
    "(dpid \<Rightarrow> ofp_match \<Rightarrow> unit res) \<Rightarrow> int \<Rightarrow> packet_in \<Rightarrow> loc \<Rightarrow> ofp_match \<Rightarrow> loc list \<Rightarrow> int list \<Rightarrow> 'p controller \<Rightarrow> 'p controller res" where
  "install_return pack now event dst match mb_locations element_descs c =
     (let src = (pi_switch event, Some (pi_port event)) in
      rbind (get_reverse_mb_locs (\<lambda>ed. is_unidirection_required ed c) 0 (rev element_descs) (rev mb_locations)) (\<lambda>mb_locations_reverse.
      case interface_get_path dst mb_locations_reverse src c of
        (c1, Inl e) \<Rightarrow> Inl e
      | (c1, Inr ps) \<Rightarrow>
          rbind (install_backward pack now event ps ([src] @ mb_locations @ [dst]) match (c_l2 c1)) (\<lambda>s. Inr (c1\<lparr>c_l2 := s\<rparr>))))"

definition install_path_improved ::
    "(dpid \<Rightarrow> ofp_match \<Rightarrow> unit res) \<Rightarrow> int \<Rightarrow> packet_in \<Rightarrow> loc \<Rightarrow> ofp_match \<Rightarrow> loc list \<Rightarrow> int list \<Rightarrow> 'p controller \<Rightarrow> 'p controller res" where
  "install_path_improved pack now event dst match mb_locations element_descs c =
     (let src = (pi_switch event, Some (pi_port event))
      in case interface_get_path src mb_locations dst c of
           (c1, Inl e) \<Rightarrow> Inl e
         | (c1, Inr ps) \<Rightarrow>
             rbind (install_forward pack now event ps ([src] @ mb_locations @ [dst]) match (c_l2 c1)) (\<lambda>(s, match', reached).
             if reached then install_return pack now event dst match' mb_locations element_descs (c1\<lparr>c_l2 := s\<rparr>)
             else Inr (c1\<lparr>c_l2 := s\<rparr>)))"

text \<open>\<^verbatim>\<open>install_path\<close>, the method the improved one replaced: every pathlet is installed and at once
  reversed.\<close>

fun install_both ::
    "(dpid \<Rightarrow> ofp_match \<Rightarrow> unit res) \<Rightarrow> int \<Rightarrow> packet_in \<Rightarrow> hop list option list \<Rightarrow> loc list \<Rightarrow> ofp_match \<Rightarrow> l2_state \<Rightarrow> l2_state res" where
  "install_both pack now event (None # ps) (l # ls) match s = send_dest_unreachable pack event match l s"
| "install_both pack now event (Some p # ps) (l # ls) match s =
     rbind (l2_install_path now p match (Some (pi_data event)) s) (\<lambda>(s1, match1).
     rbind (l2_install_path now (map (\<lambda>(sw, in_port, out_port). (sw, out_port, in_port)) p) (match_flip match1) None s1) (\<lambda>(s2, _).
     install_both pack now event ps ls match1 s2))"
| "install_both pack now event (p # ps) [] match s = Inl IndexError"
| "install_both pack now event [] ls match s = Inr s"

definition switch_install_path ::
    "(dpid \<Rightarrow> ofp_match \<Rightarrow> unit res) \<Rightarrow> int \<Rightarrow> packet_in \<Rightarrow> loc \<Rightarrow> ofp_match \<Rightarrow> loc list \<Rightarrow> 'p controller \<Rightarrow> 'p controller res" where
  "switch_install_path pack now event dst match mb_locations c =
     (let src = (pi_switch event, Some (pi_port event))
      in case interface_get_path src mb_locations dst c of
           (c1, Inl e) \<Rightarrow> Inl e
         | (c1, Inr ps) \<Rightarrow>
             rbind (install_both pack now event ps ([src] @ mb_locations @ [dst]) match (c_l2 c1)) (\<lambda>s. Inr (c1\<lparr>c_l2 := s\<rparr>)))"

definition detect_loop :: "hop list list \<Rightarrow> bool res" where
  "detect_loop ps =
     rbind (rfoldM (\<lambda>traversed (sw, in_port, out_port).
        if traversed = [] then Inl IndexError
        else Inr (if last traversed = sw then traversed else traversed @ [sw])) [] (concat ps)) (\<lambda>traversed.
     if length traversed < 2 then Inl IndexError else Inr (\<not> distinct (butlast (tl traversed))))"

section \<open>The handler\<close>

text \<open>The locations of the machines: a machine that has not been seen ends in a \<^verbatim>\<open>TypeError\<close>.\<close>

fun chain_locations :: "(int \<times> string) list \<Rightarrow> l2_state \<Rightarrow> (l2_state \<times> loc list) res" where
  "chain_locations [] s = Inr (s, [])"
| "chain_locations ((element_id, mac_addr) # rest) s =
     (case map_of (l2_mac_map s) mac_addr of
        None \<Rightarrow> Inl TypeError
      | Some (sw, port) \<Rightarrow>
          let s1 = (if sw \<notin> set (l2_middleboxes s) then s\<lparr>l2_middleboxes := l2_middleboxes s @ [sw]\<rparr> else s)
          in rbind (chain_locations rest s1) (\<lambda>(s2, locs). Inr (s2, (sw, Some port) # locs)))"

definition count_traffic :: "ofp_match \<Rightarrow> (dpid \<times> int) option \<Rightarrow> (dpid \<times> int) option \<Rightarrow> 'p controller \<Rightarrow> 'p controller res" where
  "count_traffic flow_match source_tuple dest_tuple c =
     (case (source_tuple, dest_tuple) of
        (Some (s, _), Some (d, _)) \<Rightarrow>
          (case update_tm (\<lambda>m. get_generic_flow m c) (\<lambda>f. rbind (get_flowspace_desc (FlowTupleArg f) c) (\<lambda>(c', i). Inr i))
                  flow_match s d (c_l2 c) of
             (l2, Inl e) \<Rightarrow> Inl e
           | (l2, Inr _) \<Rightarrow> Inr (c\<lparr>c_l2 := l2\<rparr>))
      | _ \<Rightarrow> Inr c)"

text \<open>Learning: a source seen for the first time, or on another port that leads to no switch.\<close>

definition learn_source :: "packet_in \<Rightarrow> l2_state \<Rightarrow> l2_state res" where
  "learn_source event s =
     (let loc = (pi_switch event, pi_port event);
          learned = (if eth_is_multicast (pi_src event) then s else s\<lparr>l2_mac_map := AList.update (pi_src event) loc (l2_mac_map s)\<rparr>)
      in case map_of (l2_mac_map s) (pi_src event) of
           None \<Rightarrow> Inr learned
         | Some oldloc \<Rightarrow>
             if oldloc = loc \<or> Some (pi_port event) \<in> set (map snd (adj_row (l2_adjacency s) (pi_switch event))) then Inr s
             else (case (map_of (l2_switches s) (fst oldloc), map_of (l2_switches s) (pi_switch event)) of
                     (Some old, Some new) \<Rightarrow> if sw_connected old \<and> sw_connected new then Inr learned else Inl AttributeError
                   | _ \<Rightarrow> Inl AttributeError))"

definition flowspace_match :: "ofp_match \<Rightarrow> flow_tuple option \<Rightarrow> ofp_match" where
  "flowspace_match match matched_flow_tuple =
     (case matched_flow_tuple of
        None \<Rightarrow> match
      | Some f \<Rightarrow> match\<lparr>dl_src := dl_src f, dl_dst := dl_dst f, dl_vlan := dl_vlan f, dl_vlan_pcp := dl_vlan_pcp f, nw_tos := FNone,
                        nw_proto := nw_proto f, tp_dst := tp_dst f, tp_src := tp_src f\<rparr>)"

definition forward_packet ::
    "(dpid \<Rightarrow> ofp_match \<Rightarrow> unit res) \<Rightarrow> int \<Rightarrow> packet_in \<Rightarrow> loc list \<Rightarrow> int list \<Rightarrow> 'p controller \<Rightarrow> 'p controller res" where
  "forward_packet pack now event mb_locations element_descs c =
     (case (if eth_is_multicast (pi_dst event) then None else map_of (l2_mac_map (c_l2 c)) (pi_dst event)) of
        None \<Rightarrow> rbind (flood event (c_l2 c)) (\<lambda>s. Inr (c\<lparr>c_l2 := s\<rparr>))
      | Some (dst_sw, last_port) \<Rightarrow>
          rbind (get_generic_flow (pi_match event) c) (\<lambda>matched_flow_tuple.
          install_path_improved pack now event (dst_sw, Some last_port) (flowspace_match (pi_match event) matched_flow_tuple)
            mb_locations element_descs c))"

definition handle_PacketIn ::
    "controller_env \<Rightarrow> steering_choice \<Rightarrow> int list \<Rightarrow> link list \<Rightarrow> (dpid \<Rightarrow> ofp_match \<Rightarrow> unit res) \<Rightarrow> int \<Rightarrow> packet_in \<Rightarrow> ctl \<Rightarrow> ctl res" where
  "handle_PacketIn env steering loaded congested pack now event c =
     (let source_tuple = map_of (l2_mac_map (c_l2 c)) (pi_src event);
          dest_tuple = map_of (l2_mac_map (c_l2 c)) (pi_dst event)
      in rbind (get_steering env steering loaded congested (map_option fst source_tuple) (map_option fst dest_tuple) (pi_match event) c)
           (\<lambda>(c1, element_descriptors).
         rbind (count_traffic (pi_match event) source_tuple dest_tuple c1) (\<lambda>c2.
         rbind (chain_locations element_descriptors (c_l2 c2)) (\<lambda>(s3, mb_locations).
         if pi_is_lldp event then rbind (drop_packet event s3) (\<lambda>s. Inr (c2\<lparr>c_l2 := s\<rparr>))
         else rbind (learn_source event s3) (\<lambda>s4.
              forward_packet pack now event mb_locations (map fst element_descriptors) (c2\<lparr>c_l2 := s4\<rparr>))))))"

section \<open>The messages sent\<close>

lemma core_send_self: "send_self sw msg s = Inr s' \<Longrightarrow> l2_core s' = l2_core s \<and> l2_sent s' = l2_sent s @ [(sw, msg)]"
  by (auto simp: send_self_def split: option.splits if_splits)

lemma core_barrier: "l2_core (l2_handle_BarrierIn d x s) = l2_core s"
  by (auto simp: l2_handle_BarrierIn_def wp_notify_def Let_def l2_core_def send_to_def split: option.splits)

lemma core_new_waiting_path: "new_waiting_path now path packet s = Inr (s', n) \<Longrightarrow>
    l2_core s' = l2_core s \<and> l2_sent s' = l2_sent s \<and> n = length (l2_wp_objects s)"
  by (auto simp: new_waiting_path_def Let_def split: list.splits)

text \<open>The rules among the messages: the switch, the port matched and the port of the action.\<close>

definition rules_sent :: "(dpid \<times> of_msg) list \<Rightarrow> hop list" where
  "rules_sent msgs = concat (map (\<lambda>(sw, msg). case msg of
       FlowMod m out _ \<Rightarrow> [(sw, (case in_port m of FInt p \<Rightarrow> Some p | _ \<Rightarrow> None), out)]
     | _ \<Rightarrow> []) msgs)"

lemma rules_sent_simps [simp]:
  "rules_sent [] = []" "rules_sent (xs @ ys) = rules_sent xs @ rules_sent ys"
  by (simp_all add: rules_sent_def)

lemma install_rule_sent: "install_rule sw inport outport match s = Inr (s', match') \<Longrightarrow>
    l2_core s' = l2_core s \<and> rules_sent (l2_sent s') = rules_sent (l2_sent s) @ [(sw, inport, outport)]"
  by (auto simp: install_rule_def Let_def rules_sent_def split: option.splits if_splits)

lemma install_fold_sent:
  "rfoldM (\<lambda>(s, match) (sw, inport, outport).
        rbind (install_rule sw inport outport match s) (\<lambda>(s', match').
        let xid = l2_next_xid s';
            s2 = (send_to sw (BarrierRequest xid) s')\<lparr>l2_next_xid := xid + 1\<rparr>
        in Inr (add_xid wp sw xid s2, match'))) (s, match) path = Inr (s', match') \<Longrightarrow>
   l2_core s' = l2_core s \<and> rules_sent (l2_sent s') = rules_sent (l2_sent s) @ path"
proof (induction path arbitrary: s match)
  case (Cons hop path)
  obtain sw inport outport where hop: "hop = (sw, inport, outport)" by (cases hop)
  from Cons.prems obtain s1 m1 where 1: "install_rule sw inport outport match s = Inr (s1, m1)"
    by (auto simp: hop rbind_eq_Inr)
  let ?s2 = "add_xid wp sw (l2_next_xid s1) ((send_to sw (BarrierRequest (l2_next_xid s1)) s1)\<lparr>l2_next_xid := l2_next_xid s1 + 1\<rparr>)"
  have "l2_core s' = l2_core ?s2 \<and> rules_sent (l2_sent s') = rules_sent (l2_sent ?s2) @ path"
    using Cons.prems 1 by (intro Cons.IH [of ?s2 m1]) (simp add: hop Let_def)
  moreover have "l2_sent ?s2 = l2_sent s1 @ [(sw, BarrierRequest (l2_next_xid s1))]" by (simp add: add_xid_def)
  ultimately show ?case using install_rule_sent [OF 1] by (simp add: hop) (simp add: rules_sent_def)
qed simp

lemma install_path_sent: "l2_install_path now path match packet s = Inr (s', match') \<Longrightarrow>
    l2_core s' = l2_core s \<and> rules_sent (l2_sent s') = rules_sent (l2_sent s) @ path"
proof -
  assume "l2_install_path now path match packet s = Inr (s', match')"
  then obtain s1 n where 1: "new_waiting_path now path packet s = Inr (s1, n)"
    "rfoldM (\<lambda>(s, match) (sw, inport, outport).
        rbind (install_rule sw inport outport match s) (\<lambda>(s', match').
        let xid = l2_next_xid s';
            s2 = (send_to sw (BarrierRequest xid) s')\<lparr>l2_next_xid := xid + 1\<rparr>
        in Inr (add_xid n sw xid s2, match'))) (s1, match) path = Inr (s', match')"
    by (auto simp: l2_install_path_def rbind_eq_Inr)
  show ?thesis using core_new_waiting_path [OF 1(1)] install_fold_sent [OF 1(2)] by simp
qed

lemma core_unreachable: "send_dest_unreachable pack event match l s = Inr s' \<Longrightarrow>
    l2_core s' = l2_core s \<and> rules_sent (l2_sent s') = rules_sent (l2_sent s)"
  by (auto simp: send_dest_unreachable_def rbind_eq_Inr rules_sent_def split: if_splits dest!: core_send_self)

text \<open>The rules a pass over the pathlets sends: those of the pathlets before the first missing one.\<close>

definition usable :: "hop list option list \<Rightarrow> hop list" where
  "usable ps = concat (map the (takeWhile (\<lambda>p. p \<noteq> None) ps))"

lemma usable_simps [simp]: "usable [] = []" "usable (None # ps) = []" "usable (Some p # ps) = p @ usable ps"
  by (simp_all add: usable_def)

lemma install_forward_sent: "install_forward pack now event ps ls match s = Inr (s', match', reached) \<Longrightarrow>
    l2_core s' = l2_core s \<and> rules_sent (l2_sent s') = rules_sent (l2_sent s) @ usable ps \<and> (reached \<longleftrightarrow> None \<notin> set ps)"
proof (induction pack now event ps ls match s rule: install_forward.induct)
  case (1 pack now event ps l ls match s)
  then show ?case by (auto simp: rbind_eq_Inr dest: core_unreachable)
next
  case (2 pack now event p ps l ls match s)
  then obtain s1 m1 where 1: "l2_install_path now p match (Some (pi_data event)) s = Inr (s1, m1)"
    "install_forward pack now event ps ls m1 s1 = Inr (s', match', reached)" by (auto simp: rbind_eq_Inr)
  from "2.IH" [OF 1(1) refl 1(2)] install_path_sent [OF 1(1)] show ?case by simp
qed simp_all

lemma install_backward_sent: "install_backward pack now event ps ls match s = Inr s' \<Longrightarrow>
    l2_core s' = l2_core s \<and> rules_sent (l2_sent s') = rules_sent (l2_sent s) @ usable ps"
proof (induction pack now event ps ls match s rule: install_backward.induct)
  case (1 pack now event ps l ls match s)
  then show ?case by (auto dest: core_unreachable)
next
  case (2 pack now event p ps l ls match s)
  then obtain s1 m1 where 1: "l2_install_path now p (match_flip match) None s = Inr (s1, m1)"
    "install_backward pack now event ps ls match s1 = Inr s'" by (auto simp: rbind_eq_Inr)
  from "2.IH" [OF 1(1) refl 1(2)] install_path_sent [OF 1(1)] show ?case by simp
qed simp_all

section \<open>The handler keeps the invariants\<close>

text \<open>Asking for paths fills the path map and nothing else.\<close>

lemma path_map_id: "\<exists>pm. s = s\<lparr>l2_path_map := pm\<rparr>" for s :: l2_state
  by (rule exI [of _ "l2_path_map s"]) simp

lemma get_path_only: "l2_get_path s a b p q = (s', r) \<Longrightarrow> \<exists>pm. s' = s\<lparr>l2_path_map := pm\<rparr>"
  by (auto simp: l2_get_path_def Let_def split: if_splits intro: exI [of _ "l2_path_map s"])

lemma pathlets_only: "pathlets l2_get_path s ms = (s', r) \<Longrightarrow> \<exists>pm. s' = s\<lparr>l2_path_map := pm\<rparr>"
proof (induction l2_get_path s ms arbitrary: s' r rule: pathlets.induct)
  case (1 s a p b q ms)
  obtain s1 r1 where 2: "l2_get_path s a b p q = (s1, r1)" by fastforce
  then obtain pm1 where s1: "s1 = s\<lparr>l2_path_map := pm1\<rparr>" using get_path_only by blast
  show ?case
  proof (cases r1)
    case (Inl e)
    with 1(2) 2 s1 show ?thesis by auto
  next
    case (Inr hops)
    obtain s2 r2 where 3: "pathlets l2_get_path s1 ((b, q) # ms) = (s2, r2)" by fastforce
    then obtain pm2 where "s2 = s1\<lparr>l2_path_map := pm2\<rparr>" using 1(1) [OF 2 [unfolded Inr, symmetric] refl] by blast
    with 1(2) 2 3 Inr s1 show ?thesis by (cases r2) auto
  qed
qed (simp_all add: path_map_id)

text \<open>One pathlet for every two consecutive locations, each as \<^verbatim>\<open>_get_path\<close> answers.\<close>

definition leads :: "adjacency \<Rightarrow> loc list \<Rightarrow> hop list option list \<Rightarrow> bool" where
  "leads m ls ps \<longleftrightarrow> length ls = Suc (length ps) \<and>
     (\<forall>k < length ps. best_path m (fst (ls ! k)) (fst (ls ! Suc k)) (snd (ls ! k)) (snd (ls ! Suc k)) (ps ! k))"

lemma interface_paths:
  assumes "l2_wf (c_l2 c)" and "\<forall>l \<in> set ([src] @ ms @ [dst]). has_key (l2_switches (c_l2 c)) (fst l)"
  obtains pm ps where "interface_get_path src ms dst c = (c\<lparr>c_l2 := (c_l2 c)\<lparr>l2_path_map := pm\<rparr>\<rparr>, Inr ps)"
    "l2_wf ((c_l2 c)\<lparr>l2_path_map := pm\<rparr>)" "leads (l2_adjacency (c_l2 c)) ([src] @ ms @ [dst]) ps"
proof -
  let ?ms = "[src] @ ms @ [dst]"
  have known: "fst ` set ?ms \<subseteq> set (dict_keys (l2_switches (c_l2 c)))" using assms(2) unfolding set_dict_keys by auto
  obtain s' ps where ps: "pathlets l2_get_path (c_l2 c) ?ms = (s', Inr ps)" "l2_wf s'" "length ps = length ?ms - 1"
    "\<forall>k < length ps. best_path (l2_adjacency (c_l2 c)) (fst (?ms ! k)) (fst (?ms ! Suc k)) (snd (?ms ! k)) (snd (?ms ! Suc k)) (ps ! k)"
    using l2_paths.pathlets_answer [OF assms(1) known] by blast
  obtain pm where "s' = (c_l2 c)\<lparr>l2_path_map := pm\<rparr>" using pathlets_only [OF ps(1)] by blast
  with ps show thesis by (intro that) (auto simp: interface_get_path_def sp_get_path_def leads_def)
qed

text \<open>What the invariants need of a step of the handler.\<close>

definition system_ok :: "'p controller \<Rightarrow> bool" where
  "system_ok c \<longleftrightarrow> consistent c \<and> l2_wf (c_l2 c) \<and> hosts_known (c_l2 c)"

lemma books_l2 [simp]: "books (c\<lparr>c_l2 := s\<rparr>) = books c"
  by (simp add: books_def)

lemma system_ok_l2: "system_ok c \<Longrightarrow> l2_wf s \<Longrightarrow> hosts_known s \<Longrightarrow> system_ok (c\<lparr>c_l2 := s\<rparr>)"
  by (simp add: system_ok_def books_same(1) [OF books_l2])

lemma hosts_known_path_map [simp]: "hosts_known (s\<lparr>l2_path_map := pm\<rparr>) = hosts_known s"
  by (simp add: hosts_known_def)

lemma count_traffic_keeps:
  assumes "count_traffic m st dt c = Inr c'" and "l2_wf (c_l2 c)"
  shows "\<exists>pm fms. c' = c\<lparr>c_l2 := (c_l2 c)\<lparr>l2_path_map := pm, l2_flow_matrices := fms\<rparr>\<rparr> \<and> l2_wf ((c_l2 c)\<lparr>l2_path_map := pm\<rparr>)"
proof -
  let ?pm = "ensure_paths (dict_keys (l2_switches (c_l2 c))) (l2_adjacency (c_l2 c)) (l2_path_map (c_l2 c))"
  have "l2_wf ((c_l2 c)\<lparr>l2_path_map := ?pm\<rparr>)"
    using ensure_paths_current [OF assms(2)] assms(2) by (auto simp: l2_wf_def paths_current_def)
  moreover have "update_tm g f m a b (c_l2 c) = (l2, Inr u) \<Longrightarrow> l2 = (c_l2 c)\<lparr>l2_path_map := ?pm, l2_flow_matrices := l2_flow_matrices l2\<rparr>" for g f a b l2 u
    by (auto simp: update_tm_def Let_def split: sum.splits option.splits if_splits)
  moreover from assms(1) have "c' = c \<or> (\<exists>g f a b l2 u. update_tm g f m a b (c_l2 c) = (l2, Inr u) \<and> c' = c\<lparr>c_l2 := l2\<rparr>)"
    by (cases st; cases dt) (auto simp: count_traffic_def split: prod.splits sum.splits, blast)
  moreover have "c = c\<lparr>c_l2 := (c_l2 c)\<lparr>l2_path_map := l2_path_map (c_l2 c), l2_flow_matrices := l2_flow_matrices (c_l2 c)\<rparr>\<rparr>"
      "l2_wf ((c_l2 c)\<lparr>l2_path_map := l2_path_map (c_l2 c)\<rparr>)" using assms(2) by simp_all
  ultimately show ?thesis by metis
qed

definition host_at :: "l2_state \<Rightarrow> string \<Rightarrow> loc \<Rightarrow> bool" where
  "host_at s eth l \<longleftrightarrow> (\<exists>sw port. map_of (l2_mac_map s) eth = Some (sw, port) \<and> l = (sw, Some port))"

lemma chain_locations_spec: "chain_locations descs s = Inr (s', locs) \<Longrightarrow> l2_core s' = l2_core s \<and> l2_sent s' = l2_sent s \<and>
    list_all2 (\<lambda>d. host_at s (snd d)) descs locs"
proof (induction descs s arbitrary: s' locs rule: chain_locations.induct)
  case (2 ed eth rest s)
  obtain sw port where loc: "map_of (l2_mac_map s) eth = Some (sw, port)"
    using "2.prems" by (cases "map_of (l2_mac_map s) eth") auto
  let ?s1 = "if sw \<notin> set (l2_middleboxes s) then s\<lparr>l2_middleboxes := l2_middleboxes s @ [sw]\<rparr> else s"
  from "2.prems" loc obtain locs' where rest: "chain_locations rest ?s1 = Inr (s', locs')" "locs = (sw, Some port) # locs'"
    by (auto simp: Let_def rbind_eq_Inr)
  have "l2_core ?s1 = l2_core s" "l2_sent ?s1 = l2_sent s" by simp_all
  with "2.IH" [OF loc refl refl rest(1)] l2_core_same(5) [of ?s1 s] loc rest(2) show ?case by (auto simp: host_at_def)
qed simp

lemma chain_locations_known:
  assumes "chain_locations descs s = Inr (s', locs)" and "hosts_known s" and "l \<in> set locs"
  shows "has_key (l2_switches s) (fst l)"
proof -
  obtain k where k: "k < length locs" "l = locs ! k" using assms(3) by (auto simp: in_set_conv_nth)
  have "list_all2 (\<lambda>d. host_at s (snd d)) descs locs" using chain_locations_spec [OF assms(1)] by blast
  from list_all2_nthD2 [OF this k(1)] k(2) obtain eth sw port where
    "map_of (l2_mac_map s) eth = Some (sw, port)" "l = (sw, Some port)" by (auto simp: host_at_def)
  with assms(2) show ?thesis unfolding hosts_known_def by (metis fst_conv)
qed

lemma learn_source_cases: "learn_source event s = Inr s' \<Longrightarrow>
    s' = s \<or> s' = s\<lparr>l2_mac_map := AList.update (pi_src event) (pi_switch event, pi_port event) (l2_mac_map s)\<rparr>"
  by (auto simp: learn_source_def Let_def split: option.splits if_splits)

lemma hosts_known_learn:
  "hosts_known s \<Longrightarrow> has_key (l2_switches s) sw \<Longrightarrow> hosts_known (s\<lparr>l2_mac_map := AList.update mac (sw, port) (l2_mac_map s)\<rparr>)"
proof -
  assume known: "hosts_known s" and sw: "has_key (l2_switches s) sw"
  have "has_key (l2_switches s) a" if "((map_of (l2_mac_map s))(mac \<mapsto> (sw, port))) m = Some (a, p)" for m a p
    using that known sw unfolding hosts_known_def by (cases "m = mac") (simp, metis fun_upd_other)
  then show ?thesis unfolding hosts_known_def by simp
qed

lemma learn_source_keeps:
  assumes "learn_source event s = Inr s'" and "l2_wf s" and "hosts_known s" and "has_key (l2_switches s) (pi_switch event)"
  shows "l2_wf s'" and "hosts_known s'" and "l2_switches s' = l2_switches s" and "l2_adjacency s' = l2_adjacency s"
    and "l2_sent s' = l2_sent s" and "mac \<noteq> pi_src event \<Longrightarrow> map_of (l2_mac_map s') mac = map_of (l2_mac_map s) mac"
  using learn_source_cases [OF assms(1)] assms(2,3) hosts_known_learn [OF assms(3,4)]
  by (auto simp: l2_wf_def paths_current_def)

lemma reverse_subset: "get_reverse_mb_locs u k eds ls = Inr back \<Longrightarrow> set back \<subseteq> set ls"
proof (induction u k eds ls rule: get_reverse_mb_locs.induct)
  case (2 u k ed eds ls)
  then show ?case using set_take_subset [of k ls] set_drop_subset [of "Suc k" ls]
    by (auto simp: rbind_eq_Inr split: if_splits) blast+
qed simp

text \<open>Installing a path: the rules of the way there, and when all its pathlets exist, of the way back.\<close>

lemma install_return_spec:
  assumes "install_return pack now event dst match locs eds c = Inr c'" and "l2_wf (c_l2 c)"
    and "\<forall>l \<in> set ([(pi_switch event, Some (pi_port event))] @ locs @ [dst]). has_key (l2_switches (c_l2 c)) (fst l)"
  obtains ps ret where "set ret \<subseteq> set locs"
    "leads (l2_adjacency (c_l2 c)) ([dst] @ ret @ [(pi_switch event, Some (pi_port event))]) ps"
    "rules_sent (l2_sent (c_l2 c')) = rules_sent (l2_sent (c_l2 c)) @ usable ps"
    "c' = c\<lparr>c_l2 := c_l2 c'\<rparr>" "l2_wf (c_l2 c')" "hosts_known (c_l2 c') = hosts_known (c_l2 c)"
proof -
  let ?src = "(pi_switch event, Some (pi_port event))"
  from assms(1) obtain ret where ret: "get_reverse_mb_locs (\<lambda>ed. is_unidirection_required ed c) 0 (rev eds) (rev locs) = Inr ret"
    and last: "(case interface_get_path dst ret ?src c of (c1, Inl e) \<Rightarrow> Inl e
      | (c1, Inr ps) \<Rightarrow> rbind (install_backward pack now event ps ([?src] @ locs @ [dst]) match (c_l2 c1)) (\<lambda>s. Inr (c1\<lparr>c_l2 := s\<rparr>))) = Inr c'"
    by (auto simp: install_return_def Let_def rbind_eq_Inr)
  have sub: "set ret \<subseteq> set locs" using reverse_subset [OF ret] by simp
  obtain pm ps where ps: "interface_get_path dst ret ?src c = (c\<lparr>c_l2 := (c_l2 c)\<lparr>l2_path_map := pm\<rparr>\<rparr>, Inr ps)"
    "l2_wf ((c_l2 c)\<lparr>l2_path_map := pm\<rparr>)" "leads (l2_adjacency (c_l2 c)) ([dst] @ ret @ [?src]) ps"
    using assms(2,3) sub by (rule_tac interface_paths [of c dst ret ?src]) auto
  from last ps(1) obtain s where s: "install_backward pack now event ps ([?src] @ locs @ [dst]) match ((c_l2 c)\<lparr>l2_path_map := pm\<rparr>) = Inr s"
      "c' = c\<lparr>c_l2 := s\<rparr>" by (auto simp: rbind_eq_Inr)
  note core = l2_core_same [of s "(c_l2 c)\<lparr>l2_path_map := pm\<rparr>"]
  show thesis using install_backward_sent [OF s(1)] core ps sub s(2) by (intro that [of ret ps]) auto
qed

lemma install_path_improved_spec:
  assumes "install_path_improved pack now event dst match locs eds c = Inr c'" and "l2_wf (c_l2 c)"
    and "\<forall>l \<in> set ([(pi_switch event, Some (pi_port event))] @ locs @ [dst]). has_key (l2_switches (c_l2 c)) (fst l)"
  obtains ps ps' ret where "leads (l2_adjacency (c_l2 c)) ([(pi_switch event, Some (pi_port event))] @ locs @ [dst]) ps"
    "None \<in> set ps \<and> ps' = [] \<or> None \<notin> set ps \<and>
     set ret \<subseteq> set locs \<and> leads (l2_adjacency (c_l2 c)) ([dst] @ ret @ [(pi_switch event, Some (pi_port event))]) ps'"
    "rules_sent (l2_sent (c_l2 c')) = rules_sent (l2_sent (c_l2 c)) @ usable ps @ usable ps'"
    "c' = c\<lparr>c_l2 := c_l2 c'\<rparr>" "l2_wf (c_l2 c')" "hosts_known (c_l2 c') = hosts_known (c_l2 c)"
proof -
  let ?src = "(pi_switch event, Some (pi_port event))"
  obtain pm ps where ps: "interface_get_path ?src locs dst c = (c\<lparr>c_l2 := (c_l2 c)\<lparr>l2_path_map := pm\<rparr>\<rparr>, Inr ps)"
    "l2_wf ((c_l2 c)\<lparr>l2_path_map := pm\<rparr>)" "leads (l2_adjacency (c_l2 c)) ([?src] @ locs @ [dst]) ps"
    using interface_paths [OF assms(2,3)] by blast
  let ?s0 = "(c_l2 c)\<lparr>l2_path_map := pm\<rparr>"
  from assms(1) ps(1) obtain s match' reached where fwd: "install_forward pack now event ps ([?src] @ locs @ [dst]) match ?s0 = Inr (s, match', reached)"
    and rest: "reached \<Longrightarrow> install_return pack now event dst match' locs eds (c\<lparr>c_l2 := s\<rparr>) = Inr c'" "\<not> reached \<Longrightarrow> c' = c\<lparr>c_l2 := s\<rparr>"
    by (auto simp: install_path_improved_def Let_def rbind_eq_Inr split: if_splits)
  note f = install_forward_sent [OF fwd]
  note core = l2_core_same [of s ?s0]
  show thesis
  proof (cases reached)
    case False
    with rest(2) f core ps(2,3) show thesis by (intro that [of ps "[]" "[]"]) auto
  next
    case True
    have wf: "l2_wf (c_l2 (c\<lparr>c_l2 := s\<rparr>))" "l2_adjacency s = l2_adjacency (c_l2 c)" "hosts_known s = hosts_known (c_l2 c)"
        "\<forall>l \<in> set ([?src] @ locs @ [dst]). has_key (l2_switches (c_l2 (c\<lparr>c_l2 := s\<rparr>))) (fst l)"
      using f core ps(2) assms(3) by auto
    obtain ps' ret where r: "set ret \<subseteq> set locs" "leads (l2_adjacency (c_l2 c)) ([dst] @ ret @ [?src]) ps'"
      "rules_sent (l2_sent (c_l2 c')) = rules_sent (l2_sent s) @ usable ps'" "c' = c\<lparr>c_l2 := c_l2 c'\<rparr>" "l2_wf (c_l2 c')"
      "hosts_known (c_l2 c') = hosts_known s"
    proof (rule install_return_spec [OF rest(1) [OF True] wf(1,4)])
    qed (use wf(2) in simp)
    with f True ps(3) wf(3) show thesis by (intro that [of ps ps' ret]) auto
  qed
qed

section \<open>A packet through its chain\<close>

text \<open>Where the machines of a chain are: every element is deployed, and the location is where the address of its
  machine was learned.\<close>

definition chain_at :: "'p controller \<Rightarrow> l2_state \<Rightarrow> int \<times> string \<Rightarrow> loc \<Rightarrow> bool" where
  "chain_at c s d l \<longleftrightarrow> (\<exists>i str. deployment c (fst d) = Some i \<and> mac_to_str [] (ei_location i) False = Inr str \<and>
     eth_addr str = Inr (snd d) \<and> host_at s (snd d) l)"

lemma steering_chain:
  assumes "consistent c" and "get_steering env steering loaded congested src dst flow c = Inr (c', macs)" and "d \<in> set macs"
  shows "\<exists>i str. deployment c' (fst d) = Some i \<and> mac_to_str [] (ei_location i) False = Inr str \<and> eth_addr str = Inr (snd d)"
proof -
  have con: "consistent c'" using get_steering_keeps [OF assms(2,1)] .
  from assms(2,3) obtain sw dw where sd: "src = Some sw" "dst = Some dw"
    by (cases src; cases dst) (auto simp: get_steering_def)
  obtain eds where "rmapM (element_mac c') eds = Inr macs"
    using get_steering_inv [OF assms(2) [unfolded sd]] by metis
  with assms(3) obtain e where "element_mac c' e = Inr d"
    unfolding rmapM_Inr_iff list_all2_conv_all_nth in_set_conv_nth by metis
  then obtain m str where "etm_get (c_e2m c') (fst d) = Some m" "mac_to_str [] m False = Inr str" "eth_addr str = Inr (snd d)"
    by (auto simp: element_mac_def rbind_eq_Inr split: option.splits)
  then show ?thesis using consistentD(4) [OF con, of "fst d"] by auto
qed

text \<open>What the handler has done when it forwards.\<close>

lemma packet_in_steps:
  assumes "handle_PacketIn env steering loaded congested pack now event c = Inr c'" and "system_ok c"
    and "has_key (l2_switches (c_l2 c)) (pi_switch event)" and "\<not> pi_is_lldp event"
  obtains c1 chain locs c4 where
    "get_steering env steering loaded congested (map_option fst (map_of (l2_mac_map (c_l2 c)) (pi_src event)))
       (map_option fst (map_of (l2_mac_map (c_l2 c)) (pi_dst event))) (pi_match event) c = Inr (c1, chain)"
    "list_all2 (chain_at c1 (c_l2 c)) chain locs" "\<forall>l \<in> set locs. has_key (l2_switches (c_l2 c)) (fst l)"
    "forward_packet pack now event locs (map fst chain) c4 = Inr c'" "system_ok c4" "books c4 = books c1"
    "l2_switches (c_l2 c4) = l2_switches (c_l2 c)" "l2_adjacency (c_l2 c4) = l2_adjacency (c_l2 c)"
    "l2_sent (c_l2 c4) = l2_sent (c_l2 c)"
    "\<forall>mac. mac \<noteq> pi_src event \<longrightarrow> map_of (l2_mac_map (c_l2 c4)) mac = map_of (l2_mac_map (c_l2 c)) mac"
proof -
  let ?src = "map_of (l2_mac_map (c_l2 c)) (pi_src event)" and ?dst = "map_of (l2_mac_map (c_l2 c)) (pi_dst event)"
  from assms(1,4) obtain c1 chain c2 s3 locs s4 where
    1: "get_steering env steering loaded congested (map_option fst ?src) (map_option fst ?dst) (pi_match event) c = Inr (c1, chain)"
    and 2: "count_traffic (pi_match event) ?src ?dst c1 = Inr c2" and 3: "chain_locations chain (c_l2 c2) = Inr (s3, locs)"
    and 4: "learn_source event s3 = Inr s4"
    and fin: "forward_packet pack now event locs (map fst chain) (c2\<lparr>c_l2 := s4\<rparr>) = Inr c'"
    by (auto simp: handle_PacketIn_def Let_def rbind_eq_Inr)
  have con1: "consistent c1" using assms(2) get_steering_keeps [OF 1] by (simp add: system_ok_def)
  note f1 = forwarding_same [OF fwd_get_steering [OF 1]]
  note core1 = l2_core_same [OF f1(1)]
  have wf1: "l2_wf (c_l2 c1)" "hosts_known (c_l2 c1)" using assms(2) core1(1,2) by (simp_all add: system_ok_def)
  obtain pm fms where c2: "c2 = c1\<lparr>c_l2 := (c_l2 c1)\<lparr>l2_path_map := pm, l2_flow_matrices := fms\<rparr>\<rparr>"
      "l2_wf ((c_l2 c1)\<lparr>l2_path_map := pm\<rparr>)" using count_traffic_keeps [OF 2 wf1(1)] by blast
  have wf2: "l2_wf (c_l2 c2)" "hosts_known (c_l2 c2)"
    using c2(2) wf1(2) l2_core_same(1,2) [OF core_updates(3), of fms "(c_l2 c1)\<lparr>l2_path_map := pm\<rparr>"]
    by (simp_all add: c2(1))
  note spec3 = chain_locations_spec [OF 3]
  have core3: "l2_core s3 = l2_core (c_l2 c2)" and sent3: "l2_sent s3 = l2_sent (c_l2 c2)" using spec3 by simp_all
  note core3s = l2_core_same [OF core3]
  have same: "l2_switches s3 = l2_switches (c_l2 c)" "l2_adjacency s3 = l2_adjacency (c_l2 c)"
      "l2_mac_map (c_l2 c2) = l2_mac_map (c_l2 c)" "l2_mac_map s3 = l2_mac_map (c_l2 c)" "l2_sent s3 = l2_sent (c_l2 c)"
    using core3s(3-5) core1(3-5) f1(2) sent3 by (simp_all add: c2(1))
  have sw3: "has_key (l2_switches s3) (pi_switch event)" using assms(3) same(1) by simp
  note learned = learn_source_keeps [OF 4 _ _ sw3]
  have wf3: "l2_wf s3" "hosts_known s3" using wf2 core3s(1,2) by simp_all
  show thesis
  proof (rule that [OF 1 _ _ fin])
    show "list_all2 (chain_at c1 (c_l2 c)) chain locs"
      using spec3 steering_chain [OF _ 1] assms(2)
      by (auto simp: chain_at_def system_ok_def host_at_def same(3) elim!: list.rel_mono_strong)
    show "\<forall>l \<in> set locs. has_key (l2_switches (c_l2 c)) (fst l)"
      using chain_locations_known [OF 3 wf2(2)] core1(3) by (simp add: c2(1))
    have "consistent c2" using con1 by (simp add: c2(1) books_same(1) [OF books_l2])
    then show "system_ok (c2\<lparr>c_l2 := s4\<rparr>)" using learned(1,2) [OF wf3] by (simp add: system_ok_def books_same(1) [OF books_l2])
    show "books (c2\<lparr>c_l2 := s4\<rparr>) = books c1" by (simp add: c2(1))
  qed (use learned(3-6) [OF wf3] same in simp_all)
qed

lemma flood_keeps: "flood event s = Inr s' \<Longrightarrow> l2_core s' = l2_core s"
  using core_send_self by (simp add: flood_def)

lemma drop_keeps: "drop_packet event s = Inr s' \<Longrightarrow> l2_core s' = l2_core s"
  using core_send_self by (auto simp: drop_packet_def split: option.splits)

lemma system_ok_core: "system_ok c \<Longrightarrow> l2_core s = l2_core (c_l2 c) \<Longrightarrow> system_ok (c\<lparr>c_l2 := s\<rparr>)"
  using l2_core_same(1,2) [of s "c_l2 c"] by (intro system_ok_l2) (auto simp: system_ok_def)

lemma forward_keeps:
  assumes "forward_packet pack now event locs eds c = Inr c'" and "system_ok c"
    and "has_key (l2_switches (c_l2 c)) (pi_switch event)" and "\<forall>l \<in> set locs. has_key (l2_switches (c_l2 c)) (fst l)"
  shows "system_ok c'" and "books c' = books c"
proof -
  let ?dst = "if eth_is_multicast (pi_dst event) then None else map_of (l2_mac_map (c_l2 c)) (pi_dst event)"
  have "system_ok c' \<and> books c' = books c"
  proof (cases ?dst)
    case None
    with assms(1) obtain s where "flood event (c_l2 c) = Inr s" "c' = c\<lparr>c_l2 := s\<rparr>" by (auto simp: forward_packet_def rbind_eq_Inr)
    then show ?thesis using system_ok_core [OF assms(2) flood_keeps] by simp
  next
    case (Some d)
    then have known: "has_key (l2_switches (c_l2 c)) (fst d)"
      using assms(2) unfolding system_ok_def hosts_known_def by (cases d) (metis fst_conv option.distinct(1))
    from Some assms(1) obtain m where "install_path_improved pack now event (fst d, Some (snd d)) m locs eds c = Inr c'"
      by (cases d) (auto simp: forward_packet_def rbind_eq_Inr)
    note spec = install_path_improved_spec [OF this]
    have wf: "l2_wf (c_l2 c)" "hosts_known (c_l2 c)" using assms(2) by (simp_all add: system_ok_def)
    have sw: "\<forall>l \<in> set ([(pi_switch event, Some (pi_port event))] @ locs @ [(fst d, Some (snd d))]). has_key (l2_switches (c_l2 c)) (fst l)"
      using assms(3,4) known by auto
    have eq: "c' = c\<lparr>c_l2 := c_l2 c'\<rparr>" and wf': "l2_wf (c_l2 c')" and "hosts_known (c_l2 c')"
      using wf(2) by (rule_tac spec [OF wf(1) sw], simp)+
    then have "system_ok (c\<lparr>c_l2 := c_l2 c'\<rparr>)" by (intro system_ok_l2 [OF assms(2)])
    then show ?thesis using eq books_l2 [of "c_l2 c'" c] by simp
  qed
  then show "system_ok c'" and "books c' = books c" by simp_all
qed

lemma packet_in_keeps:
  assumes "handle_PacketIn env steering loaded congested pack now event c = Inr c'" and "system_ok c"
    and "has_key (l2_switches (c_l2 c)) (pi_switch event)"
  shows "system_ok c'"
proof (cases "pi_is_lldp event")
  case False
  from packet_in_steps [OF assms this] show ?thesis using forward_keeps(1) assms(3) by metis
next
  case True
  let ?src = "map_of (l2_mac_map (c_l2 c)) (pi_src event)" and ?dst = "map_of (l2_mac_map (c_l2 c)) (pi_dst event)"
  from assms(1) True obtain c1 chain c2 s3 locs s where
    1: "get_steering env steering loaded congested (map_option fst ?src) (map_option fst ?dst) (pi_match event) c = Inr (c1, chain)"
    and 2: "count_traffic (pi_match event) ?src ?dst c1 = Inr c2" and 3: "chain_locations chain (c_l2 c2) = Inr (s3, locs)"
    and 4: "drop_packet event s3 = Inr s" "c' = c2\<lparr>c_l2 := s\<rparr>"
    by (auto simp: handle_PacketIn_def Let_def rbind_eq_Inr)
  have "system_ok c1" using get_steering_keeps [OF 1] l2_core_same(1,2) [OF forwarding_same(1) [OF fwd_get_steering [OF 1]]] assms(2)
    by (simp add: system_ok_def)
  moreover from this obtain pm fms where "c2 = c1\<lparr>c_l2 := (c_l2 c1)\<lparr>l2_path_map := pm, l2_flow_matrices := fms\<rparr>\<rparr>"
      "l2_wf ((c_l2 c1)\<lparr>l2_path_map := pm\<rparr>)" using count_traffic_keeps [OF 2] by (auto simp: system_ok_def)
  ultimately have "system_ok c2"
    using l2_core_same(1,2) [OF core_updates(3), of fms "(c_l2 c1)\<lparr>l2_path_map := pm\<rparr>"]
    by (auto simp: system_ok_def books_same(1) [OF books_l2])
  moreover have "l2_core s = l2_core (c_l2 c2)" using drop_keeps [OF 4(1)] chain_locations_spec [OF 3] by simp
  ultimately show ?thesis unfolding 4(2) by (rule system_ok_core)
qed

text \<open>
  C2. A new flow is led through its chain.  In a state that satisfies the invariants, when the handler returns for a
  packet between two hosts it knows, the invariants still hold, every element of the chain that steering chose is
  deployed, and the locations it uses are where the machines of these elements were learned, in the order of the chain.
  The rules sent first are, hop by hop, those of the shortest paths from the port the packet came in through these
  locations to the destination's port; when all of them exist, the rules of a way back from the destination to the
  source through some of the same locations follow, and no other rule is sent.
\<close>

theorem packet_through_chain:
  assumes "system_ok c" and "handle_PacketIn env steering loaded congested pack now event c = Inr c'"
    and "has_key (l2_switches (c_l2 c)) (pi_switch event)" and "\<not> pi_is_lldp event" and "\<not> eth_is_multicast (pi_dst event)"
    and "pi_dst event \<noteq> pi_src event" and "map_of (l2_mac_map (c_l2 c)) (pi_dst event) = Some (dst_sw, dst_port)"
  shows "\<exists>c1 chain locs there ret ps. system_ok c' \<and>
    get_steering env steering loaded congested (map_option fst (map_of (l2_mac_map (c_l2 c)) (pi_src event))) (Some dst_sw)
      (pi_match event) c = Inr (c1, chain) \<and> list_all2 (chain_at c' (c_l2 c)) chain locs \<and>
    leads (l2_adjacency (c_l2 c)) ([(pi_switch event, Some (pi_port event))] @ locs @ [(dst_sw, Some dst_port)]) there \<and>
    rules_sent (l2_sent (c_l2 c')) = rules_sent (l2_sent (c_l2 c)) @ usable there @ usable ps \<and>
    (None \<in> set there \<and> ps = [] \<or> None \<notin> set there \<and> set ret \<subseteq> set locs \<and>
       leads (l2_adjacency (c_l2 c)) ([(dst_sw, Some dst_port)] @ ret @ [(pi_switch event, Some (pi_port event))]) ps)"
proof -
  let ?src = "(pi_switch event, Some (pi_port event))" and ?dst = "(dst_sw, Some dst_port)"
  obtain c1 chain locs c4 where gs: "get_steering env steering loaded congested
      (map_option fst (map_of (l2_mac_map (c_l2 c)) (pi_src event))) (map_option fst (map_of (l2_mac_map (c_l2 c)) (pi_dst event)))
      (pi_match event) c = Inr (c1, chain)" and st: "list_all2 (chain_at c1 (c_l2 c)) chain locs"
    "\<forall>l \<in> set locs. has_key (l2_switches (c_l2 c)) (fst l)"
    "forward_packet pack now event locs (map fst chain) c4 = Inr c'" "system_ok c4" "books c4 = books c1"
    "l2_switches (c_l2 c4) = l2_switches (c_l2 c)" "l2_adjacency (c_l2 c4) = l2_adjacency (c_l2 c)"
    "l2_sent (c_l2 c4) = l2_sent (c_l2 c)"
    and hosts: "\<forall>mac. mac \<noteq> pi_src event \<longrightarrow> map_of (l2_mac_map (c_l2 c4)) mac = map_of (l2_mac_map (c_l2 c)) mac"
    by (rule packet_in_steps [OF assms(2,1,3,4)])
  have dst: "map_of (l2_mac_map (c_l2 c4)) (pi_dst event) = Some (dst_sw, dst_port)" using hosts assms(6,7) by simp
  have sw: "has_key (l2_switches (c_l2 c4)) (pi_switch event)" "\<forall>l \<in> set locs. has_key (l2_switches (c_l2 c4)) (fst l)"
    using assms(3) st(2,6) by simp_all
  note keep = forward_keeps [OF st(3,4) sw]
  have "deployment c' = deployment c1" using books_same(2) [OF keep(2)] books_same(2) [OF st(5)] by simp
  then have chain: "list_all2 (chain_at c' (c_l2 c)) chain locs" using st(1) unfolding chain_at_def by simp
  from st(3) dst assms(5) obtain m where inst: "install_path_improved pack now event ?dst m locs (map fst chain) c4 = Inr c'"
    by (auto simp: forward_packet_def rbind_eq_Inr)
  have "has_key (l2_switches (c_l2 c4)) dst_sw" using st(4) dst unfolding system_ok_def hosts_known_def by blast
  with sw have known: "\<forall>l \<in> set ([?src] @ locs @ [?dst]). has_key (l2_switches (c_l2 c4)) (fst l)" by auto
  have wf: "l2_wf (c_l2 c4)" using st(4) by (simp add: system_ok_def)
  show ?thesis
    by (rule install_path_improved_spec [OF inst wf known, unfolded st(7,8)]) (use keep(1) chain gs assms(7) in \<open>auto simp del: append.simps\<close>)
qed

text \<open>Two hosts and the machine of the logger at the ports of one switch.\<close>

definition demo_l2 :: l2_state where
  "demo_l2 = l2_init\<lparr>l2_switches := [(1, \<lparr>sw_connected = True, sw_ports = Some [1, 2, 3], sw_connected_at = Some 0\<rparr>)],
     l2_mac_map := [(''host-1'', (1, 1)), (''host-2'', (1, 2)), ([CHR 0x00, CHR 0x00, CHR 0x00, CHR 0x00, CHR 0x00, CHR 0x05], (1, 3))]\<rparr>"

definition demo_packet :: packet_in where
  "demo_packet = \<lparr>pi_switch = 1, pi_port = 1, pi_buffer_id = None, pi_data = ''data'', pi_src = ''host-1'', pi_dst = ''host-2'',
     pi_match = web_packet, pi_is_lldp = False, pi_has_ipv4 = True\<rparr>"

abbreviation demo_packet_in :: "ctl \<Rightarrow> ctl res" where
  "demo_packet_in c \<equiv> handle_PacketIn demo_env_ok RandomS [] [] (\<lambda>d m. Inr ()) 0 demo_packet (c\<lparr>c_l2 := demo_l2\<rparr>)"

lemma demo_forwards: "map_sum id (\<lambda>(c, eds). map_sum id (\<lambda>c. rules_sent (l2_sent (c_l2 c))) (demo_packet_in c)) demo_apply =
    Inr (Inr [(1, Some 1, Some 3), (1, Some 3, Some 2), (1, Some 2, Some 3), (1, Some 3, Some 1)])"
  by code_simp

lemma demo_l2_ok: "l2_wf demo_l2" "hosts_known demo_l2"
  by (simp_all add: l2_wf_def demo_l2_def l2_init_def adj_wf_def edge_def adj_def adj_row_def closed_on_def paths_current_def
      hosts_known_def)

theorem packet_through_chain_witness:
  "\<exists>c c' chain locs there ps. demo_apply = Inr (c, [2]) \<and> demo_packet_in c = Inr c' \<and> system_ok c' \<and>
     list_all2 (chain_at c' demo_l2) chain locs \<and> leads [] ([(1, Some 1)] @ locs @ [(1, Some 2)]) there \<and>
     usable there @ usable ps = [(1, Some 1, Some 3), (1, Some 3, Some 2), (1, Some 2, Some 3), (1, Some 3, Some 1)]"
proof -
  obtain c where c: "demo_apply = Inr (c, [2])" "deployment c = [2 \<mapsto> demo_logger]" using demo_deployed by blast
  let ?c = "c\<lparr>c_l2 := demo_l2\<rparr>"
  have "consistent c" using running.apply_elem_refines [OF demo_traffic_consistent c(1)] by blast
  then have ok: "system_ok ?c" using demo_l2_ok by (simp add: system_ok_def books_same(1) [OF books_l2])
  from demo_forwards c(1) obtain c' where c': "demo_packet_in c = Inr c'"
      "rules_sent (l2_sent (c_l2 c')) = [(1, Some 1, Some 3), (1, Some 3, Some 2), (1, Some 2, Some 3), (1, Some 3, Some 1)]"
    by (cases "demo_packet_in c") auto
  have l2: "l2_adjacency demo_l2 = []" "l2_sent demo_l2 = []" by (simp_all add: demo_l2_def l2_init_def)
  have facts: "has_key (l2_switches (c_l2 ?c)) (pi_switch demo_packet)" "\<not> pi_is_lldp demo_packet"
      "\<not> eth_is_multicast (pi_dst demo_packet)" "pi_dst demo_packet \<noteq> pi_src demo_packet"
      "map_of (l2_mac_map (c_l2 ?c)) (pi_dst demo_packet) = Some (1, 2)"
    by (simp_all add: demo_l2_def demo_packet_def eth_is_multicast_def)
  have ports: "pi_switch demo_packet = 1" "pi_port demo_packet = 1" "c_l2 ?c = demo_l2" by (simp_all add: demo_packet_def)
  obtain chain locs there ps where "system_ok c'" "list_all2 (chain_at c' demo_l2) chain locs"
      "leads [] ([(1, Some 1)] @ locs @ [(1, Some 2)]) there" "rules_sent (l2_sent (c_l2 c')) = usable there @ usable ps"
    using packet_through_chain [OF ok c'(1) facts] unfolding ports l2 rules_sent_simps append.simps(1)
    by (elim exE conjE) (rule that, assumption+)
  with c(1) c' show ?thesis
    by (intro exI [of _ c] exI [of _ c'] exI [of _ chain] exI [of _ locs] exI [of _ there] exI [of _ ps]) simp
qed

section \<open>The way back\<close>

text \<open>
  Two or more elements that need only one direction break the handler: leaving the machines of
  elements that need not see the return traffic out of the way back, the list is shortened while positions
  of the full list are used, so that a chain of \<open>n\<close> such elements raises \<^verbatim>\<open>IndexError\<close> whenever \<open>n \<ge> 2\<close>
  (for one element the machine is left out as intended), after the rules of the way there were sent.
\<close>

lemma one_way_chain_raises:
  assumes "\<forall>ed \<in> set eds. unidirection ed = Inr True" and "length locs = length eds"
  shows "get_reverse_mb_locs unidirection 0 eds locs = (if length eds \<le> 1 then Inr [] else Inl IndexError)"
proof -
  have "get_reverse_mb_locs unidirection k es ls = Inl IndexError"
    if "\<forall>ed \<in> set es. unidirection ed = Inr True" "length ls < k + length es" "es \<noteq> []" for k es ls
    using that
  proof (induction es arbitrary: k ls)
    case (Cons e es)
    then show ?case by (cases "k < length ls"; cases "es = []") auto
  qed simp
  note short = this
  show ?thesis
  proof (cases eds)
    case (Cons e es)
    then show ?thesis using assms short [of es "tl locs" 1] by (cases locs) auto
  qed (use assms in simp)
qed

lemma one_way_chain_raises_example: "get_reverse_mb_locs (\<lambda>ed. Inr True) 0 [4, 5] [(1, Some 2), (3, Some 4)] = Inl IndexError"
  using one_way_chain_raises [of "[4, 5]" "\<lambda>ed. Inr True" "[(1, Some 2), (3, Some 4)]"] by simp

end
