(* ===== verification/System.thy ===== *)
theory System
  imports Packet_In
begin

text \<open>
  The running controller as one state machine.  Every handler that the platform, the shims, the
  applications and the timers call is a step; a step is a call that returns.  The invariants of
  the components hold in every reachable state.
\<close>

section \<open>Waiting paths\<close>

text \<open>Every entry of the table names a path that still waits for it, and a path completes once.\<close>

definition wp_ok :: "l2_state \<Rightarrow> bool" where
  "wp_ok s \<longleftrightarrow> wp_table s \<and> distinct (l2_installed s) \<and>
     (\<forall>p \<in> set (l2_installed s). p < length (l2_wp_objects s) \<and> wp_xids (l2_wp_objects s ! p) = [])"

lemma wp_ok_inv: "wp_ok s \<longleftrightarrow> wp_inv (s, R, \<lambda>_. {})"
  by (auto simp: wp_ok_def wp_inv_def)

lemma wp_inv_ok: "wp_inv (s, R, A) \<Longrightarrow> wp_ok s"
  by (simp add: wp_ok_def wp_inv_def)

lemma wp_ok_cong:
  "l2_wp_objects s' = l2_wp_objects s \<Longrightarrow> l2_waiting_paths s' = l2_waiting_paths s \<Longrightarrow> l2_installed s' = l2_installed s \<Longrightarrow>
   wp_ok s' = wp_ok s"
  by (simp add: wp_ok_def wp_table_def)

lemma wp_ok_updates [simp]:
  "wp_ok (s\<lparr>l2_path_map := pm\<rparr>) = wp_ok s" "wp_ok (s\<lparr>l2_flow_matrices := fms\<rparr>) = wp_ok s"
  "wp_ok (s\<lparr>l2_middleboxes := ms\<rparr>) = wp_ok s" "wp_ok (s\<lparr>l2_mac_map := mm\<rparr>) = wp_ok s"
  "wp_ok (s\<lparr>l2_switches := sws\<rparr>) = wp_ok s" "wp_ok (send_to sw msg s) = wp_ok s"
  by (rule wp_ok_cong; simp add: send_to_def)+

lemma wp_ok_install_path: "l2_install_path now path m packet s = Inr (s', m') \<Longrightarrow> wp_ok s \<Longrightarrow> wp_ok s'"
  using wp_inv_install wp_inv_ok unfolding wp_ok_inv [of s "{}"] by blast

lemma wp_ok_barrier: "wp_ok s \<Longrightarrow> wp_ok (l2_handle_BarrierIn d x s)"
  using wp_inv_barrier [of s "{}" "\<lambda>_. {}" d x] wp_inv_ok unfolding wp_ok_inv [of s "{}"] by blast

lemma wp_ok_expire: "wp_ok s \<Longrightarrow> wp_ok (expire_waiting_paths now s)"
  by (simp add: wp_ok_def expire_table)

lemma wp_ok_send_self: "send_self sw msg s = Inr s' \<Longrightarrow> wp_ok s' = wp_ok s"
  by (auto simp: send_self_def split: option.splits if_splits)

lemma wp_ok_unreachable: "send_dest_unreachable pack event match l s = Inr s' \<Longrightarrow> wp_ok s' = wp_ok s"
  by (auto simp: send_dest_unreachable_def rbind_eq_Inr split: if_splits dest: wp_ok_send_self)

lemma wp_ok_forward: "install_forward pack now event ps ls match s = Inr (s', r) \<Longrightarrow> wp_ok s \<Longrightarrow> wp_ok s'"
  by (induction pack now event ps ls match s rule: install_forward.induct)
    (fastforce simp: rbind_eq_Inr wp_ok_unreachable dest: wp_ok_install_path)+

lemma wp_ok_backward: "install_backward pack now event ps ls match s = Inr s' \<Longrightarrow> wp_ok s \<Longrightarrow> wp_ok s'"
  by (induction pack now event ps ls match s rule: install_backward.induct)
    (fastforce simp: rbind_eq_Inr wp_ok_unreachable dest: wp_ok_install_path)+

lemma wp_ok_interface: "interface_get_path src ms dst c = (c', r) \<Longrightarrow> wp_ok (c_l2 c') = wp_ok (c_l2 c)"
  by (auto simp: interface_get_path_def sp_get_path_def dest!: pathlets_only split: prod.splits)

lemma wp_ok_return: "install_return pack now event dst match locs eds c = Inr c' \<Longrightarrow> wp_ok (c_l2 c) \<Longrightarrow> wp_ok (c_l2 c')"
  by (auto simp: install_return_def Let_def rbind_def split: prod.splits sum.splits
      dest!: wp_ok_interface dest: wp_ok_backward)

lemma wp_ok_install: "install_path_improved pack now event dst match locs eds c = Inr c' \<Longrightarrow> wp_ok (c_l2 c) \<Longrightarrow> wp_ok (c_l2 c')"
  by (auto simp: install_path_improved_def Let_def rbind_eq_Inr split: prod.splits sum.splits if_splits
      dest!: wp_ok_interface wp_ok_forward dest: wp_ok_return)

lemma wp_ok_forward_packet: "forward_packet pack now event locs eds c = Inr c' \<Longrightarrow> wp_ok (c_l2 c) \<Longrightarrow> wp_ok (c_l2 c')"
  by (auto simp: forward_packet_def flood_def rbind_eq_Inr wp_ok_send_self split: option.splits if_splits dest: wp_ok_install)

lemma wp_ok_chain: "chain_locations descs s = Inr (s', locs) \<Longrightarrow> wp_ok s' = wp_ok s"
  by (induction descs s arbitrary: s' locs rule: chain_locations.induct)
    (auto simp: Let_def rbind_eq_Inr split: option.splits if_splits)

lemma wp_ok_packet_in:
  assumes "handle_PacketIn env steering loaded congested pack now event c = Inr c'" and "system_ok c" and "wp_ok (c_l2 c)"
  shows "wp_ok (c_l2 c')"
proof -
  let ?src = "map_of (l2_mac_map (c_l2 c)) (pi_src event)" and ?dst = "map_of (l2_mac_map (c_l2 c)) (pi_dst event)"
  from assms(1) obtain c1 chain c2 s3 locs where
    1: "get_steering env steering loaded congested (map_option fst ?src) (map_option fst ?dst) (pi_match event) c = Inr (c1, chain)"
    and 2: "count_traffic (pi_match event) ?src ?dst c1 = Inr c2" and 3: "chain_locations chain (c_l2 c2) = Inr (s3, locs)"
    and 4: "(if pi_is_lldp event then rbind (drop_packet event s3) (\<lambda>s. Inr (c2\<lparr>c_l2 := s\<rparr>))
         else rbind (learn_source event s3) (\<lambda>s4. forward_packet pack now event locs (map fst chain) (c2\<lparr>c_l2 := s4\<rparr>))) = Inr c'"
    by (auto simp: handle_PacketIn_def Let_def rbind_eq_Inr)
  note f1 = forwarding_same [OF fwd_get_steering [OF 1]]
  have "wp_ok (c_l2 c1)" using assms(3) wp_ok_cong f1(3-5) by blast
  moreover have "l2_wf (c_l2 c1)" using assms(2) l2_core_same(1) [OF f1(1)] by (simp add: system_ok_def)
  ultimately have "wp_ok (c_l2 c2)" using count_traffic_keeps [OF 2] by auto
  then have "wp_ok s3" using wp_ok_chain [OF 3] by simp
  with 4 show ?thesis
    by (auto simp: drop_packet_def rbind_eq_Inr wp_ok_send_self split: if_splits option.splits
        dest!: learn_source_cases wp_ok_forward_packet)
qed

section \<open>Hosts\<close>

text \<open>The event of the host tracker, on the controller's state.\<close>

definition host_event :: "string \<Rightarrow> dpid \<Rightarrow> int \<Rightarrow> fval list \<Rightarrow> bool \<Rightarrow> 'p controller \<Rightarrow> 'p controller" where
  "host_event host sw port ips leave c =
     (case handle_HostEvent host sw port ips leave (nm_overlay (c_net c), c_m2i c, c_e2m c) of
        (ov, m2i, e2m) \<Rightarrow> c\<lparr>c_net := (c_net c)\<lparr>nm_overlay := ov\<rparr>, c_m2i := m2i, c_e2m := e2m\<rparr>)"

lemma reset_consistent:
  assumes "consistent c" and "machine_idle c m"
    and "name_to_instances nm = name_to_instances (c_net c)" and "ed_to_instance nm = ed_to_instance (c_net c)"
  shows "consistent (c\<lparr>c_net := nm, c_m2i := m2i, c_e2m := etm_add (c_e2m c) (Some m) None\<rparr>)"
proof -
  note inv = consistentD [OF assms(1)]
  let ?c = "c\<lparr>c_net := nm, c_m2i := m2i, c_e2m := etm_add (c_e2m c) (Some m) None\<rparr>"
  have dep: "deployment ?c = deployment c" "flow_instances ?c = flow_instances c"
    by (simp_all add: deployment_def flow_instances_def assms(4) fun_eq_iff)
  have "etm_get (c_e2m ?c) ed = etm_get (c_e2m c) ed" for ed
    using inv(4) [of ed] assms(2) by (auto simp: etm_get_reset [OF inv(2)] machine_idle_def)
  moreover have "nm_wf (c_net ?c)" using inv(1) nm_wf_cong [OF assms(3,4)] by simp
  moreover have "etm_wf (c_e2m ?c)" using inv(2) by (simp add: etm_wf_reset)
  ultimately show ?thesis using inv by (simp add: consistent_def dep)
qed

lemma host_event_keeps:
  assumes "consistent c" and "machine_idle c (MacStr host)"
  shows "consistent (host_event host sw port ips leave c)" and "forwarding (host_event host sw port ips leave c) = forwarding c"
proof -
  have "consistent (c\<lparr>c_net := (c_net c)\<lparr>nm_overlay := ov\<rparr>, c_m2i := c_m2i c, c_e2m := c_e2m c\<rparr>)" for ov
    using assms(1) books_same(1) [of "c\<lparr>c_net := (c_net c)\<lparr>nm_overlay := ov\<rparr>\<rparr>" c] by (simp add: books_def)
  moreover have "consistent (c\<lparr>c_net := (c_net c)\<lparr>nm_overlay := ov\<rparr>, c_m2i := m2i, c_e2m := etm_add (c_e2m c) (Some (MacStr host)) None\<rparr>)"
    for ov m2i using reset_consistent [OF assms] by simp
  ultimately show "consistent (host_event host sw port ips leave c)"
    by (cases ips) (simp_all only: host_event_def handle_HostEvent_def Let_def prod.case list.case)
qed (auto simp: host_event_def handle_HostEvent_def Let_def split: list.splits)

section \<open>Steps\<close>

text \<open>Machines and hosts are registered while they run no element; a packet comes in on a known switch.\<close>

inductive sys_step :: "controller_env \<Rightarrow> steering_choice \<Rightarrow> ctl \<Rightarrow> ctl \<Rightarrow> bool"
  for env steering where
  Register: "machine_idle c m \<Longrightarrow> process_msg trigger handle (RegisterIn ip m) sock c = Inr (c', r) \<Longrightarrow> sys_step env steering c c'"
| Apply: "apply_elem (controller_get_placement (ce_placement env) (ce_selected env)) (ce_download env) app flow names ps cps obj c
      = Inr (c', eds) \<Longrightarrow> sys_step env steering c c'"
| Configure: "configure_elem app ed ps c = Inr c' \<Longrightarrow> sys_step env steering c c'"
| Remove: "remove_elem app ed c = Inr c' \<Longrightarrow> sys_step env steering c c'"
| Timer: "update_network_state env loaded congested msg c = Inr c' \<Longrightarrow> sys_step env steering c c'"
| Collect: "collect_garbage c = Inr c' \<Longrightarrow> sys_step env steering c c'"
| Migrate: "move_element env ed m c = Inr c' \<Longrightarrow> sys_step env steering c c'"
| Steer: "steer_traffic env old_ed new_ed c = Inr c' \<Longrightarrow> sys_step env steering c c'"
| FlowRemoved: "handle_FlowRemoved sw m c = Inr c' \<Longrightarrow> sys_step env steering c c'"
| PacketIn: "has_key (l2_switches (c_l2 c)) (pi_switch event) \<Longrightarrow>
    handle_PacketIn env steering loaded congested pack now event c = Inr c' \<Longrightarrow> sys_step env steering c c'"
| Link: "l2_handle_LinkEvent links l removed (c_l2 c) = Inr s \<Longrightarrow> sys_step env steering c (c\<lparr>c_l2 := s, c_links := links\<rparr>)"
| SwitchUp: "sys_step env steering c (c\<lparr>c_l2 := l2_handle_ConnectionUp now sw ports (c_l2 c),
    c_net := (c_net c)\<lparr>nm_overlay := ov_handle_ConnectionUp sw name (nm_overlay (c_net c))\<rparr>\<rparr>)"
| SwitchDown: "ov_handle_ConnectionDown sw (nm_overlay (c_net c)) = Inr ov \<Longrightarrow>
    sys_step env steering c (c\<lparr>c_l2 := l2_handle_ConnectionDown sw (c_l2 c), c_net := (c_net c)\<lparr>nm_overlay := ov\<rparr>\<rparr>)"
| Barrier: "sys_step env steering c (c\<lparr>c_l2 := l2_handle_BarrierIn sw xid (c_l2 c)\<rparr>)"
| Host: "machine_idle c (MacStr host) \<Longrightarrow> sys_step env steering c (host_event host sw port ips leave c)"

inductive_cases sys_stepE: "sys_step env steering c c'"

definition sys_ok :: "ctl \<Rightarrow> bool" where
  "sys_ok c \<longleftrightarrow> system_ok c \<and> wp_ok (c_l2 c)"

lemma sys_ok_init: "sys_ok (controller_init placement_state_init specs)"
  using controller_init_consistent l2_wf_init
  by (simp add: sys_ok_def system_ok_def controller_init_def hosts_known_def wp_ok_def wp_table_def) (simp add: l2_init_def)

text \<open>The steps of the controller alone.\<close>

lemma sys_ok_forwarding: "sys_ok c \<Longrightarrow> consistent c' \<Longrightarrow> forwarding c' = forwarding c \<Longrightarrow> sys_ok c'"
  using forwarding_same [of c' c] l2_core_same(1,2) [of "c_l2 c'" "c_l2 c"] wp_ok_cong [of "c_l2 c'" "c_l2 c"]
  by (simp add: sys_ok_def system_ok_def)

text \<open>The steps of the forwarding component alone.\<close>

lemma sys_ok_l2:
  assumes "sys_ok c" and "books c' = books c" and "l2_wf (c_l2 c')" and "hosts_known (c_l2 c')" and "wp_ok (c_l2 c')"
  shows "sys_ok c'"
  using assms by (simp add: sys_ok_def system_ok_def books_same(1) [OF assms(2)])

lemma fwd_copy: "create_element_copy env ed m c = Inr (c', r) \<Longrightarrow> forwarding c' = forwarding c"
  using create_copy_state by fastforce

lemma fwd_move: "move_element env ed m c = Inr c' \<Longrightarrow> forwarding c' = forwarding c"
  by (auto simp: move_element_def perform_stateless_migration_def Let_def rbind_def
      split: sum.splits option.splits if_splits prod.splits dest!: fwd_copy)

lemma update_state_keeps: "update_network_state env loaded congested msg c = Inr c' \<Longrightarrow>
    (consistent c \<longrightarrow> consistent c') \<and> forwarding c' = forwarding c"
  by (auto simp: update_network_state_def split: if_splits option.splits dest: place_n_steer_keeps fwd_place_n_steer)

lemma passive_consistent: "remove_passive eds c = Inr c' \<Longrightarrow> consistent c \<Longrightarrow> consistent c'"
  by (induction eds arbitrary: c) (auto simp: rbind_eq_Inr dest: remove_elem_consistent)

lemma collect_keeps: "collect_garbage c = Inr c' \<Longrightarrow> consistent c \<Longrightarrow> consistent c'"
  unfolding collect_garbage_def
  by (erule rfoldM_invariant) (auto simp: collect_name_def Let_def split: if_splits dest: passive_consistent)

lemma hosts_known_switches: "hosts_known s \<Longrightarrow> dom (map_of (l2_switches s)) \<subseteq> dom (map_of (l2_switches s')) \<Longrightarrow>
    map_of (l2_mac_map s') \<subseteq>\<^sub>m map_of (l2_mac_map s) \<Longrightarrow> hosts_known s'"
proof -
  assume known: "hosts_known s" and sws: "dom (map_of (l2_switches s)) \<subseteq> dom (map_of (l2_switches s'))"
    and macs: "map_of (l2_mac_map s') \<subseteq>\<^sub>m map_of (l2_mac_map s)"
  show ?thesis unfolding hosts_known_def
  proof (intro allI impI)
    fix mac sw port assume "map_of (l2_mac_map s') mac = Some (sw, port)"
    with macs have "map_of (l2_mac_map s) mac = Some (sw, port)" unfolding map_le_def by (metis domI)
    with known have "sw \<in> dom (map_of (l2_switches s))" unfolding hosts_known_def dom_def by blast
    with sws show "has_key (l2_switches s') sw" by blast
  qed
qed

lemma sys_step_ok: "sys_step env steering c c' \<Longrightarrow> sys_ok c \<Longrightarrow> sys_ok c'"
proof (induction rule: sys_step.induct)
  case (Register c m trigger handle ip sock c' r)
  then show ?case using register_consistent fwd_register sys_ok_forwarding by (metis sys_ok_def system_ok_def)
next
  case (Apply app flow names ps cps obj c c' eds)
  then show ?case using running.apply_elem_refines running.fwd_apply sys_ok_forwarding by (metis sys_ok_def system_ok_def)
next
  case (Configure app ed ps c c')
  then show ?case using books_same(1) [OF books_configure] fwd_configure sys_ok_forwarding by (metis sys_ok_def system_ok_def)
next
  case (Remove app ed c c')
  then show ?case using remove_elem_consistent fwd_remove sys_ok_forwarding by (metis sys_ok_def system_ok_def)
next
  case (Timer loaded congested msg c c')
  then show ?case using update_state_keeps sys_ok_forwarding by (metis sys_ok_def system_ok_def)
next
  case (Collect c c')
  then show ?case using collect_keeps fwd_collect sys_ok_forwarding by (metis sys_ok_def system_ok_def)
next
  case (Migrate ed m c c')
  then show ?case using migration_keeps fwd_move sys_ok_forwarding unfolding move_element_def by (metis sys_ok_def system_ok_def)
next
  case (Steer old_ed new_ed c c')
  then show ?case using books_same(1) [OF books_steer] fwd_steer sys_ok_forwarding by (metis sys_ok_def system_ok_def)
next
  case (FlowRemoved sw m c c')
  then show ?case using flow_removed_keeps fwd_flow_removed sys_ok_forwarding by (metis sys_ok_def system_ok_def)
next
  case (PacketIn c event loaded congested pack now c')
  then show ?case using packet_in_keeps wp_ok_packet_in by (metis sys_ok_def)
next
  case (Link links l removed c s)
  then have wf: "l2_wf (c_l2 c)" "hosts_known (c_l2 c)" "wp_ok (c_l2 c)" by (simp_all add: sys_ok_def system_ok_def)
  note keep = link_event_keeps [OF wf(1) Link(1)]
  have "hosts_known s" using hosts_known_switches [OF wf(2) _ keep(3)] keep(2) by simp
  moreover have "wp_ok s" using wf(3) keep(4) wp_ok_cong by blast
  ultimately show ?case using keep(1) by (intro sys_ok_l2 [OF Link(2)]) (simp_all add: books_def)
next
  case (SwitchUp c sw name now ports)
  then have wf: "l2_wf (c_l2 c)" "hosts_known (c_l2 c)" "wp_ok (c_l2 c)" by (simp_all add: sys_ok_def system_ok_def)
  let ?s = "l2_handle_ConnectionUp now sw ports (c_l2 c)"
  have "hosts_known ?s"
    by (rule hosts_known_switches [OF wf(2)]) (auto simp: l2_handle_ConnectionUp_def split: option.splits)
  moreover have "wp_ok ?s" using wf(3) by (auto simp: l2_handle_ConnectionUp_def split: option.splits)
  ultimately show ?case using switch_events_keep(1) [OF wf(1)] by (intro sys_ok_l2 [OF SwitchUp]) (simp_all add: books_def)
next
  case (SwitchDown sw c ov)
  then have wf: "l2_wf (c_l2 c)" "hosts_known (c_l2 c)" "wp_ok (c_l2 c)" by (simp_all add: sys_ok_def system_ok_def)
  let ?s = "l2_handle_ConnectionDown sw (c_l2 c)"
  have "hosts_known ?s"
    by (rule hosts_known_switches [OF wf(2)]) (auto simp: l2_handle_ConnectionDown_def split: option.splits)
  moreover have "wp_ok ?s" using wf(3) by (auto simp: l2_handle_ConnectionDown_def split: option.splits)
  ultimately show ?case using switch_events_keep(2) [OF wf(1)] by (intro sys_ok_l2 [OF SwitchDown(2)]) (simp_all add: books_def)
next
  case (Barrier c sw xid)
  note core = l2_core_same(1,2) [OF core_barrier [of sw xid "c_l2 c"]]
  from Barrier show ?case using core wp_ok_barrier
    by (intro sys_ok_l2 [OF Barrier]) (simp_all add: books_def sys_ok_def system_ok_def)
next
  case (Host c host sw port ips leave)
  then show ?case using host_event_keeps sys_ok_forwarding by (metis sys_ok_def system_ok_def)
qed

definition sys_reachable :: "controller_env \<Rightarrow> steering_choice \<Rightarrow> specs \<Rightarrow> ctl \<Rightarrow> bool" where
  "sys_reachable env steering specs c \<longleftrightarrow> (sys_step env steering)\<^sup>*\<^sup>* (controller_init placement_state_init specs) c"

lemma sys_steps_ok: "(sys_step env steering)\<^sup>*\<^sup>* c c' \<Longrightarrow> sys_ok c \<Longrightarrow> sys_ok c'"
  by (induction rule: rtranclp_induct) (auto intro: sys_step_ok)



end
