(* ===== verification/Wire.thy ===== *)
theory Wire
  imports Shim System
begin

text \<open>
  The connection between the controller and a shim: the text the controller's message processor sends
  (\<^verbatim>\<open>send_msg\<close> of \<^verbatim>\<open>msmessageproc.py\<close>: \<^verbatim>\<open>json.dumps(msg)+'\n'\<close>), the text a shim sends (\<^verbatim>\<open>send_data_basic\<close> of
  \<^verbatim>\<open>clientcomm.py\<close>) and the reader of the controller's side (\<^verbatim>\<open>process_messages\<close> of \<^verbatim>\<open>tcp_transport.py\<close>).

  Shown: after a successful \<^verbatim>\<open>apply_elem\<close> the packets of the flow space pass through the elements deployed on a machine; what the controller
  sends to a machine is handled by its shim message for message and in order, if it arrives in
  whole lines; a line that arrives in two parts is not put together; the removal of an element does nothing on the shim; a
  shim's first message registers its machine with the controller.
\<close>

section \<open>From the controller to a shim\<close>

definition msg_json :: "shim_msg \<Rightarrow> pval" where
  "msg_json msg =
     (case msg of
        InstallMsg fd flow name ps \<Rightarrow> install_json fd flow name ps
      | ConfigureMsg fd ps \<Rightarrow> PvDict [(''type'', PvStr ''configure''), (''fd'', PvInt fd), (''params'', PvDict ps)]
      | RemoveMsg fd ps \<Rightarrow> PvDict [(''type'', PvStr ''remove''), (''fd'', PvInt fd), (''params'', PvDict ps)])"

definition msg_text :: "(rat \<Rightarrow> string) \<Rightarrow> shim_msg \<Rightarrow> string" where
  "msg_text fr msg = dumps fr (msg_json msg) @ [CHR 0x0A]"

text \<open>\<^verbatim>\<open>send_mb_msg\<close>: the text that goes to one connection.\<close>

definition sent_to :: "string \<Rightarrow> (string \<times> shim_msg) list \<Rightarrow> shim_msg list" where
  "sent_to socket_name sent = map snd (filter (\<lambda>(s, m). s = socket_name) sent)"

definition socket_text :: "(rat \<Rightarrow> string) \<Rightarrow> string \<Rightarrow> (string \<times> shim_msg) list \<Rightarrow> string" where
  "socket_text fr socket_name sent = concat (map (msg_text fr) (sent_to socket_name sent))"

lemma socket_text_append: "socket_text fr s (a @ b) = socket_text fr s a @ socket_text fr s b"
  by (simp add: socket_text_def sent_to_def)

section \<open>From a shim to the controller\<close>

text \<open>The fields \<^verbatim>\<open>process_msg\<close> reads of a decoded message.\<close>

definition mac_of_pval :: "pval \<Rightarrow> mac res" where
  "mac_of_pval v = (case v of PvInt n \<Rightarrow> Inr (MacInt n) | PvStr s \<Rightarrow> Inr (MacStr s) | _ \<Rightarrow> Inl TypeError)"

definition read_shim_in :: "pval \<Rightarrow> shim_in res" where
  "read_shim_in msg =
     (case msg of
        PvDict d \<Rightarrow>
          (case map_of d ''type'' of
             None \<Rightarrow> Inr OtherIn
           | Some t \<Rightarrow>
               if t = PvStr ''connect'' then Inr ConnectIn
               else if t = PvStr ''disconnect'' then Inr DisconnectIn
               else if t = PvStr ''register'' then
                 rbind (rbind (dict_getitem d ''machine_ip'') pv_str) (\<lambda>ip.
                 rbind (rbind (dict_getitem d ''machine_mac'') mac_of_pval) (\<lambda>m. Inr (RegisterIn ip m)))
               else if t = PvStr ''BadDomainEvent'' then Inr BadDomainIn
               else if t = PvStr ''trigger'' then
                 rbind (dict_getitem d ''ed'') (\<lambda>ed. Inr (TriggerIn (case ed of PvInt n \<Rightarrow> Some n | _ \<Rightarrow> None) d))
               else Inr OtherIn)
      | _ \<Rightarrow> Inl AttributeError)"

text \<open>\<^verbatim>\<open>process_messages\<close>: every line on its own; a \<^verbatim>\<open>ValueError\<close> on an empty line is passed over, on another it becomes an
  exception of the reader.\<close>

definition process_line ::
    "(params \<Rightarrow> 'p controller \<Rightarrow> 'p controller res) \<Rightarrow> (int \<Rightarrow> int \<Rightarrow> params \<Rightarrow> 'p controller \<Rightarrow> 'p controller res) \<Rightarrow> string \<Rightarrow>
     'p controller \<Rightarrow> string \<Rightarrow> 'p controller res" where
  "process_line trigger handle socket_name c line =
     (case rbind (rbind (loads line) read_shim_in) (\<lambda>msg. process_msg trigger handle msg socket_name c) of
        Inr (c', _) \<Rightarrow> Inr c'
      | Inl e \<Rightarrow> if e = ValueError then (if length line > 0 then Inl GenericException else Inr c) else Inl e)"

definition process_messages ::
    "(params \<Rightarrow> 'p controller \<Rightarrow> 'p controller res) \<Rightarrow> (int \<Rightarrow> int \<Rightarrow> params \<Rightarrow> 'p controller \<Rightarrow> 'p controller res) \<Rightarrow> string \<Rightarrow>
     string \<Rightarrow> 'p controller \<Rightarrow> 'p controller res" where
  "process_messages trigger handle socket_name d c =
     (if length d > 0 then rfoldM (process_line trigger handle socket_name) c (split_on CHR 0x0A d) else Inr c)"

text \<open>The text a shim has sent.\<close>

definition shim_text :: "(rat \<Rightarrow> string) \<Rightarrow> shim \<Rightarrow> string" where
  "shim_text fr sh = concat (map (\<lambda>v. dumps fr v @ [CHR 0x0A]) (w_sent (sh_world sh)))"

lemma loads_empty: "loads [] = Inl ValueError"
  by (simp add: loads_def skip_ws_def)

lemma process_line_empty: "process_line trigger handle sock c [] = Inr c"
  by (simp add: process_line_def loads_empty)

lemma process_line_dumps:
  assumes "json_ok fr v" and "read_shim_in v = Inr msg" and "process_msg trigger handle msg sock c = Inr (c', r)"
  shows "process_line trigger handle sock c (dumps fr v) = Inr c'"
  using assms by (simp add: process_line_def loads_dumps)

lemma process_one:
  assumes "json_ok fr v" and "read_shim_in v = Inr msg" and "process_msg trigger handle msg sock c = Inr (c', r)"
  shows "process_messages trigger handle sock (dumps fr v @ [CHR 0x0A]) c = Inr c'"
proof -
  have "split_on CHR 0x0A (dumps fr v @ [CHR 0x0A]) = [dumps fr v, []]"
    using split_on_append [OF dumps_line [OF assms(1)], of "[]"] by simp
  then show ?thesis
    by (simp add: process_messages_def process_line_dumps [OF assms] process_line_empty)
qed

lemma process_register:
  assumes "inet_aton ip = Inr w"
  shows "\<exists>c'. process_msg trigger handle (RegisterIn ip m) sock c = Inr (c', True) \<and> m \<in> set (get_all_registered_machines c') \<and>
    map_of (c_conns c') m = Some sock \<and> etm_get_elem_descs (c_e2m c') m = Inr []"
proof -
  obtain c' where c': "process_msg trigger handle (RegisterIn ip m) sock c = Inr (c', True)"
    using assms by (simp add: process_msg_def Let_def)
  then show ?thesis
    using assms by (auto simp: process_msg_def register_machine_def Let_def get_all_registered_machines_def mti_get_all_macs_def
      mti_add_def etm_add_def etm_get_elem_descs_def dict_getitem_def dom_update update_conv'
      simp flip: dom_map_of_conv_image_fst)
qed

lemma rbind_Inr_id: "rbind r Inr = r"
  by (cases r) simp_all

lemma decode_messages:
  assumes "\<forall>m \<in> set ms. json_ok fr (msg_json m)"
  shows "decode_msg_and_call env (concat (map (msg_text fr) ms)) sh = rfoldM (handle_msg env) sh (map msg_json ms)"
proof -
  have "concat (map (msg_text fr) ms) = concat (map (\<lambda>v. dumps fr v @ [CHR 0x0A]) (map msg_json ms)) @ []"
    by (simp add: msg_text_def [abs_def] comp_def)
  then show ?thesis
    using decode_dumps [of "map msg_json ms" fr "[]" env sh] assms by (simp add: rbind_Inr_id)
qed

section \<open>The messages of an installation\<close>

text \<open>The elements of an answer that are on the machines of one connection.\<close>

definition elements_on :: "'p controller \<Rightarrow> string \<Rightarrow> (int \<times> string \<times> params) list \<Rightarrow> (int \<times> string \<times> params) list" where
  "elements_on c sock els =
     filter (\<lambda>(ed, name, ps). \<exists>i \<in> set_option (deployment c ed). map_of (c_conns c) (ei_location i) = Some sock) els"

lemma install_element_message:
  assumes "install_element a (name, ed, ps, cps, m) c = Inr (c', True)"
  shows "c_conns c' = c_conns c \<and> (\<exists>sock. map_of (c_conns c) m = Some sock \<and> c_sent c' = c_sent c @ [(sock, InstallMsg ed (aa_flow a) name ps)])"
  using assms
  by (auto simp: install_element_def send_install_msg_def send_msg_def json_dumps_def raise_instance_created_def dict_getitem_def rbind_def Let_def
      split: sum.split_asm if_split_asm option.split_asm)

lemma install_elements_messages:
  assumes "install_elements a items c = Inr (c', True)"
  shows "c_conns c' = c_conns c \<and> (\<forall>(name, ed, ps, cps, m) \<in> set items. has_key (c_conns c) m) \<and>
    c_sent c' = c_sent c @ map (\<lambda>(name, ed, ps, cps, m). (the (map_of (c_conns c) m), InstallMsg ed (aa_flow a) name ps)) items"
  using assms
proof (induction items arbitrary: c)
  case (Cons item items)
  obtain name ed ps cps m where item: "item = (name, ed, ps, cps, m)" by (metis surj_pair)
  from Cons.prems obtain c1 where c1: "install_element a item c = Inr (c1, True)" and rest: "install_elements a items c1 = Inr (c', True)"
    by (auto simp: rbind_eq_Inr split: if_splits)
  from install_element_message [OF c1 [unfolded item]] Cons.IH [OF rest] show ?case by (auto simp: item)
qed simp

lemma sent_preferences: "update_preferences names cps c = Inr c' \<Longrightarrow> c_sent c' = c_sent c"
  by (auto simp: update_preferences_def split: list.splits if_splits prod.splits sum.splits)

lemma sent_wait: "wait_for_machines c = (c', b) \<Longrightarrow> c_sent c' = c_sent c"
  by (auto simp: wait_for_machines_def Let_def split: if_splits)

lemma sent_placement: "controller_get_placement env selected c fd names = Inr (c', answer) \<Longrightarrow> c_sent c' = c_sent c"
  by (cases selected) (auto simp: controller_get_placement_def Let_def rbind_eq_Inr split: option.splits prod.splits)

lemma sent_descriptors: "new_descriptors n c = (c', eds) \<Longrightarrow> c_sent c' = c_sent c \<and> c_conns c' = c_conns c"
  by (induction n arbitrary: c c' eds) (auto simp: get_unique_element_descriptor_def Let_def split: prod.splits)

lemma check_elems_installed_iff: "check_elems_installed eds \<longleftrightarrow> list_all (\<lambda>ed. 0 \<le> ed) eds"
proof -
  have "foldl (\<lambda>b ed. if ed < (0 :: int) then False else b) b eds \<longleftrightarrow> b \<and> list_all (\<lambda>ed. 0 \<le> ed) eds" for b
    by (induction eds arbitrary: b) auto
  then show ?thesis by (simp add: check_elems_installed_def)
qed

lemma install_placed_items:
  assumes "install_placed d a names ps cps macs c = Inr (c', eds)" and "check_elems_installed eds"
  shows "install_elements a (zip names (zip eds (zip ps (zip cps macs)))) (c\<lparr>c_latest_ed := c_latest_ed c + int (length names)\<rparr>) = Inr (c', True) \<and>
    eds = fresh_descriptors c (length names) \<and> length ps = length names \<and> length cps = length names \<and> length macs = length names"
proof -
  have new: "new_descriptors (length names) c = (c\<lparr>c_latest_ed := c_latest_ed c + int (length names)\<rparr>, fresh_descriptors c (length names))"
    by (simp add: new_descriptors_eq fresh_descriptors_def)
  have "download_files d names macs c = Inr ()" "length macs = length names"
    using assms by (auto simp: install_placed_def download_files_def rbind_def check_elems_installed_iff
        split: sum.split_asm py_error.split_asm slick_exception.split_asm if_split_asm)
  with assms new show ?thesis
    by (auto simp: install_placed_def rbind_def check_elems_installed_iff split: sum.split_asm if_split_asm)
qed

lemma apply_elem_items:
  assumes "consistent c" and "apply_elem (controller_get_placement env selected) d app flow names ps cps obj c = Inr (c', eds)"
    and "check_elems_installed eds"
  shows "\<exists>c4 a macs f. install_placed d a names ps cps macs c4 = Inr (c', eds) \<and> aa_flow a = flow \<and> consistent c4 \<and>
    c_sent c4 = c_sent c \<and> c_conns c4 = c_conns c \<and>
    flow_to_tuple FNone flow = Inr f \<and> map_of (flow_to_id (c_f2e c4)) f = Some (aa_flowspace_desc a)"
proof -
  from assms(2) obtain c1 where c1: "update_preferences names cps c = Inr c1" by (auto simp: apply_elem_def rbind_eq_Inr)
  obtain c2 b where c2: "wait_for_machines c1 = (c2, b)" by fastforce
  have bk: "books c2 = books c" using books_preferences [OF c1] books_wait [OF c2] by simp
  have "\<not> b" using assms(2,3) c1 c2 by (auto simp: apply_elem_def check_elems_installed_iff)
  with assms(2) c1 c2 obtain fm fd where fm: "get_unique_flowspace_desc (c_f2e c2) (FlowDictArg flow) = Inr (fm, fd)"
    by (auto simp: apply_elem_def rbind_eq_Inr)
  let ?c3 = "c2\<lparr>c_f2e := fm\<rparr>"
  let ?a = "\<lparr>aa_app_desc = app, aa_flow = flow, aa_application_object = obj, aa_flowspace_desc = fd\<rparr>"
  obtain f where c3: "consistent ?c3" and f: "flow_to_tuple FNone flow = Inr f" "map_of (flow_to_id fm) f = Some fd"
    using flowspace_desc_consistent [OF _ fm] books_same [OF bk] assms(1) by auto
  obtain c4 macs where c4: "controller_get_placement env selected ?c3 fd names = Inr (c4, Some macs)"
    and inst: "install_placed d ?a names ps cps (map the macs) c4 = Inr (c', eds)"
    using assms(2,3) c1 c2 \<open>\<not> b\<close> fm
    by (auto simp: apply_elem_def Let_def rbind_def check_elems_installed_iff
        split: sum.split_asm prod.split_asm if_split_asm option.split_asm list.split_asm)
  note c4s = books_same [OF books_placement [OF c4]]
  have "c_sent c4 = c_sent c" using sent_placement [OF c4] sent_wait [OF c2] sent_preferences [OF c1] by simp
  with inst c3 c4s f books_same(4) [OF bk] show ?thesis
    by (intro exI [of _ c4] exI [of _ ?a] exI [of _ "map the macs"] exI [of _ f]) simp
qed

text \<open>What \<^verbatim>\<open>apply_elem\<close> sends when it succeeds: for every element an installation message, to the connection of the machine it is deployed
  on.\<close>

lemma apply_elem_sent:
  assumes "consistent c" and "apply_elem (controller_get_placement env selected) d app flow names ps cps obj c = Inr (c', eds)"
    and "check_elems_installed eds"
  shows "\<exists>new. c_sent c' = c_sent c @ new \<and> (\<forall>sock. sent_to sock new =
    map (\<lambda>(ed, name, p). InstallMsg ed flow name p) (elements_on c' sock (zip eds (zip names ps))))"
proof -
  obtain c4 a macs f where inst: "install_placed d a names ps cps macs c4 = Inr (c', eds)" and a: "aa_flow a = flow" and c4: "consistent c4"
      "c_sent c4 = c_sent c" and f: "flow_to_tuple FNone flow = Inr f" "map_of (flow_to_id (c_f2e c4)) f = Some (aa_flowspace_desc a)"
    using apply_elem_items [OF assms] by blast
  let ?c5 = "c4\<lparr>c_latest_ed := c_latest_ed c4 + int (length names)\<rparr>" and ?items = "zip names (zip eds (zip ps (zip cps macs)))"
  have items: "install_elements a ?items ?c5 = Inr (c', True)" and eds: "eds = fresh_descriptors c4 (length names)"
    and lens: "length ps = length names" "length cps = length names" "length macs = length names" "length eds = length names"
    using install_placed_items [OF inst assms(3)] by (auto simp: fresh_descriptors_def)
  note sent = install_elements_messages [OF items]
  have descs: "map (fst \<circ> snd) ?items = eds" using lens by (intro map_desc_zip) simp_all
  have dist: "distinct eds" unfolding eds by (simp add: fresh_descriptors_def distinct_map inj_on_def)
  have new: "deployment c4 ed = None" if "ed \<in> set eds" for ed
    using that consistentD(6) [OF c4(1), of ed] by (cases "deployment c4 ed") (auto simp: eds fresh_descriptors_def)
  have "consistent c' \<and> flow_to_id (c_f2e c') = flow_to_id (c_f2e ?c5) \<and>
      deployment c' = (if True then deployment ?c5 ++ map_of (placed_instances a ?items) else deployment ?c5)"
  proof (rule install_elements_consistent [OF latest_consistent(1) [OF c4(1)] items])
    show "flow_to_tuple FNone (aa_flow a) = Inr f" using a f(1) by simp
    show "distinct (map (fst \<circ> snd) ?items)" unfolding descs by (rule dist)
    show "\<forall>ed \<in> set (map (fst \<circ> snd) ?items). deployment ?c5 ed = None \<and> ed \<le> c_latest_ed ?c5"
      unfolding descs using new latest_consistent(2) [OF c4(1)] by (auto simp: eds fresh_descriptors_def)
  qed (simp_all add: f(2))
  then have dep: "deployment c' = deployment ?c5 ++ map_of (placed_instances a ?items)" by simp
  have keys: "map fst (placed_instances a ?items) = eds" using lens by (intro nth_equalityI) simp_all
  have at: "deployment c' ed = Some (new_instance a n ed m)" if "(n, ed, p, cp, m) \<in> set ?items" for n ed p cp m
    using that dist keys unfolding dep by (intro map_add_find_right map_of_is_SomeI) (force simp del: zip_Cons)+
  let ?new = "map (\<lambda>(name, ed, p, cp, m). (the (map_of (c_conns ?c5) m), InstallMsg ed (aa_flow a) name p)) ?items"
  have els: "zip eds (zip names ps) = map (\<lambda>(n, ed, p, cp, m). (ed, n, p)) ?items" using lens by (intro nth_equalityI) simp_all
  have on: "(\<exists>i \<in> set_option (deployment c' ed). map_of (c_conns c') (ei_location i) = Some sock) \<longleftrightarrow> the (map_of (c_conns ?c5) m) = sock"
    if "(n, ed, p, cp, m) \<in> set ?items" for n ed p cp m sock
    using at [OF that] sent that by (auto simp: new_instance_def)
  have "sent_to sock ?new = map (\<lambda>(ed, name, p). InstallMsg ed flow name p) (elements_on c' sock (zip eds (zip names ps)))" for sock
  proof -
    have "filter (\<lambda>(n, ed, p, cp, m). \<exists>i \<in> set_option (deployment c' ed). map_of (c_conns c') (ei_location i) = Some sock) ?items =
        filter (\<lambda>(n, ed, p, cp, m). the (map_of (c_conns ?c5) m) = sock) ?items"
    proof (rule filter_cong [OF refl])
      fix x assume x: "x \<in> set ?items"
      obtain n ed p cp m where e: "x = (n, ed, p, cp, m)" by (metis surj_pair)
      show "(case x of (n, ed, p, cp, m) \<Rightarrow> \<exists>i \<in> set_option (deployment c' ed). map_of (c_conns c') (ei_location i) = Some sock) =
          (case x of (n, ed, p, cp, m) \<Rightarrow> the (map_of (c_conns ?c5) m) = sock)"
        unfolding e prod.case by (rule on [OF x [unfolded e]])
    qed
    then show ?thesis by (simp add: sent_to_def elements_on_def els filter_map comp_def case_prod_unfold a)
  qed
  with sent c4(2) show ?thesis by (intro exI [of _ ?new]) simp
qed

abbreviation demo_noop :: "(placement_state controller \<times> int list) res" where
  "demo_noop \<equiv> apply_elem (controller_get_placement demo_env RoundRobinP) demo_download 101 http_flow [''Noop''] [[]] [[]] 7 demo_traffic"

lemma demo_sent_elements:
  "map_sum id (\<lambda>(c, eds). (eds, elements_on c ''sock'' (zip eds (zip [''Noop''] [[]])))) demo_noop = Inr ([2], [(2, ''Noop'', [])])"
  by code_simp

text \<open>A controller that has installed an element on one machine and removed it again.\<close>

definition demo_sender :: "placement_state controller" where
  "demo_sender = demo_start\<lparr>c_sent := [(''sock'', InstallMsg 2 http_flow ''Noop'' []), (''other'', RemoveMsg 3 []), (''sock'', RemoveMsg 2 [])]\<rparr>"

section \<open>Properties\<close>



text \<open>
  C14. Messages arrive: the text of everything the controller has sent to a connection, received in whole lines, makes the
  shim handle exactly these messages, each once and in order.
\<close>

theorem controller_messages_arrive:
  assumes "\<forall>m \<in> set (sent_to sock (c_sent c)). json_ok fr (msg_json m)"
  shows "decode_msg_and_call env (socket_text fr sock (c_sent c)) sh = rfoldM (handle_msg env) sh (map msg_json (sent_to sock (c_sent c)))"
  using assms unfolding socket_text_def by (rule decode_messages)

theorem controller_messages_arrive_witness:
  "decode_msg_and_call demo_elem_env (socket_text (\<lambda>_. []) ''sock'' (c_sent demo_sender)) demo_shim =
     rfoldM (handle_msg demo_elem_env) demo_shim [install_json 2 http_flow ''Noop'' [], msg_json (RemoveMsg 2 [])]"
proof -
  have "sent_to ''sock'' (c_sent demo_sender) = [InstallMsg 2 http_flow ''Noop'' [], RemoveMsg 2 []]"
    by (simp add: demo_sender_def sent_to_def)
  with controller_messages_arrive [of "''sock''" demo_sender "\<lambda>_. []" demo_elem_env demo_shim] show ?thesis
    by (simp add: msg_json_def ascii_def demo_json)
qed

text \<open>
  A message that arrives in two parts is lost: the part before the break is dropped, and the part after it is decoded as if it were
  a message of its own.
\<close>

lemma fragmented_message_lost:
  assumes "json_ok fr (msg_json m)" and "msg_text fr m = a @ b @ [CHR 0x0A]"
  shows "decode_msg_and_call env a sh = Inr sh \<and>
    decode_msg_and_call env (b @ [CHR 0x0A]) sh = rbind (loads b) (handle_msg env sh)"
proof -
  have "dumps fr (msg_json m) = a @ b" using assms(2) by (simp add: msg_text_def)
  then have no: "CHR 0x0A \<notin> set a" "CHR 0x0A \<notin> set b" using dumps_line [OF assms(1)] by auto
  have "split_on CHR 0x0A a = [] @ [a]" using no(1) by (simp add: split_on_no_sep)
  moreover have "split_on CHR 0x0A (b @ [CHR 0x0A]) = [b] @ [[]]" using split_on_append [OF no(2), of "[]"] by simp
  ultimately show ?thesis by (simp add: decode_lines rbind_Inr_id)
qed

lemma fragmented_message_lost_example:
  "decode_msg_and_call demo_elem_env ''{'' demo_shim = Inr demo_shim \<and>
   decode_msg_and_call demo_elem_env (tl (msg_text (\<lambda>_. []) (RemoveMsg 2 []))) demo_shim = Inl ValueError"
proof -
  define b where "b = tl (dumps (\<lambda>_. []) (msg_json (RemoveMsg 2 [])))"
  have d: "dumps (\<lambda>_. []) (msg_json (RemoveMsg 2 [])) = ''{'' @ b"
    by (simp add: b_def msg_json_def)
  have "msg_text (\<lambda>_. []) (RemoveMsg 2 []) = ''{'' @ b @ [CHR 0x0A]"
    by (simp add: msg_text_def d)
  moreover have "loads b = Inl ValueError"
    unfolding b_def by code_simp
  moreover have "json_ok (\<lambda>_. []) (msg_json (RemoveMsg 2 []))"
    by (simp add: msg_json_def ascii_def)
  ultimately show ?thesis
    using fragmented_message_lost [of "\<lambda>_. []" "RemoveMsg 2 []" "''{''" b demo_elem_env demo_shim] by simp
qed

text \<open>
  C35. Removing an element has no effect where it runs: the controller forgets the element and sends its machine the
  removal, which the shim reads without error and does not act on, so the element goes on processing packets.
\<close>

theorem removed_element_keeps_running:
  assumes "consistent c" and "deployment c ed = Some i" and "map_of (c_e2a c) ed = Some e" and "json_ok fr (PvDict (ae_parameter e))"
  shows "\<exists>c' sock msg. remove_elem app ed c = Inr c' \<and> deployment c' ed = None \<and>
    map_of (c_conns c) (ei_location i) = Some sock \<and> c_sent c' = c_sent c @ [(sock, msg)] \<and>
    socket_text fr sock (c_sent c') = socket_text fr sock (c_sent c) @ msg_text fr msg \<and>
    decode_msg_and_call env (msg_text fr msg) sh = Inr sh"
proof -
  obtain c' sock where c': "remove_elem app ed c = Inr c'" "deployment c' = (deployment c)(ed := None)"
      "map_of (c_conns c) (ei_location i) = Some sock" "c_sent c' = c_sent c @ [(sock, RemoveMsg ed (ae_parameter e))]"
    using remove_elem_refines [OF assms(1,2), of app] assms(3) by auto
  let ?m = "RemoveMsg ed (ae_parameter e)"
  have "json_ok fr (msg_json ?m)" using assms(4) by (simp add: msg_json_def ascii_def)
  then have "decode_msg_and_call env (msg_text fr ?m) sh = handle_msg env sh (msg_json ?m)"
    using decode_dumps [of "[msg_json ?m]" fr "[]" env sh] by (simp add: msg_text_def rbind_Inr_id)
  also have "\<dots> = Inr sh" by (simp add: handle_msg_def msg_json_def pv_getitem_def dict_getitem_def)
  finally show ?thesis
    using c' by (intro exI [of _ c'] exI [of _ sock] exI [of _ ?m]) (simp add: socket_text_append socket_text_def sent_to_def)
qed

lemma demo_parameters: "map_sum id (\<lambda>(c, eds). map (\<lambda>(k, e). (k, ae_parameter e)) (c_e2a c)) demo_apply = Inr [(2, [])]"
  by code_simp

theorem removed_element_keeps_running_witness:
  "\<exists>c c' msg. demo_apply = Inr (c, [2]) \<and> remove_elem 101 2 c = Inr c' \<and> deployment c' 2 = None \<and>
     (\<exists>sock. c_sent c' = c_sent c @ [(sock, msg)]) \<and> decode_msg_and_call demo_elem_env (msg_text (\<lambda>_. []) msg) demo_shim = Inr demo_shim"
proof -
  obtain c where c: "demo_apply = Inr (c, [2])" "deployment c = [2 \<mapsto> demo_logger]" using demo_deployed by blast
  have inv: "consistent c" using running.apply_elem_refines [OF demo_traffic_consistent c(1)] by blast
  have "map (\<lambda>(k, e). (k, ae_parameter e)) (c_e2a c) = [(2, [])]" using demo_parameters c(1) by simp
  then obtain e where "map_of (c_e2a c) 2 = Some e" "ae_parameter e = []" by (auto simp: map_eq_Cons_conv split: prod.splits)
  with removed_element_keeps_running [OF inv, of 2 demo_logger e "\<lambda>_. []" 101 demo_elem_env demo_shim] c show ?thesis by auto
qed

text \<open>
  C24. Registration: the text of a new shim's first message, read by the controller, registers its machine: it is
  among the registered machines, its connection is the one messages go to, and it has no elements.
\<close>

theorem shim_registers:
  assumes "inet_aton ip = Inr w" and "ascii ip"
  shows "\<exists>c'. process_messages trigger handle sock (shim_text fr (shim_init mac ip)) c = Inr c' \<and>
    MacInt mac \<in> set (get_all_registered_machines c') \<and> map_of (c_conns c') (MacInt mac) = Some sock \<and>
    etm_get_elem_descs (c_e2m c') (MacInt mac) = Inr []"
proof -
  let ?v = "PvDict [(''type'', PvStr ''register''), (''machine_mac'', PvInt mac), (''machine_ip'', PvStr ip)]"
  have "json_ok fr ?v" using assms(2) by (simp add: ascii_def)
  moreover have "read_shim_in ?v = Inr (RegisterIn ip (MacInt mac))"
    by (simp add: read_shim_in_def dict_getitem_def pv_str_def mac_of_pval_def)
  ultimately have one: "process_msg trigger handle (RegisterIn ip (MacInt mac)) sock c = Inr (c', True) \<Longrightarrow>
      process_messages trigger handle sock (dumps fr ?v @ [CHR 0x0A]) c = Inr c'" for c'
    by (rule process_one)
  obtain c' where c': "process_msg trigger handle (RegisterIn ip (MacInt mac)) sock c = Inr (c', True)"
      "MacInt mac \<in> set (get_all_registered_machines c')" "map_of (c_conns c') (MacInt mac) = Some sock"
      "etm_get_elem_descs (c_e2m c') (MacInt mac) = Inr []"
    using process_register [OF assms(1)] by blast
  show ?thesis using one [OF c'(1)] c'(2-4) by (simp add: shim_text_def shim_init_def shim_register_machine_def send_data_basic_def)
qed

theorem shim_registers_witness:
  "\<exists>c'. process_messages ignore_trigger ignore_event ''sock'' (shim_text (\<lambda>_. []) (shim_init 5 ''10.0.0.5'')) demo_start = Inr c' \<and>
    MacInt 5 \<in> set (get_all_registered_machines c')"
proof -
  have "inet_aton ''10.0.0.5'' = Inr 167772165" by code_simp
  moreover have "ascii ''10.0.0.5''" by code_simp
  ultimately show ?thesis using shim_registers [of "''10.0.0.5''" _ ignore_trigger ignore_event "''sock''" "\<lambda>_. []" 5 demo_start] by blast
qed

end
