(* ===== verification/Network_Load.thy ===== *)
theory Network_Load
  imports Place_N_Steer
begin

text \<open>
  \<^verbatim>\<open>sflow_networkload.py\<close>: the load figures from an sFlow collector.  The reply of the collector (\<^verbatim>\<open>requests.get\<close>), the listing of
  \<^verbatim>\<open>/sys/devices/virtual/net/\<close> with the contents of the \<^verbatim>\<open>ifindex\<close> files, and the links of \<^verbatim>\<open>openflow_discovery\<close> are arguments.
  Interface names have no line breaks; data sources are compared as JSON values.

  Shown: which interface belongs to a switch port, when a machine counts as loaded and a link as congested, in octets, and how
  the placement loop acts on these figures.
\<close>

section \<open>Interfaces\<close>

text \<open>\<^verbatim>\<open>re.match('(.*)-(.*)', s)\<close>: the first group ends before the last dash.\<close>

definition before_last_dash :: "string \<Rightarrow> string option" where
  "before_last_dash s =
     (if CHR ''-'' \<in> set s then Some (rev (tl (dropWhile (\<lambda>c. c \<noteq> CHR ''-'') (rev s)))) else None)"

text \<open>\<^verbatim>\<open>re.findall(r'\d+', s)\<close>: the runs of digits.\<close>

function findall_digits :: "string \<Rightarrow> string list" where
  "findall_digits [] = []"
| "findall_digits (c # cs) =
     (if is_digit c then (c # takeWhile is_digit cs) # findall_digits (dropWhile is_digit cs) else findall_digits cs)"
  by pat_completeness auto
termination
  by (relation "measure length") (auto simp: less_Suc_eq_le length_dropWhile_le)

text \<open>\<^verbatim>\<open>_sflow_ifindex_to_of_port\<close>: from the names of the virtual interfaces and the texts of their index files.\<close>

definition sflow_ifindex_to_of_port :: "(string \<times> string) list \<Rightarrow> (string, string \<times> string) dict" where
  "sflow_ifindex_to_of_port listing =
     foldl (\<lambda>m (child, text).
       case before_last_dash child of
         None \<Rightarrow> m
       | Some switch \<Rightarrow> AList.update (hd (split_on CHR 0x0A text)) (switch, child) m) [] listing"

text \<open>\<^verbatim>\<open>_get_interface_index\<close>; falling off the end returns \<^verbatim>\<open>None\<close>.\<close>

fun get_interface_index :: "(string, string \<times> string) dict \<Rightarrow> dpid \<times> int \<Rightarrow> pval res" where
  "get_interface_index [] interface = Inr PvNone"
| "get_interface_index ((ifindex, switch_name, port_interface) # rest) interface =
     rbind (list_getitem (split_on CHR ''-'' port_interface) 1) (\<lambda>port_part.
       let switch_digits = findall_digits switch_name; port_digits = findall_digits port_part
       in if length switch_digits = 1 \<and> length port_digits = 1 then
            rbind (py_int 10 (switch_digits ! 0)) (\<lambda>d.
            if d = fst interface then
              rbind (py_int 10 (port_digits ! 0)) (\<lambda>p.
              if p = snd interface then Inr (PvStr ifindex) else get_interface_index rest interface)
            else get_interface_index rest interface)
          else get_interface_index rest interface)"

section \<open>The collector\<close>

record sflow_load =
  prev_ifindices :: "(pval, int \<times> int) dict"

definition sflow_init :: sflow_load where
  "sflow_init = \<lparr>prev_ifindices = []\<rparr>"

text \<open>A request that fails, or a reply with its status and its body, a list of JSON objects.\<close>

datatype sflow_reply = NoReply | Reply int "(string, pval) dict list"

definition hashable :: "pval \<Rightarrow> bool" where
  "hashable v = (case v of PvList _ \<Rightarrow> False | PvDict _ \<Rightarrow> False | _ \<Rightarrow> True)"

definition data_sources :: "(string, pval) dict list \<Rightarrow> pval list res" where
  "data_sources dump_result =
     rfoldM (\<lambda>keys result.
       case map_of result ''dataSource'' of
         None \<Rightarrow> Inr keys
       | Some v \<Rightarrow> if hashable v then Inr (if v \<in> set keys then keys else keys @ [v]) else Inl TypeError) [] dump_result"

definition read_metric :: "pval \<Rightarrow> int \<times> int \<Rightarrow> (string, pval) dict \<Rightarrow> (int \<times> int) res" where
  "read_metric interface octets result_dict =
     (if map_of result_dict ''dataSource'' = Some interface then
        (case map_of result_dict ''metricName'' of
           None \<Rightarrow> Inr octets
         | Some metric_name \<Rightarrow>
             (case map_of result_dict ''metricValue'' of
                None \<Rightarrow> Inr octets
              | Some metric_value \<Rightarrow>
                  if metric_name = PvStr ''ifinoctets'' then rbind (pv_to_int metric_value) (\<lambda>n. Inr (n, snd octets))
                  else if metric_name = PvStr ''ifoutoctets'' then rbind (pv_to_int metric_value) (\<lambda>n. Inr (fst octets, n))
                  else Inr octets))
      else Inr octets)"

text \<open>\<^verbatim>\<open>(float(n*8)/(1024))/collection_interval\<close>, the interval being one second.\<close>

definition octets_to_kbps :: "int \<Rightarrow> rat" where
  "octets_to_kbps n = of_int (n * 8) / 1024 / 1"

definition collect_interface ::
    "(string, pval) dict list \<Rightarrow> sflow_load \<times> (pval, rat \<times> rat) dict \<Rightarrow> pval \<Rightarrow> (sflow_load \<times> (pval, rat \<times> rat) dict) res" where
  "collect_interface dump_result state interface =
     (case state of (load, ifindices) \<Rightarrow>
        rbind (rfoldM (read_metric interface) (0, 0) dump_result) (\<lambda>(in_bytes, out_bytes).
        let prev = (if has_key (prev_ifindices load) interface then (in_bytes, out_bytes) else (0, 0))
        in Inr (load\<lparr>prev_ifindices := AList.update interface prev (prev_ifindices load)\<rparr>,
                AList.update interface (octets_to_kbps in_bytes, octets_to_kbps out_bytes) ifindices)))"

text \<open>\<^verbatim>\<open>_collect_interface_utilization\<close>.  \<^verbatim>\<open>prev_dump_result\<close> is never assigned, so every dump counts as new; the deltas it
  computes are not used.\<close>

definition collect_interface_utilization :: "sflow_reply \<Rightarrow> sflow_load \<Rightarrow> (sflow_load \<times> (pval, rat \<times> rat) dict option) res" where
  "collect_interface_utilization reply load =
     (case reply of
        NoReply \<Rightarrow> Inr (load, None)
      | Reply status_code dump_result \<Rightarrow>
          if status_code \<noteq> 200 then Inr (load, None)
          else rbind (data_sources dump_result) (\<lambda>keys.
               rbind (rfoldM (collect_interface dump_result) (load, []) keys) (\<lambda>(load', ifindices).
               Inr (load', Some ifindices))))"

section \<open>Machines and elements\<close>

definition MACHINE_USAGE_THRESHOLD :: rat where "MACHINE_USAGE_THRESHOLD = 80"

definition LINK_USAGE_THRESHOLD :: rat where "LINK_USAGE_THRESHOLD = 80"

definition get_mb_capacity :: "mac \<Rightarrow> rat" where
  "get_mb_capacity mb_machine_mac = 1"

text \<open>The locations of the registered machines; a machine the network has not seen is left out.\<close>

definition middlebox_locations :: "'p controller \<Rightarrow> (mac, dpid \<times> int) dict res" where
  "middlebox_locations c =
     rfoldM (\<lambda>m mac.
       case get_host_loc (c_net c) (Some mac) of
         Inr loc \<Rightarrow> Inr (AList.update mac loc m)
       | Inl e \<Rightarrow> if e = KeyError then Inr m else Inl e) [] (get_all_registered_machines c)"

definition machine_usage :: "(string, string \<times> string) dict \<Rightarrow> (pval, rat \<times> rat) dict \<Rightarrow> mac \<Rightarrow> dpid \<times> int \<Rightarrow> rat option res" where
  "machine_usage ifindex_to_port if_utilization_mbps mb_mac mb_loc =
     rbind (get_interface_index ifindex_to_port mb_loc) (\<lambda>mb_sflow_ifindex.
     Inr (map_option (\<lambda>(i, out). out / get_mb_capacity mb_mac * 100) (map_of if_utilization_mbps mb_sflow_ifindex)))"

definition get_loaded_middleboxes ::
    "sflow_reply \<Rightarrow> (string \<times> string) list \<Rightarrow> 'p controller \<Rightarrow> sflow_load \<Rightarrow> (sflow_load \<times> mac list) res" where
  "get_loaded_middleboxes reply listing c load =
     rbind (collect_interface_utilization reply load) (\<lambda>(load', util).
       case util of
         None \<Rightarrow> Inr (load', [])
       | Some if_utilization_mbps \<Rightarrow>
           if if_utilization_mbps = [] then Inr (load', [])
           else
             rbind (middlebox_locations c) (\<lambda>middleboxes.
             rbind (rmapM (\<lambda>(mb_mac, mb_loc).
                 rbind (machine_usage (sflow_ifindex_to_of_port listing) if_utilization_mbps mb_mac mb_loc) (\<lambda>u. Inr (mb_mac, u)))
               middleboxes) (\<lambda>usages.
             Inr (load', map fst (filter (\<lambda>(mb_mac, u). \<exists>x \<in> set_option u. x > MACHINE_USAGE_THRESHOLD) usages)))))"

definition get_loaded_elements ::
    "sflow_reply \<Rightarrow> (string \<times> string) list \<Rightarrow> 'p controller \<Rightarrow> sflow_load \<Rightarrow> (sflow_load \<times> int list) res" where
  "get_loaded_elements reply listing c load =
     rbind (get_loaded_middleboxes reply listing c load) (\<lambda>(load', loaded_macs).
     rbind (rmapM (etm_get_elem_descs (c_e2m c)) loaded_macs) (\<lambda>element_descs.
     Inr (load', map hd (filter (\<lambda>eds. eds \<noteq> []) element_descs))))"

section \<open>Links\<close>

definition get_link_capacity :: "link \<Rightarrow> rat" where
  "get_link_capacity link = 1024"

definition link_bandwidth ::
    "(string, string \<times> string) dict \<Rightarrow> (pval, rat \<times> rat) dict \<Rightarrow> (link, rat) dict \<Rightarrow> link \<Rightarrow> (link, rat) dict res" where
  "link_bandwidth ifindex_to_port if_utilization_mbps link_util link =
     (case link of (dpid1, port1, dpid2, port2) \<Rightarrow>
        rbind (get_interface_index ifindex_to_port (dpid1, port1)) (\<lambda>sflow_ifindex1.
        rbind (get_interface_index ifindex_to_port (dpid2, port2)) (\<lambda>sflow_ifindex2.
        case (map_of if_utilization_mbps sflow_ifindex1, map_of if_utilization_mbps sflow_ifindex2) of
          (Some (in1, out1), Some (in2, out2)) \<Rightarrow> Inr (AList.update link (min (out1 + in1) (out2 + in2)) link_util)
        | _ \<Rightarrow> Inr link_util)))"

definition collect_link_utilization ::
    "sflow_reply \<Rightarrow> (string \<times> string) list \<Rightarrow> link list \<Rightarrow> sflow_load \<Rightarrow> (sflow_load \<times> (link, rat) dict) res" where
  "collect_link_utilization reply listing links load =
     rbind (collect_interface_utilization reply load) (\<lambda>(load', util).
       case util of
         None \<Rightarrow> Inr (load', [])
       | Some if_utilization_mbps \<Rightarrow>
           if if_utilization_mbps = [] then Inr (load', [])
           else rbind (rfoldM (link_bandwidth (sflow_ifindex_to_of_port listing) if_utilization_mbps) [] links) (\<lambda>link_util.
                Inr (load', link_util)))"

definition get_congested_links ::
    "sflow_reply \<Rightarrow> (string \<times> string) list \<Rightarrow> link list \<Rightarrow> sflow_load \<Rightarrow> (sflow_load \<times> link list) res" where
  "get_congested_links reply listing links load =
     rbind (collect_link_utilization reply listing links load) (\<lambda>(load', link_util).
     Inr (load', map fst (filter (\<lambda>(link, util). util / get_link_capacity link * 100 > LINK_USAGE_THRESHOLD) link_util)))"

definition get_link_utilizations ::
    "sflow_reply \<Rightarrow> (string \<times> string) list \<Rightarrow> link list \<Rightarrow> sflow_load \<Rightarrow> (sflow_load \<times> (link, rat) dict) res" where
  "get_link_utilizations reply listing links load = collect_link_utilization reply listing links load"

text \<open>\<^verbatim>\<open>get_element_load\<close> and \<^verbatim>\<open>get_link_load\<close> call a constructor without its argument; \<^verbatim>\<open>_update_element_instance_load\<close> counts in an
  attribute its object does not have.  \<^verbatim>\<open>get_machine_load\<close> always makes a new object, as nothing is ever stored.\<close>

record machine_load =
  ml_mac :: mac
  ml_cpu_percent :: int
  ml_net_io_percent :: int
  ml_mem_percent :: int

definition get_element_load :: "int \<Rightarrow> machine_load res" where
  "get_element_load ed = Inl TypeError"

definition get_link_load :: "link \<Rightarrow> machine_load res" where
  "get_link_load link = Inl TypeError"

definition get_machine_load :: "mac \<Rightarrow> machine_load res" where
  "get_machine_load machine_id = Inr \<lparr>ml_mac = machine_id, ml_cpu_percent = 0, ml_net_io_percent = 0, ml_mem_percent = 0\<rparr>"

section \<open>The timers\<close>

text \<open>\<^verbatim>\<open>place_n_steer\<close> asks three times; the first answer is only printed.\<close>

definition place_n_steer_timer ::
    "controller_env \<Rightarrow> sflow_reply \<times> sflow_reply \<times> sflow_reply \<Rightarrow> (string \<times> string) list \<Rightarrow> link list \<Rightarrow> ctl \<times> sflow_load \<Rightarrow>
     (ctl \<times> sflow_load) res" where
  "place_n_steer_timer env replies listing links state =
     (case replies of (r1, r2, r3) \<Rightarrow> case state of (c, load) \<Rightarrow>
        rbind (get_loaded_middleboxes r1 listing c load) (\<lambda>(load1, loaded_middleboxes).
        rbind (get_loaded_elements r2 listing c load1) (\<lambda>(load2, loaded_elements).
        rbind (get_congested_links r3 listing links load2) (\<lambda>(load3, congested_links).
        rbind (place_n_steer env loaded_elements congested_links c) (\<lambda>c'. Inr (c', load3))))))"

text \<open>The recurring timer of the overlay network.\<close>

definition utilization_timer ::
    "sflow_reply \<Rightarrow> (string \<times> string) list \<Rightarrow> link list \<Rightarrow> overlay_net \<times> sflow_load \<Rightarrow> (overlay_net \<times> sflow_load) res" where
  "utilization_timer reply listing links state =
     (case state of (ov, load) \<Rightarrow>
        rbind (get_link_utilizations reply listing links load) (\<lambda>(load', utils).
        Inr (update_physical_network_utilization utils ov, load')))"

section \<open>Lemmas\<close>

lemma findall_none: "\<forall>c \<in> set s. \<not> is_digit c \<Longrightarrow> findall_digits (s @ t) = findall_digits t"
  by (induction s) auto

lemma findall_number:
  assumes "\<forall>c \<in> set s. \<not> is_digit c"
  shows "findall_digits (s @ fmt_d n) = [fmt_d n]"
proof -
  obtain c cs where f: "fmt_d n = c # cs" "is_digit c" using fmt_d_hd by blast
  then have "\<forall>x \<in> set cs. is_digit x" using fmt_d_digits [of _ n] by auto
  then have "takeWhile is_digit cs = cs" "dropWhile is_digit cs = []" by (auto simp: dropWhile_eq_Nil_conv)
  then show ?thesis using f assms by (simp del: dropWhile_eq_Nil_conv add: findall_none)
qed

lemma fmt_d_no_dash: "CHR ''-'' \<notin> set (fmt_d n)"
  using fmt_d_digits [of "CHR ''-''" n] by (auto simp: is_digit_def)

lemma before_last_dash_append: "CHR ''-'' \<notin> set t \<Longrightarrow> before_last_dash (s @ CHR ''-'' # t) = Some s"
  unfolding before_last_dash_def by (simp, subst dropWhile_append2) auto

text \<open>The names mininet gives: switch \<open>d\<close> has the interfaces \<^verbatim>\<open>s<d>-eth<p>\<close>.\<close>

definition if_name :: "dpid \<Rightarrow> int \<Rightarrow> string" where
  "if_name d p = ''s'' @ fmt_d (nat d) @ CHR ''-'' # ''eth'' @ fmt_d (nat p)"

definition mininet_listing :: "(dpid \<times> int, string) dict \<Rightarrow> (string \<times> string) list" where
  "mininet_listing ports = map (\<lambda>((d, p), i). (if_name d p, i @ [CHR 0x0A])) ports"

definition ports_ok :: "(dpid \<times> int, string) dict \<Rightarrow> bool" where
  "ports_ok ports \<longleftrightarrow> distinct (map snd ports) \<and> list_all (\<lambda>((d, p), i). 0 \<le> d \<and> 0 \<le> p \<and> CHR 0x0A \<notin> set i) ports"

lemma foldl_update_fresh:
  assumes "distinct (dict_keys acc @ map fst xs)"
  shows "foldl (\<lambda>m (k, v). AList.update k v m) acc xs = acc @ xs"
  using assms
proof (induction xs arbitrary: acc)
  case (Cons x xs)
  then have "AList.update (fst x) (snd x) acc = acc @ [x]" by (intro update_fresh [THEN trans]) (auto simp: map_of_eq_None_iff)
  with Cons show ?case by (auto simp: case_prod_beta)
qed simp

lemma ifindex_listing:
  assumes "ports_ok ports"
  shows "sflow_ifindex_to_of_port (mininet_listing ports) = map (\<lambda>((d, p), i). (i, ''s'' @ fmt_d (nat d), if_name d p)) ports"
proof -
  have "before_last_dash (if_name d p) = Some (''s'' @ fmt_d (nat d))" for d p
    using before_last_dash_append [of "''eth'' @ fmt_d (nat p)" "''s'' @ fmt_d (nat d)"] fmt_d_no_dash by (simp add: if_name_def)
  then have "sflow_ifindex_to_of_port (mininet_listing ports) =
      foldl (\<lambda>m (k, v). AList.update k v m) [] (map (\<lambda>((d, p), i). (i, ''s'' @ fmt_d (nat d), if_name d p)) ports)"
    using assms
    by (auto simp: sflow_ifindex_to_of_port_def mininet_listing_def foldl_map ports_ok_def list_all_iff split_on_append
        intro!: foldl_cong)
  also have "\<dots> = map (\<lambda>((d, p), i). (i, ''s'' @ fmt_d (nat d), if_name d p)) ports"
    using assms by (subst foldl_update_fresh) (simp_all add: ports_ok_def comp_def case_prod_beta)
  finally show ?thesis .
qed

lemma interface_index:
  assumes "ports_ok ports"
  shows "get_interface_index (sflow_ifindex_to_of_port (mininet_listing ports)) loc =
     Inr (case map_of ports loc of None \<Rightarrow> PvNone | Some i \<Rightarrow> PvStr i)"
  unfolding ifindex_listing [OF assms]
  using assms
proof (induction ports)
  case (Cons x ports)
  obtain d p i where x: "x = ((d, p), i)" by (metis surj_pair)
  have "split_on CHR ''-'' (if_name d p) = [''s'' @ fmt_d (nat d), ''eth'' @ fmt_d (nat p)]"
    using split_on_append [of "CHR ''-''" "''s'' @ fmt_d (nat d)" "''eth'' @ fmt_d (nat p)"]
      split_on_no_sep [of "CHR ''-''" "''eth'' @ fmt_d (nat p)"] fmt_d_no_dash by (simp add: if_name_def)
  moreover have "findall_digits (''s'' @ fmt_d (nat d)) = [fmt_d (nat d)]" "findall_digits (''eth'' @ fmt_d (nat p)) = [fmt_d (nat p)]"
    by (rule findall_number, simp add: is_digit_def)+
  ultimately show ?case
    using Cons x by (cases loc) (auto simp: list_getitem_def ports_ok_def Let_def)
qed simp

text \<open>A dump of the collector: data source, metric and value.\<close>

definition sflow_dump :: "(string \<times> string \<times> int) list \<Rightarrow> (string, pval) dict list" where
  "sflow_dump es = map (\<lambda>(s, m, v). [(''dataSource'', PvStr s), (''metricName'', PvStr m), (''metricValue'', PvInt v)]) es"

definition octets :: "string \<Rightarrow> (string \<times> string \<times> int) list \<Rightarrow> string \<Rightarrow> int" where
  "octets metric es i = foldl (\<lambda>n (s, m, v). if s = i \<and> m = metric then v else n) 0 es"

lemma octets_unknown: "i \<notin> fst ` set es \<Longrightarrow> octets metric es i = 0"
  unfolding octets_def by (induction es rule: rev_induct) auto

lemma data_sources_dump: "\<exists>keys. data_sources (sflow_dump es) = Inr keys \<and> set keys = PvStr ` fst ` set es \<and> distinct keys"
proof (induction es rule: rev_induct)
  case (snoc e es)
  then obtain keys where "data_sources (sflow_dump es) = Inr keys" "set keys = PvStr ` fst ` set es" "distinct keys" by blast
  then show ?case
    by (cases e) (auto simp: data_sources_def sflow_dump_def rfoldM_append hashable_def insert_absorb image_iff)
qed (simp add: data_sources_def sflow_dump_def)

lemma read_metrics:
  "rfoldM (read_metric (PvStr i)) (0, 0) (sflow_dump es) = Inr (octets ''ifinoctets'' es i, octets ''ifoutoctets'' es i)"
proof (induction es rule: rev_induct)
  case (snoc e es)
  then show ?case by (cases e) (auto simp: sflow_dump_def octets_def rfoldM_append read_metric_def pv_to_int_def)
qed (simp add: sflow_dump_def octets_def)

lemma collect_keys:
  assumes "set keys \<subseteq> range PvStr"
  shows "\<exists>load' u. rfoldM (collect_interface (sflow_dump es)) (load, acc) keys = Inr (load', u) \<and>
     (\<forall>k. map_of u k = (if k \<in> set keys then
        (case k of PvStr i \<Rightarrow> Some (octets_to_kbps (octets ''ifinoctets'' es i), octets_to_kbps (octets ''ifoutoctets'' es i)) | _ \<Rightarrow> None)
      else map_of acc k))"
  using assms
proof (induction keys arbitrary: load acc)
  case (Cons x keys)
  then obtain i where "x = PvStr i" by auto
  then obtain load1 where one: "collect_interface (sflow_dump es) (load, acc) x =
      Inr (load1, AList.update x (octets_to_kbps (octets ''ifinoctets'' es i), octets_to_kbps (octets ''ifoutoctets'' es i)) acc)"
    by (simp add: collect_interface_def read_metrics)
  with Cons.IH [of load1 "AList.update x (octets_to_kbps (octets ''ifinoctets'' es i), octets_to_kbps (octets ''ifoutoctets'' es i)) acc"]
    Cons.prems \<open>x = PvStr i\<close> show ?case by (auto simp: update_conv')
qed simp

lemma collected:
  "\<exists>load' u. collect_interface_utilization (Reply 200 (sflow_dump es)) load = Inr (load', Some u) \<and> map_of u PvNone = None \<and>
     (\<forall>i. map_of u (PvStr i) = (if i \<in> fst ` set es then
        Some (octets_to_kbps (octets ''ifinoctets'' es i), octets_to_kbps (octets ''ifoutoctets'' es i)) else None))"
proof -
  obtain keys where k: "data_sources (sflow_dump es) = Inr keys" "set keys = PvStr ` fst ` set es" using data_sources_dump by blast
  have sub: "set keys \<subseteq> range PvStr" unfolding k(2) by blast
  obtain load' u where "rfoldM (collect_interface (sflow_dump es)) (load, []) keys = Inr (load', u)"
    "\<forall>k. map_of u k = (if k \<in> set keys then
        (case k of PvStr i \<Rightarrow> Some (octets_to_kbps (octets ''ifinoctets'' es i), octets_to_kbps (octets ''ifoutoctets'' es i)) | _ \<Rightarrow> None)
      else None)"
    using collect_keys [OF sub, of es load "[]"] by (elim exE conjE) simp
  with k show ?thesis by (auto simp: collect_interface_utilization_def image_iff)
qed

text \<open>The thresholds in octets.\<close>

lemma machine_threshold: "octets_to_kbps n / get_mb_capacity m * 100 > MACHINE_USAGE_THRESHOLD \<longleftrightarrow> 103 \<le> n"
proof -
  have "octets_to_kbps n / get_mb_capacity m * 100 > MACHINE_USAGE_THRESHOLD \<longleftrightarrow> (81920 :: rat) < of_int (n * 800)"
    by (simp add: octets_to_kbps_def get_mb_capacity_def MACHINE_USAGE_THRESHOLD_def field_simps)
  also have "\<dots> \<longleftrightarrow> 81920 < n * 800" by linarith
  finally show ?thesis by auto
qed

lemma link_threshold:
  "min (octets_to_kbps a + octets_to_kbps b) (octets_to_kbps a' + octets_to_kbps b') / get_link_capacity l * 100 > LINK_USAGE_THRESHOLD \<longleftrightarrow>
     104858 \<le> a + b \<and> 104858 \<le> a' + b'"
proof -
  have one: "(octets_to_kbps x + octets_to_kbps y) > 80 * 1024 / 100 \<longleftrightarrow> 104858 \<le> x + y" for x y
  proof -
    have "(octets_to_kbps x + octets_to_kbps y) > 80 * 1024 / 100 \<longleftrightarrow> (524288 :: rat) < of_int ((x + y) * 5)"
      by (simp add: octets_to_kbps_def field_simps)
    also have "\<dots> \<longleftrightarrow> 524288 < (x + y) * 5" by linarith
    finally show ?thesis by auto
  qed
  have "min p q / get_link_capacity l * 100 > LINK_USAGE_THRESHOLD \<longleftrightarrow> p > 80 * 1024 / 100 \<and> q > 80 * 1024 / 100" for p q :: rat
    by (auto simp: get_link_capacity_def LINK_USAGE_THRESHOLD_def min_def field_simps)
  then show ?thesis by (simp only: one)
qed

lemma known_values:
  assumes "\<forall>k \<in> set ks. \<forall>e. f k = Inl e \<longrightarrow> e = KeyError"
  shows "\<exists>t. rfoldM (\<lambda>d k. case f k of Inr v \<Rightarrow> Inr (AList.update k v d) | Inl e \<Rightarrow> if e = KeyError then Inr d else Inl e) d ks = Inr t \<and>
     (dict_wf d \<longrightarrow> dict_wf t) \<and>
     (\<forall>k v. map_of t k = Some v \<longleftrightarrow> k \<in> set ks \<and> f k = Inr v \<or> (k \<notin> set ks \<or> isl (f k)) \<and> map_of d k = Some v)"
  using assms
proof (induction ks arbitrary: d)
  case (Cons x ks)
  define d' where "d' = (case f x of Inr v \<Rightarrow> AList.update x v d | Inl _ \<Rightarrow> d)"
  from Cons.IH [of d'] Cons.prems obtain t where
    t: "rfoldM (\<lambda>d k. case f k of Inr v \<Rightarrow> Inr (AList.update k v d) | Inl e \<Rightarrow> if e = KeyError then Inr d else Inl e) d' ks = Inr t"
      "dict_wf d' \<longrightarrow> dict_wf t"
    and m: "\<And>k v. map_of t k = Some v \<longleftrightarrow> k \<in> set ks \<and> f k = Inr v \<or> (k \<notin> set ks \<or> isl (f k)) \<and> map_of d' k = Some v"
    by auto
  have "dict_wf d \<longrightarrow> dict_wf d'" by (simp add: d'_def distinct_update split: sum.split)
  moreover have "map_of d' k = Some v \<longleftrightarrow> (if k = x \<and> \<not> isl (f x) then f x = Inr v else map_of d k = Some v)" for k v
    by (cases "f x") (auto simp: d'_def update_conv')
  then have "map_of t k = Some v \<longleftrightarrow> k \<in> set (x # ks) \<and> f k = Inr v \<or> (k \<notin> set (x # ks) \<or> isl (f k)) \<and> map_of d k = Some v" for k v
    unfolding m by (cases "k = x"; cases "f x") auto
  moreover have "(case f x of Inr v \<Rightarrow> Inr (AList.update x v d) | Inl e \<Rightarrow> if e = KeyError then Inr d else Inl e) = Inr d'"
    using Cons.prems by (auto simp: d'_def split: sum.split)
  ultimately show ?case using t by simp
qed simp

text \<open>The locations of the registered machines that the network has seen.\<close>

definition machines_seen :: "'p controller \<Rightarrow> bool" where
  "machines_seen c \<longleftrightarrow>
     list_all (\<lambda>m. case get_host_loc (c_net c) (Some m) of Inr _ \<Rightarrow> True | Inl e \<Rightarrow> e = KeyError) (get_all_registered_machines c)"

lemma middlebox_locations_ok:
  assumes "machines_seen c"
  shows "\<exists>t. middlebox_locations c = Inr t \<and> (\<forall>m loc. (m, loc) \<in> set t \<longleftrightarrow>
     m \<in> set (get_all_registered_machines c) \<and> get_host_loc (c_net c) (Some m) = Inr loc)"
proof -
  have "\<forall>m \<in> set (get_all_registered_machines c). \<forall>e. get_host_loc (c_net c) (Some m) = Inl e \<longrightarrow> e = KeyError"
    using assms by (auto simp: machines_seen_def list_all_iff split: sum.splits)
  from known_values [OF this, of "[]"] obtain t where t: "middlebox_locations c = Inr t" "dict_wf t"
      "\<forall>m loc. map_of t m = Some loc \<longleftrightarrow> m \<in> set (get_all_registered_machines c) \<and> get_host_loc (c_net c) (Some m) = Inr loc"
    unfolding middlebox_locations_def by (elim exE conjE) simp
  have "(m, loc) \<in> set t \<longleftrightarrow> map_of t m = Some loc" for m loc using t(2) by simp
  with t(1,3) show ?thesis by simp
qed

text \<open>The links with the figures of both ends.\<close>

definition link_ends :: "(dpid \<times> int, string) dict \<Rightarrow> link \<Rightarrow> (string \<times> string) option" where
  "link_ends ports l = (case l of (d1, p1, d2, p2) \<Rightarrow>
     (case (map_of ports (d1, p1), map_of ports (d2, p2)) of (Some i, Some j) \<Rightarrow> Some (i, j) | _ \<Rightarrow> None))"

definition total_octets :: "(string \<times> string \<times> int) list \<Rightarrow> string \<Rightarrow> int" where
  "total_octets es i = octets ''ifinoctets'' es i + octets ''ifoutoctets'' es i"

lemma total_unknown: "i \<notin> fst ` set es \<Longrightarrow> total_octets es i = 0"
  by (simp add: total_octets_def octets_unknown)

lemma link_rates:
  assumes "ports_ok ports" and "map_of u PvNone = None"
    and "\<And>i. map_of u (PvStr i) = (if i \<in> fst ` set es then
        Some (octets_to_kbps (octets ''ifinoctets'' es i), octets_to_kbps (octets ''ifoutoctets'' es i)) else None)"
    and "distinct (dict_keys acc @ links)"
  shows "rfoldM (link_bandwidth (sflow_ifindex_to_of_port (mininet_listing ports)) u) acc links =
     Inr (acc @ map (\<lambda>l. (l, case the (link_ends ports l) of (i, j) \<Rightarrow>
         min (octets_to_kbps (octets ''ifoutoctets'' es i) + octets_to_kbps (octets ''ifinoctets'' es i))
             (octets_to_kbps (octets ''ifoutoctets'' es j) + octets_to_kbps (octets ''ifinoctets'' es j))))
       (filter (\<lambda>l. \<exists>(i, j) \<in> set_option (link_ends ports l). i \<in> fst ` set es \<and> j \<in> fst ` set es) links))"
  using assms(4)
proof (induction links arbitrary: acc)
  case (Cons l links)
  obtain d1 p1 d2 p2 where l: "l = (d1, p1, d2, p2)" by (metis surj_pair)
  have "link_bandwidth (sflow_ifindex_to_of_port (mininet_listing ports)) u acc l =
      Inr (case link_ends ports l of None \<Rightarrow> acc | Some (i, j) \<Rightarrow>
        if i \<in> fst ` set es \<and> j \<in> fst ` set es then
         AList.update l (min (octets_to_kbps (octets ''ifoutoctets'' es i) + octets_to_kbps (octets ''ifinoctets'' es i))
             (octets_to_kbps (octets ''ifoutoctets'' es j) + octets_to_kbps (octets ''ifinoctets'' es j))) acc else acc)"
    using assms(2,3) by (auto simp: l link_bandwidth_def interface_index [OF assms(1)] link_ends_def split: option.splits)
  moreover have "map_of acc l = None" using Cons.prems by (auto simp: map_of_eq_None_iff)
  ultimately show ?case
    using Cons.prems Cons.IH by (auto simp: update_fresh split: option.splits prod.splits)
qed simp

text \<open>Two registered machines on the ports of one switch.\<close>

definition demo_attached :: "placement_state controller" where
  "demo_attached = (let c = demo_start; net = c_net c in
     c\<lparr>c_m2i := [(MacInt 5, FStr ''10.0.0.5''), (MacInt 6, FStr ''10.0.0.6'')],
       c_net := net\<lparr>nm_overlay := (nm_overlay net)\<lparr>hosts := [(''00:00:00:00:00:05'', (1, 3)), (''00:00:00:00:00:06'', (1, 4))]\<rparr>\<rparr>\<rparr>)"

section \<open>Properties\<close>

text \<open>
  C33. A machine counts as loaded from 103 octets on: in a network with the interface names mininet gives, the machines reported
  are exactly the registered ones that are attached to a port whose interface the collector reports with at least
  103 octets going out.  The figures are in kilobits per second, the capacity they are compared with
  is one, meant in megabits.
\<close>

theorem loaded_from_103_octets:
  assumes "ports_ok ports" and "machines_seen c"
  shows "\<exists>load' ms. get_loaded_middleboxes (Reply 200 (sflow_dump es)) (mininet_listing ports) c load = Inr (load', ms) \<and>
    (\<forall>m. m \<in> set ms \<longleftrightarrow> m \<in> set (get_all_registered_machines c) \<and>
       (\<exists>loc i. get_host_loc (c_net c) (Some m) = Inr loc \<and> map_of ports loc = Some i \<and> 103 \<le> octets ''ifoutoctets'' es i))"
proof -
  obtain load' u where u: "collect_interface_utilization (Reply 200 (sflow_dump es)) load = Inr (load', Some u)" "map_of u PvNone = None"
      "\<And>i. map_of u (PvStr i) = (if i \<in> fst ` set es then
        Some (octets_to_kbps (octets ''ifinoctets'' es i), octets_to_kbps (octets ''ifoutoctets'' es i)) else None)"
    using collected by blast
  obtain t where t: "middlebox_locations c = Inr t" "\<And>m loc. (m, loc) \<in> set t \<longleftrightarrow>
      m \<in> set (get_all_registered_machines c) \<and> get_host_loc (c_net c) (Some m) = Inr loc"
    using middlebox_locations_ok [OF assms(2)] by blast
  define usage where "usage m loc = (case map_of ports loc of None \<Rightarrow> None | Some i \<Rightarrow>
      map_option (\<lambda>(i, out). out / get_mb_capacity m * 100) (map_of u (PvStr i)))" for m loc
  have use: "machine_usage (sflow_ifindex_to_of_port (mininet_listing ports)) u m loc = Inr (usage m loc)" for m loc
    using u(2) by (simp add: machine_usage_def interface_index [OF assms(1)] usage_def split: option.splits)
  have over: "(\<exists>x \<in> set_option (usage m loc). x > MACHINE_USAGE_THRESHOLD) \<longleftrightarrow>
      (\<exists>i. map_of ports loc = Some i \<and> 103 \<le> octets ''ifoutoctets'' es i)" for m loc
    using octets_unknown [of _ es "''ifoutoctets''"]
    by (auto simp: usage_def u(3) machine_threshold simp del: times_divide_eq_left split: option.splits if_splits)
  show ?thesis
  proof (cases "u = []")
    case True
    have "i \<notin> fst ` set es" for i using u(3) [of i] True by (auto split: if_splits)
    then have "octets ''ifoutoctets'' es i = 0" for i by (rule octets_unknown)
    then show ?thesis by (simp add: get_loaded_middleboxes_def u(1) True)
  next
    case False
    have "rmapM (\<lambda>(mb_mac, mb_loc). rbind (machine_usage (sflow_ifindex_to_of_port (mininet_listing ports)) u mb_mac mb_loc)
        (\<lambda>x. Inr (mb_mac, x))) t = Inr (map (\<lambda>(m, loc). (m, usage m loc)) t)"
      by (rule rmapM_all_ok) (auto simp: use)
    then have "get_loaded_middleboxes (Reply 200 (sflow_dump es)) (mininet_listing ports) c load =
        Inr (load', map fst (filter (\<lambda>(m, loc). \<exists>x \<in> set_option (usage m loc). x > MACHINE_USAGE_THRESHOLD) t))"
      using False by (simp add: get_loaded_middleboxes_def u(1) t(1) filter_map comp_def case_prod_unfold)
    moreover have "m \<in> set (map fst (filter (\<lambda>(m, loc). \<exists>x \<in> set_option (usage m loc). x > MACHINE_USAGE_THRESHOLD) t)) \<longleftrightarrow>
        (\<exists>loc. (m, loc) \<in> set t \<and> (\<exists>x \<in> set_option (usage m loc). x > MACHINE_USAGE_THRESHOLD))" for m
      by (force simp: image_iff)
    ultimately show ?thesis unfolding over t(2) by blast
  qed
qed

theorem loaded_from_103_octets_witness:
  "\<exists>load' ms. get_loaded_middleboxes (Reply 200 (sflow_dump [(''7'', ''ifoutoctets'', 103), (''8'', ''ifoutoctets'', 102)]))
      (mininet_listing [((1, 3), ''7''), ((1, 4), ''8'')]) demo_attached sflow_init = Inr (load', ms) \<and> set ms = {MacInt 5}"
proof -
  have "ports_ok [((1, 3), ''7''), ((1, 4), ''8'')]" by (simp add: ports_ok_def)
  moreover have reg: "get_all_registered_machines demo_attached = [MacInt 5, MacInt 6]" by code_simp
  moreover have loc: "get_host_loc (c_net demo_attached) (Some (MacInt 5)) = Inr (1, 3)"
      "get_host_loc (c_net demo_attached) (Some (MacInt 6)) = Inr (1, 4)" by code_simp+
  ultimately have seen: "machines_seen demo_attached" by (simp add: machines_seen_def)
  obtain load' ms where "get_loaded_middleboxes (Reply 200 (sflow_dump [(''7'', ''ifoutoctets'', 103), (''8'', ''ifoutoctets'', 102)]))
      (mininet_listing [((1, 3), ''7''), ((1, 4), ''8'')]) demo_attached sflow_init = Inr (load', ms)" and
    ms: "\<And>m. m \<in> set ms \<longleftrightarrow> m \<in> {MacInt 5, MacInt 6} \<and> (\<exists>loc i. get_host_loc (c_net demo_attached) (Some m) = Inr loc \<and>
       map_of [((1, 3), ''7''), ((1, 4), ''8'')] loc = Some i \<and>
       103 \<le> octets ''ifoutoctets'' [(''7'', ''ifoutoctets'', 103), (''8'', ''ifoutoctets'', 102)] i)"
    using loaded_from_103_octets [OF \<open>ports_ok _\<close> seen, of "[(''7'', ''ifoutoctets'', 103), (''8'', ''ifoutoctets'', 102)]" sflow_init] reg
    by auto
  moreover have "MacInt 5 \<in> set ms"
    unfolding ms using loc(1) by (intro conjI exI [of _ "(1, 3)"] exI [of _ "''7''"]) (simp_all add: octets_def)
  moreover have "m \<in> set ms \<Longrightarrow> m = MacInt 5" for m
    unfolding ms using loc(2) by (auto simp: octets_def)
  ultimately show ?thesis by blast
qed

text \<open>
  A link counts as congested from 104858 octets on: the links reported are exactly the known ones whose two interfaces
  the collector both reports with at least that many octets in and out, which is four fifths of 1024 kilobits.
\<close>

lemma congested_from_104858_octets:
  assumes "ports_ok ports" and "distinct links"
  shows "\<exists>load' ls. get_congested_links (Reply 200 (sflow_dump es)) (mininet_listing ports) links load = Inr (load', ls) \<and>
    (\<forall>l. l \<in> set ls \<longleftrightarrow> l \<in> set links \<and>
       (\<exists>i j. link_ends ports l = Some (i, j) \<and> 104858 \<le> total_octets es i \<and> 104858 \<le> total_octets es j))"
proof -
  obtain load' u where u: "collect_interface_utilization (Reply 200 (sflow_dump es)) load = Inr (load', Some u)" "map_of u PvNone = None"
      "\<And>i. map_of u (PvStr i) = (if i \<in> fst ` set es then
        Some (octets_to_kbps (octets ''ifinoctets'' es i), octets_to_kbps (octets ''ifoutoctets'' es i)) else None)"
    using collected by blast
  have none: "104858 \<le> total_octets es i \<Longrightarrow> i \<in> fst ` set es" for i using total_unknown [of i es] by fastforce
  show ?thesis
  proof (cases "u = []")
    case True
    have "i \<notin> fst ` set es" for i using u(3) [of i] True by (auto split: if_splits)
    with none show ?thesis by (auto simp: get_congested_links_def collect_link_utilization_def u(1) True)
  next
    case False
    with link_rates [OF assms(1) u(2,3), of "[]" links] assms(2) none show ?thesis
      by (fastforce simp: get_congested_links_def collect_link_utilization_def u(1) filter_map comp_def link_threshold total_octets_def add.commute
          simp del: times_divide_eq_left)
  qed
qed

lemma congested_from_104858_octets_example:
  "\<exists>load' ls. get_congested_links (Reply 200 (sflow_dump [(''7'', ''ifinoctets'', 60000), (''7'', ''ifoutoctets'', 60000), (''8'', ''ifinoctets'', 104858)]))
      (mininet_listing [((1, 3), ''7''), ((2, 1), ''8'')]) [(1, 3, 2, 1)] sflow_init = Inr (load', ls) \<and> set ls = {(1, 3, 2, 1)}"
proof -
  let ?es = "[(''7'', ''ifinoctets'', 60000), (''7'', ''ifoutoctets'', 60000), (''8'', ''ifinoctets'', 104858)] :: (string \<times> string \<times> int) list"
  have "ports_ok [((1, 3), ''7''), ((2, 1), ''8'')]" "distinct [(1, 3, 2, 1) :: link]" by (simp_all add: ports_ok_def)
  from congested_from_104858_octets [OF this, of ?es sflow_init] show ?thesis
    by (auto simp: link_ends_def total_octets_def octets_def)
qed

end
