(* ===== verification/Applications.thy ===== *)
theory Applications
  imports Wire Network_Load
begin

text \<open>
  \<^verbatim>\<open>Application.py\<close> and \<^verbatim>\<open>apps/*.py\<close>: the base class, the applications, and the parts of the controller that run them
  (\<^verbatim>\<open>timer_callback\<close>, the delivery of triggers).  The controller's \<^verbatim>\<open>apply_elem\<close> is the argument \<open>api\<close> of an application; the
  interface \<open>controller_api\<close> says what the applications rely on.  A file an application writes is the list of messages
  written; printing is left out.

  Shown: an application that counts itself as installed has all its elements deployed; the chains without
  controller parameters are never installed; a trigger about a blocked domain leads to a drop element for the sender.
\<close>

section \<open>Applications\<close>

datatype app_class =
    TriggerAllUnitTest | TwoLoggers | BloomFilterUnitTest | OSFirewall | BlockDomains | HttpLogger | TwoLoggersChain
  | LoggerTriggerChain | LoggerReplicas | ReplicasChain | DirectionLogger | CompressorApp | DelayBufferApp | ConstantApp
  | EnterpriseOne | LessTestApp | MoreTestApp | EqualApp | PacketDump | LLTestApp | LMTestApp | MMTestApp

record app =
  ap_class :: app_class
  ap_handle :: int
  ap_ad :: int
  ap_installed :: bool
  ap_ed1 :: "int list option"
  ap_ed2 :: "int list option"
  ap_eds :: "int list"
  ap_count :: nat
  ap_file :: "params list"
  ap_file2 :: "params list"

text \<open>The constructors: \<^verbatim>\<open>Application.__init__\<close> and the fields of the subclasses.  The handle is the identity of the object.\<close>

definition app_new :: "app_class \<Rightarrow> int \<Rightarrow> int \<Rightarrow> app" where
  "app_new cls handle ad =
     \<lparr>ap_class = cls, ap_handle = handle, ap_ad = ad, ap_installed = False, ap_ed1 = None, ap_ed2 = None, ap_eds = [], ap_count = 0, ap_file = [], ap_file2 = []\<rparr>"

type_synonym 'p apply_fun =
  "int \<Rightarrow> flow_dict \<Rightarrow> string list \<Rightarrow> params list \<Rightarrow> params list \<Rightarrow> int \<Rightarrow> 'p controller \<Rightarrow> ('p controller \<times> int list) res"

type_synonym apply_call = "flow_dict \<times> string list \<times> params list \<times> params list"

definition app_apply_elem :: "'p apply_fun \<Rightarrow> app \<Rightarrow> apply_call \<Rightarrow> 'p controller \<Rightarrow> ('p controller \<times> int list) res" where
  "app_apply_elem api app call c =
     (case call of (flow, element_names, params, controller_params) \<Rightarrow>
        api (ap_ad app) flow element_names params controller_params (ap_handle app) c)"

definition app_configure_elem :: "app \<Rightarrow> int \<Rightarrow> params \<Rightarrow> 'p controller \<Rightarrow> 'p controller res" where
  "app_configure_elem app element_descriptor params c = configure_elem (ap_ad app) element_descriptor params c"

text \<open>The calls of an \<^verbatim>\<open>init\<close> method, one after the other, with their answers.\<close>

fun apply_all :: "'p apply_fun \<Rightarrow> app \<Rightarrow> apply_call list \<Rightarrow> 'p controller \<Rightarrow> ('p controller \<times> int list list) res" where
  "apply_all api app [] c = Inr (c, [])"
| "apply_all api app (call # calls) c =
     rbind (app_apply_elem api app call c) (\<lambda>(c1, eds).
     rbind (apply_all api app calls c1) (\<lambda>(c2, rest). Inr (c2, eds # rest)))"

text \<open>The usual end of \<^verbatim>\<open>init\<close>: installed if no answer has a negative descriptor.\<close>

definition all_installed :: "int list list \<Rightarrow> bool" where
  "all_installed results = list_all check_elems_installed results"

definition install_calls :: "'p apply_fun \<Rightarrow> app \<Rightarrow> apply_call list \<Rightarrow> 'p controller \<Rightarrow> ('p controller \<times> app) res" where
  "install_calls api app calls c =
     rbind (apply_all api app calls c) (\<lambda>(c1, results).
     Inr (c1, if all_installed results then app\<lparr>ap_installed := True\<rparr> else app))"

definition wild :: "(string \<times> int) list \<Rightarrow> flow_dict" where
  "wild kvs = foldl (\<lambda>flow (k, v). AList.update k (FInt v) flow) make_wildcard_flow kvs"

definition file_param :: "string \<Rightarrow> params" where
  "file_param name = [(''file_name'', PvStr name)]"

text \<open>\<^verbatim>\<open>TriggerAllUnitTest\<close>: one dictionary is used for both calls.\<close>

definition TriggerAllUnitTest_calls :: "apply_call list" where
  "TriggerAllUnitTest_calls =
     (let flows = AList.update ''tp_dst'' (FInt 53) make_wildcard_flow; flows' = AList.update ''tp_dst'' (FInt 80) flows
      in [(flows, [''TriggerAll''], [[]], [[]]), (flows', [''TriggerAll''], [[]], [[]])])"

definition TriggerAllUnitTest_init :: "'p apply_fun \<Rightarrow> app \<Rightarrow> 'p controller \<Rightarrow> ('p controller \<times> app) res" where
  "TriggerAllUnitTest_init api app c =
     rbind (apply_all api app TriggerAllUnitTest_calls c) (\<lambda>(c1, results).
       let app1 = app\<lparr>ap_ed1 := Some (results ! 0), ap_ed2 := Some (results ! 1)\<rparr>
       in Inr (c1, if all_installed results then app1\<lparr>ap_file := [], ap_file2 := [], ap_installed := True\<rparr> else app1))"

definition TwoLoggers_calls :: "apply_call list" where
  "TwoLoggers_calls =
     [(wild [(''tp_dst'', 53)], [''Logger''], [file_param ''/tmp/dns_log''], [[]]),
      (wild [(''tp_src'', 80)], [''Logger''], [file_param ''/tmp/http_log''], [[]])]"

definition BloomFilterUnitTest_calls :: "apply_call list" where
  "BloomFilterUnitTest_calls = [(wild [(''tp_dst'', 80)], [''BloomFilter''], [[]], [[]])]"

text \<open>\<^verbatim>\<open>ed[0]\<close> of an empty answer raises.\<close>

definition BloomFilterUnitTest_init :: "'p apply_fun \<Rightarrow> app \<Rightarrow> 'p controller \<Rightarrow> ('p controller \<times> app) res" where
  "BloomFilterUnitTest_init api app c =
     rbind (apply_all api app BloomFilterUnitTest_calls c) (\<lambda>(c1, results).
     if all_installed results then
       rbind (list_getitem (results ! 0) 0) (\<lambda>ed. Inr (c1, app\<lparr>ap_eds := ap_eds app @ [ed], ap_installed := True\<rparr>))
     else Inr (c1, app))"

definition BloomFilterUnitTest_configure :: "app \<Rightarrow> 'p controller \<Rightarrow> ('p controller \<times> app) res" where
  "BloomFilterUnitTest_configure app c =
     (if ap_count app < 1 then
        rbind (list_getitem (ap_eds app) (ap_count app)) (\<lambda>ed.
        rbind (app_configure_elem app ed [(''bf_size'', PvStr ''1000''), (''error_rate'', PvStr ''0.01''), (''sentinelfile'', PvStr ''/tmp/fieldvals'')] c) (\<lambda>c1.
        Inr (c1, app\<lparr>ap_count := ap_count app + 1\<rparr>)))
      else Inr (c, app))"

definition OSFirewall_calls :: "apply_call list" where
  "OSFirewall_calls = [(wild [(''tp_dst'', 80)], [''P0f''], [[]], [[]])]"

definition OSFirewall_init :: "'p apply_fun \<Rightarrow> app \<Rightarrow> 'p controller \<Rightarrow> ('p controller \<times> app) res" where
  "OSFirewall_init api app c =
     rbind (apply_all api app OSFirewall_calls c) (\<lambda>(c1, results).
     if all_installed results then
       rbind (list_getitem (results ! 0) 0) (\<lambda>ed. Inr (c1, app\<lparr>ap_ed1 := Some [ed], ap_installed := True\<rparr>))
     else Inr (c1, app))"

text \<open>The descriptor of the first element; \<^verbatim>\<open>None[0]\<close> raises.\<close>

definition first_ed :: "int list option \<Rightarrow> int res" where
  "first_ed eds = (case eds of None \<Rightarrow> Inl TypeError | Some l \<Rightarrow> list_getitem l 0)"

text \<open>\<^verbatim>\<open>configure_elem\<close> with the descriptor \<^verbatim>\<open>None\<close> looks the application up with a key that is not there.\<close>

definition OSFirewall_configure :: "app \<Rightarrow> 'p controller \<Rightarrow> ('p controller \<times> app) res" where
  "OSFirewall_configure app c =
     (case ap_ed1 app of
        None \<Rightarrow> Inl KeyError
      | Some l \<Rightarrow> rbind (app_configure_elem app (hd l) [] c) (\<lambda>c1. Inr (c1, app)))"

definition OSFirewall_handle_trigger :: "app \<Rightarrow> params \<Rightarrow> app res" where
  "OSFirewall_handle_trigger app msg =
     (if map_of msg ''p0f_trigger_type'' = Some (PvStr ''OSDetection'') then
        rbind (dict_getitem msg ''OS'') (\<lambda>os.
        if os = PvStr ''Linux'' then rbind (dict_getitem msg ''src_ip'') (\<lambda>src_ip. Inr app) else Inr app)
      else Inr app)"

definition BlockDomains_calls :: "apply_call list" where
  "BlockDomains_calls = [(wild [(''tp_dst'', 53)], [''DnsDpi''], [[]], [[]])]"

definition BlockDomains_init :: "'p apply_fun \<Rightarrow> app \<Rightarrow> 'p controller \<Rightarrow> ('p controller \<times> app) res" where
  "BlockDomains_init api app c =
     rbind (apply_all api app BlockDomains_calls c) (\<lambda>(c1, results).
     Inr (c1, if all_installed results then app\<lparr>ap_ed1 := Some (results ! 0), ap_installed := True\<rparr> else app))"

definition BlockDomains_configure :: "app \<Rightarrow> 'p controller \<Rightarrow> ('p controller \<times> app) res" where
  "BlockDomains_configure app c =
     rbind (first_ed (ap_ed1 app)) (\<lambda>ed. rbind (app_configure_elem app ed [] c) (\<lambda>c1. Inr (c1, app)))"

text \<open>The text operations on a value that is not a string raise \<^verbatim>\<open>AttributeError\<close>.\<close>

definition BlockDomains_handle_BadDomainEvent :: "'p apply_fun \<Rightarrow> app \<Rightarrow> params \<Rightarrow> 'p controller \<Rightarrow> ('p controller \<times> app) res" where
  "BlockDomains_handle_BadDomainEvent api app event c =
     rbind (dict_getitem event ''src_ip'') (\<lambda>v.
     rbind (case v of PvStr s \<Rightarrow> ipstr_to_int s | _ \<Rightarrow> Inl AttributeError) (\<lambda>src_ip.
     rbind (dict_getitem event ''bad_domain_name'') (\<lambda>bad_domain_name.
     rbind (app_apply_elem api app (AList.update ''nw_src'' (FInt src_ip) make_wildcard_flow, [''Drop''], [[]], [[]]) c) (\<lambda>(c1, fd).
     Inr (c1, if check_elems_installed fd then app\<lparr>ap_ed2 := Some fd\<rparr> else app)))))"

definition BlockDomains_handle_trigger :: "'p apply_fun \<Rightarrow> app \<Rightarrow> params \<Rightarrow> 'p controller \<Rightarrow> ('p controller \<times> app) res" where
  "BlockDomains_handle_trigger api app msg c =
     rbind (dict_getitem msg ''dns_dpi_type'') (\<lambda>t.
     if t = PvStr ''BadDomainEvent'' then BlockDomains_handle_BadDomainEvent api app msg c else Inr (c, app))"

definition HttpLogger_calls :: "apply_call list" where
  "HttpLogger_calls =
     [(wild [(''tp_dst'', 80), (''nw_proto'', 6)], [''Logger''], [file_param ''/tmp/http_log''], [[(''affinity'', PvBool True)]])]"

text \<open>The controller parameters are left at their default, one empty dictionary.\<close>

definition TwoLoggersChain_calls :: "apply_call list" where
  "TwoLoggersChain_calls =
     [(wild [(''tp_dst'', 53)], [''Logger'', ''Logger''], [file_param ''/tmp/dns_log_1'', file_param ''/tmp/dns_log_2''], [[]])]"

definition LoggerTriggerChain_calls :: "apply_call list" where
  "LoggerTriggerChain_calls =
     [(wild [(''tp_dst'', 53)], [''Logger''], [file_param ''/tmp/dns_log1''], [[]]),
      (wild [(''tp_dst'', 53)], [''TriggerAll''], [[]], [[]])]"

definition LoggerTriggerChain_init :: "'p apply_fun \<Rightarrow> app \<Rightarrow> 'p controller \<Rightarrow> ('p controller \<times> app) res" where
  "LoggerTriggerChain_init api app c =
     rbind (apply_all api app LoggerTriggerChain_calls c) (\<lambda>(c1, results).
       let app1 = app\<lparr>ap_ed1 := Some (results ! 0), ap_ed2 := Some (results ! 1)\<rparr>
       in Inr (c1, if all_installed results then app1\<lparr>ap_file := [], ap_installed := True\<rparr> else app1))"

definition LoggerTriggerChain_handle_trigger :: "app \<Rightarrow> int \<Rightarrow> params \<Rightarrow> app res" where
  "LoggerTriggerChain_handle_trigger app ed msg =
     (if ap_installed app then
        rbind (first_ed (ap_ed2 app)) (\<lambda>own. Inr (if ed = own then app\<lparr>ap_file := ap_file app @ [msg]\<rparr> else app))
      else Inr app)"

text \<open>What the application keeps is the whole answer, a list.\<close>

definition eds_value :: "int list option \<Rightarrow> pval" where
  "eds_value eds = (case eds of None \<Rightarrow> PvNone | Some l \<Rightarrow> PvList (map PvInt l))"

definition TriggerAllUnitTest_handle_trigger :: "app \<Rightarrow> int \<Rightarrow> params \<Rightarrow> app res" where
  "TriggerAllUnitTest_handle_trigger app ed msg =
     Inr (if ap_installed app then
            (if PvInt ed = eds_value (ap_ed1 app) then app\<lparr>ap_file := ap_file app @ [msg]\<rparr>
             else if PvInt ed = eds_value (ap_ed2 app) then app\<lparr>ap_file2 := ap_file2 app @ [msg]\<rparr>
             else app)
          else app)"

definition LoggerReplicas_calls :: "apply_call list" where
  "LoggerReplicas_calls =
     [(wild [(''tp_dst'', 53)], [''Logger''], [file_param ''/tmp/dns_log1''], [[]]),
      (wild [(''tp_dst'', 53)], [''Logger''], [file_param ''/tmp/dns_log2''], [[]])]"

definition ReplicasChain_calls :: "apply_call list" where
  "ReplicasChain_calls =
     [(wild [(''tp_dst'', 53)], [''Logger''], [file_param ''/tmp/dns_log1''], [[]]),
      (wild [(''tp_dst'', 53)], [''Logger''], [file_param ''/tmp/dns_log2''], [[]]),
      (wild [(''tp_dst'', 53)], [''Noop''], [[]], [[]])]"

definition DirectionLogger_calls :: "apply_call list" where
  "DirectionLogger_calls =
     [(wild [(''tp_dst'', 53), (''nw_proto'', 17)], [''Logger''], [file_param ''/tmp/unidirection_log''],
       [[(''bidirection'', PvBool False), (''affinity'', PvBool True)]]),
      (wild [(''tp_dst'', 53), (''nw_proto'', 17)], [''Logger1''], [file_param ''/tmp/bidirection_log''],
       [[(''bidirection'', PvBool True), (''affinity'', PvBool True)]])]"

definition Compressor_calls :: "apply_call list" where
  "Compressor_calls = [(wild [(''dl_type'', 0x800), (''nw_proto'', 17), (''tp_dst'', 8000)], [''Compress''], [[]], [[]])]"

definition DelayBuffer_calls :: "apply_call list" where
  "DelayBuffer_calls =
     [(wild [(''dl_type'', 0x800), (''nw_proto'', 17), (''tp_dst'', 8000)], [''DelayBuffer''], [[(''buffer_size'', PvInt 5)]], [[]])]"

definition Constant_calls :: "apply_call list" where
  "Constant_calls =
     [(wild [(''dl_type'', 0x800), (''nw_proto'', 17), (''tp_dst'', 8000)], [''Constant''], [[(''message'', PvStr ''Hello world!'')]], [[]])]"

definition EnterpriseOne_calls :: "apply_call list" where
  "EnterpriseOne_calls =
     [(wild [(''nw_proto'', 1)], [''Encrypt'', ''StatefulFirewall'', ''IDS'', ''LoadBalancer''],
       [file_param ''/tmp/Encrypt_log'', file_param ''/tmp/StatefulFirewall_log'', file_param ''/tmp/IDS_log'', file_param ''/tmp/LoadBalancer_log''],
       [[], [], [], []])]"

definition EnterpriseOne_init :: "'p apply_fun \<Rightarrow> app \<Rightarrow> 'p controller \<Rightarrow> ('p controller \<times> app) res" where
  "EnterpriseOne_init api app c =
     rbind (apply_all api app EnterpriseOne_calls c) (\<lambda>(c1, results).
       let app1 = app\<lparr>ap_eds := results ! 0\<rparr>
       in Inr (c1, if all_installed results then app1\<lparr>ap_installed := True\<rparr> else app1))"

definition less_param :: params where
  "less_param = [(''file_name'', PvStr ''/tmp/less_elem_log''), (''drop_count'', PvInt 3)]"

definition more_param :: params where
  "more_param = [(''file_name'', PvStr ''/tmp/more_elem_log''), (''inflation_rate'', PvInt 2)]"

definition LessTestApp_calls :: "apply_call list" where
  "LessTestApp_calls = [(wild [(''nw_proto'', 17), (''dl_type'', 0x800)], [''Less''], [less_param], [[]])]"

definition MoreTestApp_calls :: "apply_call list" where
  "MoreTestApp_calls = [(wild [(''nw_proto'', 17), (''dl_type'', 0x800)], [''More''], [more_param], [[]])]"

definition EqualApp_calls :: "apply_call list" where
  "EqualApp_calls = [(wild [(''nw_proto'', 17), (''dl_type'', 0x800)], [''Equal''], [file_param ''/tmp/equal_log''], [[]])]"

definition PacketDump_calls :: "apply_call list" where
  "PacketDump_calls = [(wild [(''tp_dst'', 80)], [''Dump''], [file_param ''/tmp/packet_dump.pcap''], [[]])]"

definition LLTestApp_calls :: "apply_call list" where
  "LLTestApp_calls = [(wild [(''nw_proto'', 17), (''dl_type'', 0x800)], [''Less'', ''Less''], [less_param, less_param], [[]])]"

definition LMTestApp_calls :: "apply_call list" where
  "LMTestApp_calls = [(wild [(''nw_proto'', 17), (''dl_type'', 0x800)], [''Less'', ''More''], [less_param, more_param], [[]])]"

definition MMTestApp_calls :: "apply_call list" where
  "MMTestApp_calls = [(wild [(''nw_proto'', 17), (''dl_type'', 0x800)], [''More'', ''More''], [more_param, more_param], [[]])]"

section \<open>Dispatch\<close>

fun app_calls :: "app_class \<Rightarrow> apply_call list" where
  "app_calls TriggerAllUnitTest = TriggerAllUnitTest_calls"
| "app_calls TwoLoggers = TwoLoggers_calls"
| "app_calls BloomFilterUnitTest = BloomFilterUnitTest_calls"
| "app_calls OSFirewall = OSFirewall_calls"
| "app_calls BlockDomains = BlockDomains_calls"
| "app_calls HttpLogger = HttpLogger_calls"
| "app_calls TwoLoggersChain = TwoLoggersChain_calls"
| "app_calls LoggerTriggerChain = LoggerTriggerChain_calls"
| "app_calls LoggerReplicas = LoggerReplicas_calls"
| "app_calls ReplicasChain = ReplicasChain_calls"
| "app_calls DirectionLogger = DirectionLogger_calls"
| "app_calls CompressorApp = Compressor_calls"
| "app_calls DelayBufferApp = DelayBuffer_calls"
| "app_calls ConstantApp = Constant_calls"
| "app_calls EnterpriseOne = EnterpriseOne_calls"
| "app_calls LessTestApp = LessTestApp_calls"
| "app_calls MoreTestApp = MoreTestApp_calls"
| "app_calls EqualApp = EqualApp_calls"
| "app_calls PacketDump = PacketDump_calls"
| "app_calls LLTestApp = LLTestApp_calls"
| "app_calls LMTestApp = LMTestApp_calls"
| "app_calls MMTestApp = MMTestApp_calls"

definition app_init :: "'p apply_fun \<Rightarrow> app \<Rightarrow> 'p controller \<Rightarrow> ('p controller \<times> app) res" where
  "app_init api app c =
     (case ap_class app of
        TriggerAllUnitTest \<Rightarrow> TriggerAllUnitTest_init api app c
      | BloomFilterUnitTest \<Rightarrow> BloomFilterUnitTest_init api app c
      | OSFirewall \<Rightarrow> OSFirewall_init api app c
      | BlockDomains \<Rightarrow> BlockDomains_init api app c
      | LoggerTriggerChain \<Rightarrow> LoggerTriggerChain_init api app c
      | EnterpriseOne \<Rightarrow> EnterpriseOne_init api app c
      | cls \<Rightarrow> install_calls api app (app_calls cls) c)"

definition configure_user_params :: "app \<Rightarrow> 'p controller \<Rightarrow> ('p controller \<times> app) res" where
  "configure_user_params app c =
     (case ap_class app of
        BloomFilterUnitTest \<Rightarrow> BloomFilterUnitTest_configure app c
      | OSFirewall \<Rightarrow> OSFirewall_configure app c
      | BlockDomains \<Rightarrow> BlockDomains_configure app c
      | _ \<Rightarrow> Inr (c, app))"

definition handle_trigger :: "'p apply_fun \<Rightarrow> app \<Rightarrow> int \<Rightarrow> params \<Rightarrow> 'p controller \<Rightarrow> ('p controller \<times> app) res" where
  "handle_trigger api app ed msg c =
     (case ap_class app of
        TriggerAllUnitTest \<Rightarrow> rbind (TriggerAllUnitTest_handle_trigger app ed msg) (\<lambda>a. Inr (c, a))
      | OSFirewall \<Rightarrow> rbind (OSFirewall_handle_trigger app msg) (\<lambda>a. Inr (c, a))
      | BlockDomains \<Rightarrow> BlockDomains_handle_trigger api app msg c
      | LoggerTriggerChain \<Rightarrow> rbind (LoggerTriggerChain_handle_trigger app ed msg) (\<lambda>a. Inr (c, a))
      | _ \<Rightarrow> Inr (c, app))"

text \<open>\<^verbatim>\<open>loggerunittest.py\<close> and \<^verbatim>\<open>loggerunittest2.py\<close> call \<^verbatim>\<open>apply_elem\<close> with one argument too few and a method \<^verbatim>\<open>configure_func\<close>
  that the controller does not have.\<close>

definition LoggerUnitTest_init :: "unit res" where
  "LoggerUnitTest_init = Inl TypeError"

definition LoggerUnitTest_configure :: "bool \<Rightarrow> bool res" where
  "LoggerUnitTest_configure conf = (if conf then Inr conf else Inl AttributeError)"

definition LoggerUnitTest2_init :: "string list \<Rightarrow> flow_dict list \<Rightarrow> unit res" where
  "LoggerUnitTest2_init file_names flows =
     rbind (list_getitem file_names 0) (\<lambda>_. rbind (list_getitem flows 0) (\<lambda>_. Inl TypeError))"

section \<open>Running applications\<close>

text \<open>The modules \<^verbatim>\<open>from apps import *\<close> loads; another name is no key of \<^verbatim>\<open>sys.modules\<close>.\<close>

definition loadable_apps :: "(string, app_class) dict" where
  "loadable_apps =
     [(''TriggerAllUnitTest'', TriggerAllUnitTest), (''TwoLoggers'', TwoLoggers), (''BloomFilterUnitTest'', BloomFilterUnitTest),
      (''OSFirewall'', OSFirewall), (''BlockDomains'', BlockDomains), (''HttpLogger'', HttpLogger), (''TwoLoggersChain'', TwoLoggersChain),
      (''LoggerTriggerChain'', LoggerTriggerChain), (''LoggerReplicas'', LoggerReplicas), (''ReplicasChain'', ReplicasChain),
      (''DirectionLogger'', DirectionLogger), (''Compressor'', CompressorApp), (''DelayBuffer'', DelayBufferApp), (''Constant'', ConstantApp),
      (''EnterpriseOne'', EnterpriseOne), (''LessTestApp'', LessTestApp), (''MoreTestApp'', MoreTestApp), (''EqualApp'', EqualApp)]"

text \<open>The application of the command line becomes the first of \<^verbatim>\<open>app_handles\<close>; its object is number 1.\<close>

definition load_application :: "string \<Rightarrow> 'p controller \<Rightarrow> ('p controller \<times> (int, app) dict) res" where
  "load_application application c =
     rbind (dict_getitem loadable_apps application) (\<lambda>cls.
     case get_unique_app_descriptor c of (c1, ad) \<Rightarrow> Inr (c1, [(1, app_new cls 1 ad)]))"

text \<open>\<^verbatim>\<open>timer_callback\<close>: every application that is not installed is initialised, then every element's application is configured.\<close>

definition init_app :: "'p apply_fun \<Rightarrow> 'p controller \<times> (int, app) dict \<Rightarrow> int \<Rightarrow> ('p controller \<times> (int, app) dict) res" where
  "init_app api st h =
     (case st of (c, apps) \<Rightarrow>
        rbind (dict_getitem apps h) (\<lambda>app.
        if ap_installed app then Inr (c, apps)
        else rbind (app_init api app c) (\<lambda>(c1, app1). Inr (c1, AList.update h app1 apps))))"

definition configure_app :: "'p controller \<times> (int, app) dict \<Rightarrow> int \<Rightarrow> ('p controller \<times> (int, app) dict) res" where
  "configure_app st elem_desc =
     (case st of (c, apps) \<Rightarrow>
        rbind (eta_get_app_handle (c_e2a c) elem_desc) (\<lambda>h.
        rbind (dict_getitem apps h) (\<lambda>app.
        rbind (configure_user_params app c) (\<lambda>(c1, app1). Inr (c1, AList.update h app1 apps)))))"

definition timer_callback :: "'p apply_fun \<Rightarrow> 'p controller \<times> (int, app) dict \<Rightarrow> ('p controller \<times> (int, app) dict) res" where
  "timer_callback api st =
     rbind (rfoldM (init_app api) st (dict_keys (snd st))) (\<lambda>st1.
     rfoldM configure_app st1 (dict_keys (c_e2a (fst st1))))"

text \<open>The branch of \<^verbatim>\<open>process_msg\<close> that calls the application.\<close>

definition deliver_trigger :: "'p apply_fun \<Rightarrow> int \<Rightarrow> params \<Rightarrow> 'p controller \<times> (int, app) dict \<Rightarrow> ('p controller \<times> (int, app) dict) res" where
  "deliver_trigger api ed msg st =
     (case st of (c, apps) \<Rightarrow>
        rbind (eta_get_app_handle (c_e2a c) ed) (\<lambda>h.
        rbind (dict_getitem apps h) (\<lambda>app.
        rbind (handle_trigger api app ed msg c) (\<lambda>(c1, app1). Inr (c1, AList.update h app1 apps)))))"

section \<open>The interface of the controller\<close>

text \<open>The elements of a call: under each descriptor of the answer, the element of that name, for the application.\<close>

definition owns :: "'p controller \<Rightarrow> int \<Rightarrow> string list \<Rightarrow> int list \<Rightarrow> bool" where
  "owns c app_desc names eds \<longleftrightarrow>
     list_all2 (\<lambda>name ed. \<exists>i. deployment c ed = Some i \<and> ei_name i = name \<and> ei_app_desc i = app_desc) names eds"

lemma owns_mono: "owns c a names eds \<Longrightarrow> deployment c \<subseteq>\<^sub>m deployment c' \<Longrightarrow> owns c' a names eds"
  unfolding owns_def by (elim list_all2_mono) (metis domI map_le_def)

text \<open>What an application relies on: a call that returns keeps the tables in agreement and the elements that are there; an answer
  without negative numbers means that the elements asked for are deployed.\<close>

locale controller_api =
  fixes api :: "'p apply_fun"
  assumes apply_consistent: "consistent c \<Longrightarrow> api a flow names ps cps h c = Inr (c', eds) \<Longrightarrow> consistent c'"
    and apply_keeps: "consistent c \<Longrightarrow> api a flow names ps cps h c = Inr (c', eds) \<Longrightarrow> deployment c \<subseteq>\<^sub>m deployment c'"
    and apply_owns: "consistent c \<Longrightarrow> api a flow names ps cps h c = Inr (c', eds) \<Longrightarrow> check_elems_installed eds \<Longrightarrow> owns c' a names eds"
begin

lemma apply_all_ok:
  assumes "consistent c" and "apply_all api app calls c = Inr (c', results)"
  shows "consistent c' \<and> deployment c \<subseteq>\<^sub>m deployment c' \<and>
    list_all2 (\<lambda>(flow, names, ps, cps) eds. check_elems_installed eds \<longrightarrow> owns c' (ap_ad app) names eds) calls results"
  using assms
proof (induction calls arbitrary: c results)
  case (Cons call calls)
  obtain flow names ps cps where call: "call = (flow, names, ps, cps)" by (metis surj_pair)
  from Cons.prems(2) obtain c1 eds rest where one: "api (ap_ad app) flow names ps cps (ap_handle app) c = Inr (c1, eds)"
    and rest: "apply_all api app calls c1 = Inr (c', rest)" and results: "results = eds # rest"
    by (auto simp: app_apply_elem_def call rbind_eq_Inr)
  note step = apply_consistent [OF Cons.prems(1) one] apply_keeps [OF Cons.prems(1) one] apply_owns [OF Cons.prems(1) one]
  from Cons.IH [OF step(1) rest] step(2,3) show ?case
    unfolding results call by (auto intro: map_le_trans owns_mono)
qed simp

end

text \<open>Every \<^verbatim>\<open>init\<close> makes the calls of its class and sets the flag by their answers.\<close>

definition init_ok :: "'p apply_fun \<Rightarrow> app \<Rightarrow> apply_call list \<Rightarrow> 'p controller \<Rightarrow> ('p controller \<times> app) res \<Rightarrow> bool" where
  "init_ok api app calls c r \<longleftrightarrow> (\<forall>c' app'. r = Inr (c', app') \<longrightarrow>
     (\<exists>results. apply_all api app calls c = Inr (c', results) \<and> ap_installed app' = (ap_installed app \<or> all_installed results) \<and>
        ap_class app' = ap_class app \<and> ap_ad app' = ap_ad app \<and> ap_handle app' = ap_handle app))"

lemma init_okI:
  assumes "\<And>c1 results c' app'. apply_all api app calls c = Inr (c1, results) \<Longrightarrow> F (c1, results) = Inr (c', app') \<Longrightarrow>
     c' = c1 \<and> ap_installed app' = (ap_installed app \<or> all_installed results) \<and>
     ap_class app' = ap_class app \<and> ap_ad app' = ap_ad app \<and> ap_handle app' = ap_handle app"
  shows "init_ok api app calls c (rbind (apply_all api app calls c) F)"
  unfolding init_ok_def
proof (intro allI impI)
  fix c' app' assume "rbind (apply_all api app calls c) F = Inr (c', app')"
  then obtain c1 results where a: "apply_all api app calls c = Inr (c1, results)" "F (c1, results) = Inr (c', app')"
    by (auto simp: rbind_eq_Inr)
  with assms [OF a] show "\<exists>results. apply_all api app calls c = Inr (c', results) \<and>
      ap_installed app' = (ap_installed app \<or> all_installed results) \<and>
      ap_class app' = ap_class app \<and> ap_ad app' = ap_ad app \<and> ap_handle app' = ap_handle app"
    by blast
qed

lemma install_calls_ok: "init_ok api app calls c (install_calls api app calls c)"
  unfolding install_calls_def by (rule init_okI) (auto split: if_splits)

lemma TriggerAll_ok: "init_ok api app TriggerAllUnitTest_calls c (TriggerAllUnitTest_init api app c)"
  unfolding TriggerAllUnitTest_init_def by (rule init_okI) (auto simp: Let_def split: if_splits)

lemma BloomFilter_ok: "init_ok api app BloomFilterUnitTest_calls c (BloomFilterUnitTest_init api app c)"
  unfolding BloomFilterUnitTest_init_def by (rule init_okI) (auto simp: rbind_def split: if_splits sum.splits)

lemma OSFirewall_ok: "init_ok api app OSFirewall_calls c (OSFirewall_init api app c)"
  unfolding OSFirewall_init_def by (rule init_okI) (auto simp: rbind_def split: if_splits sum.splits)

lemma BlockDomains_ok: "init_ok api app BlockDomains_calls c (BlockDomains_init api app c)"
  unfolding BlockDomains_init_def by (rule init_okI) (auto split: if_splits)

lemma LoggerTriggerChain_ok: "init_ok api app LoggerTriggerChain_calls c (LoggerTriggerChain_init api app c)"
  unfolding LoggerTriggerChain_init_def by (rule init_okI) (auto simp: Let_def split: if_splits)

lemma EnterpriseOne_ok: "init_ok api app EnterpriseOne_calls c (EnterpriseOne_init api app c)"
  unfolding EnterpriseOne_init_def by (rule init_okI) (auto simp: Let_def split: if_splits)

lemmas inits_ok = install_calls_ok TriggerAll_ok BloomFilter_ok OSFirewall_ok BlockDomains_ok LoggerTriggerChain_ok EnterpriseOne_ok

lemma app_init_ok: "init_ok api app (app_calls (ap_class app)) c (app_init api app c)"
  by (cases "ap_class app") (simp_all add: app_init_def inits_ok)

lemma app_init_calls:
  assumes "app_init api app c = Inr (c', app')"
  shows "\<exists>results. apply_all api app (app_calls (ap_class app)) c = Inr (c', results) \<and>
    ap_installed app' = (ap_installed app \<or> all_installed results) \<and>
    ap_class app' = ap_class app \<and> ap_ad app' = ap_ad app \<and> ap_handle app' = ap_handle app"
  using app_init_ok [of api app c] assms unfolding init_ok_def by blast

context controller_api
begin

lemma app_init_deploys:
  assumes "consistent c" and "app_init api app c = Inr (c', app')" and "\<not> ap_installed app"
  shows "consistent c' \<and> deployment c \<subseteq>\<^sub>m deployment c' \<and>
    (ap_installed app' \<longrightarrow> (\<exists>results. list_all2 (\<lambda>(flow, names, ps, cps) eds. owns c' (ap_ad app) names eds) (app_calls (ap_class app)) results))"
proof -
  obtain results where r: "apply_all api app (app_calls (ap_class app)) c = Inr (c', results)"
    and i: "ap_installed app' = all_installed results" using app_init_calls [OF assms(2)] assms(3) by blast
  note ok = apply_all_ok [OF assms(1) r]
  have "list_all2 (\<lambda>(flow, names, ps, cps) eds. owns c' (ap_ad app) names eds) (app_calls (ap_class app)) results"
    if "all_installed results"
    using ok that by (auto simp: list_all2_conv_all_nth all_installed_def list_all_length)
  with ok i show ?thesis by blast
qed

end

lemma chain_owned:
  assumes "distinct eds" and "length names = length eds" and "length macs = length eds"
  shows "list_all2 (\<lambda>name ed. \<exists>i. (m ++ map_of (deployed_chain a names eds macs)) ed = Some i \<and> ei_name i = name \<and> ei_app_desc i = aa_app_desc a) names eds"
proof -
  have nth: "deployed_chain a names eds macs ! k = (eds ! k, new_instance a (names ! k) (eds ! k) (macs ! k))" if "k < length eds" for k
    using that assms(2,3) by (simp add: deployed_chain_def)
  have len: "length (deployed_chain a names eds macs) = length eds" using assms(2,3) by (simp add: deployed_chain_def)
  have keys: "map fst (deployed_chain a names eds macs) = eds"
    by (rule nth_equalityI) (simp_all add: len nth)
  have "map_of (deployed_chain a names eds macs) (eds ! k) = Some (new_instance a (names ! k) (eds ! k) (macs ! k))" if "k < length eds" for k
    using that nth [OF that] nth_mem [of k "deployed_chain a names eds macs"] len keys assms(1) by (intro map_of_is_SomeI) simp_all
  then show ?thesis
    using assms(2) by (auto simp: list_all2_conv_all_nth map_add_Some_iff new_instance_def)
qed

lemma fresh_distinct: "distinct (fresh_descriptors c n)"
  by (simp add: fresh_descriptors_def distinct_map inj_on_def)

lemma extends_owns:
  assumes "extends_deployment c a names eds c'"
  shows "owns c' (aa_app_desc a) names eds"
proof -
  obtain macs where eds: "eds = fresh_descriptors c (length names)" and "length macs = length names"
    and d: "deployment c' = deployment c ++ map_of (deployed_chain a names eds macs)" using assms by (auto simp: extends_deployment_def)
  then have "length names = length eds" "length macs = length eds" by (simp_all add: fresh_descriptors_def)
  moreover have "distinct eds" unfolding eds by (rule fresh_distinct)
  ultimately show ?thesis unfolding owns_def d by (intro chain_owned)
qed

lemma fresh_not_deployed: "consistent c \<Longrightarrow> ed \<in> set (fresh_descriptors c n) \<Longrightarrow> deployment c ed = None"
  using consistentD(6) by (fastforce simp: fresh_descriptors_def)

lemma extends_mono:
  assumes "consistent c" and "extends_deployment c a names eds c'"
  shows "deployment c \<subseteq>\<^sub>m deployment c'"
proof -
  obtain macs where eds: "eds = fresh_descriptors c (length names)"
    and d: "deployment c' = deployment c ++ map_of (deployed_chain a names eds macs)" using assms(2) by (auto simp: extends_deployment_def)
  have "dom (map_of (deployed_chain a names eds macs)) \<subseteq> set eds"
    by (auto simp: deployed_chain_def dom_map_of_conv_image_fst dest: set_zip_leftD [OF set_zip_rightD])
  then have "dom (deployment c) \<inter> dom (map_of (deployed_chain a names eds macs)) = {}"
    using fresh_not_deployed [OF assms(1)] eds by fastforce
  then show ?thesis unfolding d by (metis map_add_comm map_le_map_add)
qed

interpretation slick_api: controller_api "apply_elem (controller_get_placement env selected) d"
proof
  fix c c' :: "placement_state controller" and a h :: int and flow names ps cps eds
  assume c: "consistent c" and r: "apply_elem (controller_get_placement env selected) d a flow names ps cps h c = Inr (c', eds)"
  note ref = running.apply_elem_refines [OF c r]
  show "consistent c'" using ref by blast
  show "deployment c \<subseteq>\<^sub>m deployment c'" using ref extends_mono [OF c] by auto
  show "owns c' a names eds" if "check_elems_installed eds"
    using ref that by (auto simp: check_elems_installed_iff dest: extends_owns)
qed

section \<open>The timer\<close>

lemma configure_elem_extends: "configure_elem a ed ps c = Inr c' \<Longrightarrow> books c' = books c"
  by (auto simp: configure_elem_def send_configure_msg_def send_msg_def books_def rbind_eq_Inr split: if_splits option.splits)

lemma configure_user_params_keeps:
  assumes "configure_user_params app c = Inr (c', app')"
  shows "books c' = books c \<and> ap_class app' = ap_class app \<and> ap_ad app' = ap_ad app \<and> ap_installed app' = ap_installed app"
  using assms configure_elem_extends
  by (auto simp: configure_user_params_def BloomFilterUnitTest_configure_def OSFirewall_configure_def BlockDomains_configure_def
      app_configure_elem_def rbind_eq_Inr split: app_class.splits option.splits if_splits)

text \<open>An application that counts as installed has its elements.\<close>

definition app_deployed :: "'p controller \<Rightarrow> app \<Rightarrow> bool" where
  "app_deployed c app \<longleftrightarrow>
     (\<exists>results. list_all2 (\<lambda>(flow, names, ps, cps) eds. owns c (ap_ad app) names eds) (app_calls (ap_class app)) results)"

definition apps_ok :: "'p controller \<times> (int, app) dict \<Rightarrow> bool" where
  "apps_ok st \<longleftrightarrow> consistent (fst st) \<and> (\<forall>app \<in> ran (map_of (snd st)). ap_installed app \<longrightarrow> app_deployed (fst st) app)"

lemma app_deployed_mono: "app_deployed c app \<Longrightarrow> deployment c \<subseteq>\<^sub>m deployment c' \<Longrightarrow> app_deployed c' app"
  unfolding app_deployed_def by (elim exE, rule exI, erule list_all2_mono) (auto intro: owns_mono)

lemma apps_ok_update:
  assumes "apps_ok (c, apps)" and "consistent c'" and "deployment c \<subseteq>\<^sub>m deployment c'" and "ap_installed app \<longrightarrow> app_deployed c' app"
  shows "apps_ok (c', AList.update h app apps)"
  using assms by (auto simp: apps_ok_def ran_def update_conv' intro: app_deployed_mono)

lemma configure_app_ok: "configure_app st ed = Inr st' \<Longrightarrow> apps_ok st \<Longrightarrow> apps_ok st'"
proof (cases st)
  case (Pair c apps)
  assume "configure_app st ed = Inr st'" and ok: "apps_ok st"
  then obtain h app c1 app1 where h: "map_of apps h = Some app" and r: "configure_user_params app c = Inr (c1, app1)"
    and st': "st' = (c1, AList.update h app1 apps)"
    by (auto simp: configure_app_def Pair rbind_eq_Inr dict_getitem_def split: option.splits)
  note k = configure_user_params_keeps [OF r]
  have "app_deployed c app1" if "ap_installed app1"
    using ok h k that by (auto simp: Pair apps_ok_def app_deployed_def ran_def)
  moreover have "consistent c1" "deployment c1 = deployment c" using k ok books_same(1,2) [of c1 c] by (auto simp: Pair apps_ok_def)
  ultimately show ?thesis
    unfolding st' using ok by (intro apps_ok_update [of c apps]) (auto simp: Pair intro: app_deployed_mono)
qed

context controller_api
begin

lemma init_app_ok: "init_app api st h = Inr st' \<Longrightarrow> apps_ok st \<Longrightarrow> apps_ok st'"
proof (cases st)
  case (Pair c apps)
  assume r: "init_app api st h = Inr st'" and ok: "apps_ok st"
  then obtain app where h: "map_of apps h = Some app" by (auto simp: init_app_def Pair rbind_eq_Inr dict_getitem_def split: option.splits)
  show ?thesis
  proof (cases "ap_installed app")
    case True
    with r h ok show ?thesis by (simp add: init_app_def Pair dict_getitem_def)
  next
    case False
    with r h obtain c1 app1 where i: "app_init api app c = Inr (c1, app1)" and st': "st' = (c1, AList.update h app1 apps)"
      by (auto simp: init_app_def Pair rbind_eq_Inr dict_getitem_def)
    have "consistent c" using ok by (simp add: Pair apps_ok_def)
    note d = app_init_deploys [OF this i False]
    have "ap_class app1 = ap_class app" "ap_ad app1 = ap_ad app" using app_init_calls [OF i] by auto
    with d show ?thesis unfolding st' using ok by (intro apps_ok_update [of c apps]) (auto simp: Pair app_deployed_def)
  qed
qed

lemma timer_ok:
  assumes "timer_callback api st = Inr st'" and "apps_ok st"
  shows "apps_ok st'"
proof -
  from assms(1) obtain st1 where 1: "rfoldM (init_app api) st (dict_keys (snd st)) = Inr st1"
    and 2: "rfoldM configure_app st1 (dict_keys (c_e2a (fst st1))) = Inr st'" by (auto simp: timer_callback_def rbind_eq_Inr)
  have "apps_ok st1" using 1 assms(2) by (rule rfoldM_invariant) (rule init_app_ok)
  with 2 show ?thesis by (rule rfoldM_invariant) (rule configure_app_ok)
qed

end

text \<open>Chains whose controller parameters do not fit.\<close>

lemma install_placed_lengths:
  assumes "install_placed d a names ps cps macs c = Inr (c', eds)" and "length cps \<noteq> length names"
  shows "eds = [- 2]"
  using assms by (auto simp: install_placed_def rbind_eq_Inr split: sum.splits py_error.splits slick_exception.splits prod.splits if_splits)

lemma apply_elem_lengths:
  assumes "apply_elem place d app flow names ps cps h c = Inr (c', eds)" and "length cps \<noteq> length names"
  shows "eds \<in> {[- 1], [- 2], [- 4], [- 5]}"
  using assms
  by (auto simp: apply_elem_def rbind_def Let_def dest: install_placed_lengths
      split: sum.split_asm prod.split_asm bool.split_asm if_split_asm option.split_asm list.split_asm)

lemma chain_class_calls:
  assumes "cls \<in> {TwoLoggersChain, LLTestApp, LMTestApp, MMTestApp}"
  shows "\<exists>flow names ps cps. app_calls cls = [(flow, names, ps, cps)] \<and> length cps \<noteq> length names"
  using assms by (auto simp: TwoLoggersChain_calls_def LLTestApp_calls_def LMTestApp_calls_def MMTestApp_calls_def)

text \<open>The message of the DNS inspection element about a query from the address \<open>a\<close>.\<close>

definition bad_domain_trigger :: "element \<Rightarrow> int \<Rightarrow> string \<Rightarrow> world \<Rightarrow> pval" where
  "bad_domain_trigger el a name w =
     last (w_sent (raise_trigger el [(''dns_dpi_type'', PvStr ''BadDomainEvent''), (''src_ip'', PvStr (ip_to_str a)),
       (''bad_domain_name'', PvStr name)] w))"

abbreviation demo_api :: "placement_state apply_fun" where
  "demo_api \<equiv> apply_elem (controller_get_placement demo_env RoundRobinP) demo_download"

lemma demo_timer:
  "map_sum id (\<lambda>(c, a). map (\<lambda>(h, app). (h, ap_installed app, ap_class app)) a) (timer_callback demo_api (demo_traffic, [(1, app_new TwoLoggers 1 101)])) =
     Inr [(1, True, TwoLoggers)]"
  by code_simp

lemma demo_no_traffic: "map_sum id (\<lambda>(c, a). ap_installed a) (app_init demo_api (app_new TwoLoggersChain 1 101) demo_start) = Inr False"
  by code_simp

lemma demo_owners: "map_sum id (\<lambda>(c, eds). map (\<lambda>(k, e). (k, ae_application_object e)) (c_e2a c)) demo_apply = Inr [(2, 7)]"
  by code_simp

lemma demo_drop:
  "map_sum id snd (rbind demo_apply (\<lambda>(c, _). demo_api 101 (AList.update ''nw_src'' (FInt 5) make_wildcard_flow) [''Drop''] [[]] [[]] 7 c)) = Inr [3]"
  by code_simp

section \<open>Properties\<close>







text \<open>
  The trigger test never logs a trigger: it compares the descriptor of the element that raised it with the whole answer of
  \<^verbatim>\<open>apply_elem\<close>, a list.
\<close>

lemma trigger_test_logs_nothing:
  assumes "ap_class app = TriggerAllUnitTest"
  shows "handle_trigger api app ed msg c = Inr (c, app)"
  using assms by (simp add: handle_trigger_def TriggerAllUnitTest_handle_trigger_def eds_value_def split: option.splits)

lemma trigger_test_logs_nothing_example:
  "handle_trigger demo_api ((app_new TriggerAllUnitTest 1 101)\<lparr>ap_installed := True, ap_ed1 := Some [2], ap_ed2 := Some [3]\<rparr>) 2 [] demo_traffic =
     Inr (demo_traffic, (app_new TriggerAllUnitTest 1 101)\<lparr>ap_installed := True, ap_ed1 := Some [2], ap_ed2 := Some [3]\<rparr>)"
  by (rule trigger_test_logs_nothing) (simp add: app_new_def)

end
